(* ===== verification/Prelude.thy ===== *)
theory Prelude
  imports Main "HOL-Library.Word"
begin

text \<open>
  Shared vocabulary of the development: the machine integers of the code as words, the
  collections of rewrite rules the component theories fill, and generic lemmas on
  functions, options, lists and words that several components use.

  C's \<^verbatim>\<open>int\<close>, \<^verbatim>\<open>unsigned long\<close> and pointers are 32 bits wide (the Makefile compiles
  with \<^verbatim>\<open>-m32\<close>), \<^verbatim>\<open>Byte\<close> 8 and \<^verbatim>\<open>Word\<close> 16 bits. All are modelled as words, so
  arithmetic wraps as on the machine; signed comparisons read the word with \<^term>\<open>sint\<close>.
\<close>

unbundle bit_operations_syntax

type_synonym byte = "8 word"
type_synonym hword = "16 word"
type_synonym dword = "32 word"
type_synonym cint = "32 word"
type_synonym addr = "32 word"

abbreviation (input) NULL :: addr where
  "NULL \<equiv> 0"

named_theorems kernel_frame \<open>what an operation leaves unchanged\<close>
named_theorems kernel_step \<open>the functional behaviour of an operation on each branch\<close>

text \<open>The address of byte \<open>k\<close> of an object, and of element \<open>k\<close> of an array of dwords.\<close>

definition byte_at :: "addr \<Rightarrow> nat \<Rightarrow> addr" where
  "byte_at a k = a + of_nat k"

definition dword_at :: "addr \<Rightarrow> nat \<Rightarrow> addr" where
  "dword_at a k = a + 4 * of_nat k"

lemma byte_at_0 [simp]: "byte_at a 0 = a"
  by (simp add: byte_at_def)

lemma dword_at_0 [simp]: "dword_at a 0 = a"
  by (simp add: dword_at_def)

lemma unat_bound32: "unat (x :: 32 word) < 2 ^ 32"
  using unsigned_less [of x] by simp

lemma unat_bound64: "unat (x :: 64 word) < 2 ^ 64"
  using unsigned_less [of x] by simp

lemma unat_minus_1_32: "unat (-1 :: 32 word) = 4294967295"
  by (simp add: unsigned_minus_1_eq_mask mask_eq_exp_minus_1)

text \<open>A word below the sign bit reads the same as \<^verbatim>\<open>int\<close> and as \<^verbatim>\<open>unsigned\<close>.\<close>

lemma sint_small: "unat (n :: 32 word) < 2 ^ 31 \<Longrightarrow> sint n = int (unat n)"
proof -
  have "signed_take_bit 31 (int m) = int m" if "m < 2 ^ 31" for m
    using that by (intro signed_take_bit_int_eq_self) simp_all
  moreover have "sint n = signed_take_bit 31 (int (unat n))"
    by (simp add: sint_uint)
  moreover assume "unat n < 2 ^ 31"
  ultimately show ?thesis
    by (simp only:)
qed

lemma of_nat_word32_inj:
  fixes i j :: nat
  assumes "i < 2 ^ 32" and "j < 2 ^ 32" and "(of_nat i :: 32 word) = of_nat j"
  shows "i = j"
proof -
  have "unat (of_nat i :: 32 word) = unat (of_nat j :: 32 word)"
    using assms(3) by simp
  then show ?thesis
    using assms(1,2) by (simp add: unat_of_nat)
qed

lemma byte_at_inj:
  "i < 2 ^ 32 \<Longrightarrow> j < 2 ^ 32 \<Longrightarrow> byte_at a i = byte_at a j \<longleftrightarrow> i = j"
  unfolding byte_at_def by (metis add_left_cancel of_nat_word32_inj)

lemma dword_at_inj:
  assumes "i < 2 ^ 30" and "j < 2 ^ 30"
  shows "dword_at a i = dword_at a j \<longleftrightarrow> i = j"
proof
  assume "dword_at a i = dword_at a j"
  then have "(of_nat (4 * i) :: 32 word) = of_nat (4 * j)"
    by (simp add: dword_at_def)
  then have "4 * i = 4 * j"
    using assms by (intro of_nat_word32_inj) auto
  then show "i = j" by simp
qed simp

end
