(* ===== verification/ListHeap.thy ===== *)
theory ListHeap
  imports Prelude
begin

text \<open>
  The doubly linked circular lists of list.c and list.h.  A \<^verbatim>\<open>struct list_head\<close> is a record
  of two addresses and the heap of all of them is a function from addresses, so that every
  pointer write of the code is a point update.  The relation \<open>cdl h q xs\<close> says that the
  list headed at \<open>q\<close> holds the nodes \<open>xs\<close> in order; the locale \<open>kqueue\<close> states the contract
  of the queue operations over such a relation, the lemmas of its clients are proved inside
  it, \<open>kdeque\<close> extends it by the insertion at the front, and both are interpreted on the
  operations of list.c at the end, where the two loops of list.h follow.
\<close>

record list_head =
  lh_next :: addr
  lh_prev :: addr

type_synonym list_heap = "addr \<Rightarrow> list_head"

definition set_next :: "addr \<Rightarrow> addr \<Rightarrow> list_heap \<Rightarrow> list_heap" where
  "set_next p v h = h(p := (h p)\<lparr>lh_next := v\<rparr>)"

definition set_prev :: "addr \<Rightarrow> addr \<Rightarrow> list_heap \<Rightarrow> list_heap" where
  "set_prev p v h = h(p := (h p)\<lparr>lh_prev := v\<rparr>)"

section \<open>The operations of list.c\<close>

definition INIT_LIST_HEAD :: "addr \<Rightarrow> list_heap \<Rightarrow> list_heap" where
  "INIT_LIST_HEAD lst h = (let h = set_next lst lst h in set_prev lst lst h)"

definition list_add_between :: "addr \<Rightarrow> addr \<Rightarrow> addr \<Rightarrow> list_heap \<Rightarrow> list_heap" where
  "list_add_between new prv nxt h =
     (let h = set_prev nxt new h;
          h = set_next new nxt h;
          h = set_prev new prv h
      in set_next prv new h)"

definition list_add :: "addr \<Rightarrow> addr \<Rightarrow> list_heap \<Rightarrow> list_heap" where
  "list_add new head h = list_add_between new head (lh_next (h head)) h"

definition list_add_tail :: "addr \<Rightarrow> addr \<Rightarrow> list_heap \<Rightarrow> list_heap" where
  "list_add_tail new head h = list_add_between new (lh_prev (h head)) head h"

definition list_del_between :: "addr \<Rightarrow> addr \<Rightarrow> list_heap \<Rightarrow> list_heap" where
  "list_del_between prv nxt h = (let h = set_prev nxt prv h in set_next prv nxt h)"

definition list_del :: "addr \<Rightarrow> list_heap \<Rightarrow> list_heap" where
  "list_del entry h =
     (let h = list_del_between (lh_prev (h entry)) (lh_next (h entry)) h;
          h = set_next entry NULL h
      in set_prev entry NULL h)"

definition list_is_last :: "addr \<Rightarrow> addr \<Rightarrow> list_heap \<Rightarrow> bool" where
  "list_is_last lst head h \<longleftrightarrow> lh_next (h lst) = head"

definition list_empty :: "addr \<Rightarrow> list_heap \<Rightarrow> bool" where
  "list_empty head h \<longleftrightarrow> lh_next (h head) = head"

definition list_first :: "addr \<Rightarrow> list_heap \<Rightarrow> addr" where
  "list_first head h = lh_next (h head)"

text \<open>The structure a node at \<open>p\<close> is embedded in, \<open>off\<close> bytes from its start.\<close>

definition list_entry :: "addr \<Rightarrow> nat \<Rightarrow> addr" where
  "list_entry p off = p - of_nat off"

text \<open>
  The nodes the loop \<^verbatim>\<open>list_for_each(pos, head)\<close> visits, in order; \<open>None\<close> when the fuel ends
  before the cursor is back at the head (the macro itself would go on).
\<close>

fun list_for_each_from :: "nat \<Rightarrow> addr \<Rightarrow> addr \<Rightarrow> list_heap \<Rightarrow> addr list option" where
  "list_for_each_from 0 pos head h = (if pos = head then Some [] else None)"
| "list_for_each_from (Suc n) pos head h =
     (if pos = head then Some []
      else map_option ((#) pos) (list_for_each_from n (lh_next (h pos)) head h))"

definition list_for_each :: "nat \<Rightarrow> addr \<Rightarrow> list_heap \<Rightarrow> addr list option" where
  "list_for_each n head h = list_for_each_from n (lh_next (h head)) head h"

text \<open>
  \<^verbatim>\<open>list_for_each_safe\<close> reads the successor of a node before the body runs on it, so the
  body may take the node out of the list; after the body it reads the successor of the next
  node, also when that is already the head.
\<close>

fun list_for_each_safe_from ::
  "nat \<Rightarrow> (addr \<Rightarrow> list_heap \<Rightarrow> list_heap) \<Rightarrow> addr \<Rightarrow> addr \<Rightarrow> addr \<Rightarrow> list_heap \<Rightarrow> list_heap option"
where
  "list_for_each_safe_from 0 body pos n head h = (if pos = head then Some h else None)"
| "list_for_each_safe_from (Suc k) body pos n head h =
     (if pos = head then Some h
      else let h = body pos h; pos = n; n = lh_next (h pos)
        in list_for_each_safe_from k body pos n head h)"

definition list_for_each_safe ::
  "nat \<Rightarrow> (addr \<Rightarrow> list_heap \<Rightarrow> list_heap) \<Rightarrow> addr \<Rightarrow> list_heap \<Rightarrow> list_heap option" where
  "list_for_each_safe k body head h =
     (let pos = lh_next (h head); n = lh_next (h pos)
      in list_for_each_safe_from k body pos n head h)"

section \<open>Segments and circular lists\<close>

text \<open>\<open>linked h a xs b\<close>: from \<open>a\<close> through \<open>xs\<close> to \<open>b\<close> both links agree at every step.\<close>

fun linked :: "list_heap \<Rightarrow> addr \<Rightarrow> addr list \<Rightarrow> addr \<Rightarrow> bool" where
  "linked h a [] b \<longleftrightarrow> lh_next (h a) = b \<and> lh_prev (h b) = a"
| "linked h a (x # xs) b \<longleftrightarrow> lh_next (h a) = x \<and> lh_prev (h x) = a \<and> linked h x xs b"

definition cdl :: "list_heap \<Rightarrow> addr \<Rightarrow> addr list \<Rightarrow> bool" where
  "cdl h q xs \<longleftrightarrow> linked h q xs q \<and> distinct (q # xs)"

lemma next_set_next [simp]: "lh_next (set_next p v h a) = (if a = p then v else lh_next (h a))"
  by (simp add: set_next_def)

lemma prev_set_next [simp]: "lh_prev (set_next p v h a) = lh_prev (h a)"
  by (simp add: set_next_def)

lemma next_set_prev [simp]: "lh_next (set_prev p v h a) = lh_next (h a)"
  by (simp add: set_prev_def)

lemma prev_set_prev [simp]: "lh_prev (set_prev p v h a) = (if a = p then v else lh_prev (h a))"
  by (simp add: set_prev_def)

lemma linked_append:
  "linked h a (xs @ y # ys) b \<longleftrightarrow> linked h a xs y \<and> linked h y ys b"
  by (induction xs arbitrary: a) auto

lemma linked_set_next:
  "p \<notin> set (a # xs) \<Longrightarrow> linked (set_next p v h) a xs b \<longleftrightarrow> linked h a xs b"
  by (induction xs arbitrary: a) auto

lemma linked_set_prev:
  "p \<notin> set (xs @ [b]) \<Longrightarrow> linked (set_prev p v h) a xs b \<longleftrightarrow> linked h a xs b"
  by (induction xs arbitrary: a) auto

text \<open>A segment depends only on the nodes it runs through.\<close>

lemma linked_cong:
  assumes "\<And>n. n \<in> set (a # xs) \<Longrightarrow> lh_next (h' n) = lh_next (h n)"
    and "\<And>n. n \<in> set (xs @ [b]) \<Longrightarrow> lh_prev (h' n) = lh_prev (h n)"
  shows "linked h' a xs b \<longleftrightarrow> linked h a xs b"
  using assms by (induction xs arbitrary: a) auto

lemma linked_last_prev: "linked h a xs b \<Longrightarrow> lh_prev (h b) = last (a # xs)"
  by (induction xs arbitrary: a) auto

lemma linked_next_mem: "linked h a xs b \<Longrightarrow> n \<in> set (a # xs) \<Longrightarrow> lh_next (h n) \<in> set (xs @ [b])"
  by (induction xs arbitrary: a) auto

lemma linked_prev_mem: "linked h a xs b \<Longrightarrow> n \<in> set (xs @ [b]) \<Longrightarrow> lh_prev (h n) \<in> set (a # xs)"
  by (induction xs arbitrary: a) auto

lemma linked_unique:
  "linked h a xs b \<Longrightarrow> linked h a ys b \<Longrightarrow> b \<notin> set xs \<Longrightarrow> b \<notin> set ys \<Longrightarrow> xs = ys"
proof (induction xs arbitrary: a ys)
  case Nil
  then show ?case by (cases ys) auto
next
  case (Cons x xs)
  then show ?case by (cases ys) auto
qed

lemma cdl_distinct: "cdl h q xs \<Longrightarrow> distinct (q # xs)"
  by (simp add: cdl_def)

lemma cdl_unique: "cdl h q xs \<Longrightarrow> cdl h q ys \<Longrightarrow> xs = ys"
  by (auto simp: cdl_def intro: linked_unique)

lemma cdl_cong:
  assumes "cdl h q xs" and "\<And>n. n \<in> set (q # xs) \<Longrightarrow> h' n = h n"
  shows "cdl h' q xs"
  using assms linked_cong [of q xs h' h q] by (auto simp: cdl_def)

lemma cdl_empty: "cdl h q xs \<Longrightarrow> list_empty q h \<longleftrightarrow> xs = []"
  by (cases xs) (auto simp: cdl_def list_empty_def)

lemma cdl_first: "cdl h q (x # xs) \<Longrightarrow> list_first q h = x"
  by (simp add: cdl_def list_first_def)

lemma cdl_tail: "cdl h q xs \<Longrightarrow> lh_prev (h q) = last (q # xs)"
  by (auto simp: cdl_def dest: linked_last_prev)

lemma cdl_is_last:
  assumes "cdl h q (xs @ e # ys)"
  shows "list_is_last e q h \<longleftrightarrow> ys = []"
  using assms by (cases ys) (auto simp: cdl_def list_is_last_def linked_append)

lemma cdl_init: "cdl (INIT_LIST_HEAD q h) q []"
  by (simp add: cdl_def INIT_LIST_HEAD_def)

section \<open>What each operation does to a circular list\<close>

lemma list_add_between_apply:
  "new \<noteq> prv \<Longrightarrow> new \<noteq> nxt \<Longrightarrow>
   lh_next (list_add_between new prv nxt h a) =
     (if a = prv then new else if a = new then nxt else lh_next (h a)) \<and>
   lh_prev (list_add_between new prv nxt h a) =
     (if a = new then prv else if a = nxt then new else lh_prev (h a))"
  by (simp add: list_add_between_def Let_def)

text \<open>Inserting a fresh node between two linked neighbours, with whatever lies around them.\<close>

lemma list_add_between_cdl:
  assumes c: "cdl h q (xs @ ys)" and n: "n \<notin> set (q # xs @ ys)"
    and p: "p = last (q # xs)" and x: "x = hd (ys @ [q])"
  shows "cdl (list_add_between n p x h) q (xs @ n # ys)"
proof -
  let ?h = "list_add_between n p x h"
  have mem: "p \<in> set (q # xs)" "x \<in> set (ys @ [q])"
    unfolding p x by (rule last_in_set, simp) (rule hd_in_set, simp)
  then have ne: "n \<noteq> p" "n \<noteq> x"
    using n by auto
  note app = list_add_between_apply [OF ne]
  have d: "distinct (q # xs @ ys)"
    using c by (rule cdl_distinct)
  have l: "linked ?h q xs n"
  proof (cases xs rule: rev_cases)
    case Nil
    then have "p = q" using p by simp
    then show ?thesis using app [of h q] app [of h n] Nil by simp
  next
    case (snoc zs z)
    with c have "linked h q zs z"
      by (simp add: cdl_def linked_append)
    moreover have "linked ?h q zs z \<longleftrightarrow> linked h q zs z"
      using snoc d n p mem ne by (intro linked_cong) (auto simp: list_add_between_apply)
    ultimately show ?thesis
      using snoc p ne by (auto simp: linked_append list_add_between_apply)
  qed
  have r: "linked ?h n ys q"
  proof (cases ys)
    case Nil
    then show ?thesis using n x mem ne by (auto simp: list_add_between_apply)
  next
    case (Cons z zs)
    with c have "linked h z zs q"
      by (simp add: cdl_def linked_append)
    moreover have "linked ?h z zs q \<longleftrightarrow> linked h z zs q"
      using Cons d n x mem ne by (intro linked_cong) (auto simp: list_add_between_apply)
    ultimately show ?thesis
      using Cons n x mem d ne by (auto simp: list_add_between_apply)
  qed
  show ?thesis
    using l r d n by (auto simp: cdl_def linked_append)
qed

lemma list_add_cdl:
  assumes "cdl h q xs" and "n \<notin> set (q # xs)"
  shows "cdl (list_add n q h) q (n # xs)"
proof -
  have "lh_next (h q) = hd (xs @ [q])"
    using assms(1) by (cases xs) (auto simp: cdl_def)
  then show ?thesis
    using list_add_between_cdl [of h q "[]" xs n q] assms by (simp add: list_add_def)
qed

lemma list_add_tail_cdl:
  assumes "cdl h q xs" and "n \<notin> set (q # xs)"
  shows "cdl (list_add_tail n q h) q (xs @ [n])"
  using list_add_between_cdl [of h q xs "[]" n _ q] assms
  by (simp add: list_add_tail_def cdl_tail)

lemma list_del_between_apply:
  "lh_next (list_del_between prv nxt h a) = (if a = prv then nxt else lh_next (h a)) \<and>
   lh_prev (list_del_between prv nxt h a) = (if a = nxt then prv else lh_prev (h a))"
  by (simp add: list_del_between_def)

lemma list_del_apply:
  "lh_next (list_del e h a) =
     (if a = e then NULL else if a = lh_prev (h e) then lh_next (h e) else lh_next (h a)) \<and>
   lh_prev (list_del e h a) =
     (if a = e then NULL else if a = lh_next (h e) then lh_prev (h e) else lh_prev (h a))"
  by (simp add: list_del_def list_del_between_apply Let_def)

lemma cdl_neighbours:
  assumes "cdl h q (xs @ e # ys)"
  shows "lh_prev (h e) = last (q # xs)" and "lh_next (h e) = hd (ys @ [q])"
proof -
  from assms have "linked h q xs e" and l: "linked h e ys q"
    by (simp_all add: cdl_def linked_append)
  then show "lh_prev (h e) = last (q # xs)"
    by (auto dest: linked_last_prev)
  show "lh_next (h e) = hd (ys @ [q])"
    using l by (cases ys) auto
qed

lemma list_del_cdl:
  assumes c: "cdl h q (xs @ e # ys)"
  shows "cdl (list_del e h) q (xs @ ys)"
proof -
  let ?h = "list_del e h"
  note nb = cdl_neighbours [OF c]
  have d: "distinct (q # xs @ e # ys)"
    using c by (rule cdl_distinct)
  from c have l: "linked h q xs e" and r: "linked h e ys q"
    by (simp_all add: cdl_def linked_append)
  have "linked ?h q (xs @ ys) q"
  proof (cases xs rule: rev_cases)
    case Nil
    show ?thesis
    proof (cases ys)
      case Nil
      with \<open>xs = []\<close> d show ?thesis by (simp add: list_del_apply nb)
    next
      case (Cons z zs)
      have "linked ?h z zs q \<longleftrightarrow> linked h z zs q"
        using Cons \<open>xs = []\<close> d by (intro linked_cong) (auto simp: list_del_apply nb)
      with Cons \<open>xs = []\<close> d r show ?thesis by (auto simp: list_del_apply nb)
    qed
  next
    case (snoc us u)
    have lu: "linked ?h q us u"
    proof -
      have "linked ?h q us u \<longleftrightarrow> linked h q us u"
        using snoc d by (intro linked_cong) (auto simp: list_del_apply nb hd_append split: if_splits)
      with snoc l show ?thesis by (simp add: linked_append)
    qed
    have "linked ?h u ys q"
    proof (cases ys)
      case Nil
      with snoc d show ?thesis by (auto simp: list_del_apply nb)
    next
      case (Cons z zs)
      have "linked ?h z zs q \<longleftrightarrow> linked h z zs q"
        using Cons snoc d by (intro linked_cong) (auto simp: list_del_apply nb)
      with Cons snoc d r show ?thesis by (auto simp: list_del_apply nb)
    qed
    with lu snoc show ?thesis by (simp add: linked_append)
  qed
  with d show ?thesis by (auto simp: cdl_def)
qed

text \<open>A deleted node has both links cleared.\<close>

lemma list_del_clears: "list_del e h e = \<lparr>lh_next = NULL, lh_prev = NULL\<rparr>"
  by (rule list_head.equality) (simp_all add: list_del_apply)

section \<open>What the operations leave alone\<close>

lemma list_add_between_frame:
  "a \<notin> {new, prv, nxt} \<Longrightarrow> list_add_between new prv nxt h a = h a"
  by (simp add: list_add_between_def set_next_def set_prev_def Let_def)

lemma list_add_tail_frame:
  assumes "cdl h q xs" and "a \<notin> set (n # q # xs)"
  shows "list_add_tail n q h a = h a"
proof -
  have "lh_prev (h q) \<in> set (q # xs)"
    using cdl_tail [OF assms(1)] last_in_set [of "q # xs"] by simp
  with assms(2) show ?thesis
    unfolding list_add_tail_def by (intro list_add_between_frame) auto
qed

lemma list_del_frame:
  assumes "cdl h q (xs @ e # ys)" and "a \<notin> set (q # xs @ e # ys)"
  shows "list_del e h a = h a"
proof -
  have "last (q # xs) \<in> set (q # xs)" and "hd (ys @ [q]) \<in> set (ys @ [q])"
    by (rule last_in_set, simp) (rule hd_in_set, simp)
  then have "a \<noteq> lh_prev (h e)" and "a \<noteq> lh_next (h e)"
    using assms(2) by (auto simp: cdl_neighbours [OF assms(1)] simp del: last.simps)
  then show ?thesis
    using assms(2)
    by (simp add: list_del_def list_del_between_def set_next_def set_prev_def Let_def)
qed

section \<open>The contract of a family of queues\<close>

text \<open>
  What the kernel relies on when it moves task structures between \<^verbatim>\<open>freequeue\<close>,
  \<^verbatim>\<open>readyqueue\<close> and the blocked queues: every queue is a first-in first-out sequence, and
  an operation on one queue does not touch another.  The laws are over any representation
  relation \<open>repr\<close>; \<open>holds\<close> lifts it to a whole family of queues, an abstract map from queue
  heads to their contents.
\<close>

definition family_nodes :: "(addr \<rightharpoonup> addr list) \<Rightarrow> addr set" where
  "family_nodes A = (\<Union>q \<in> dom A. set (q # the (A q)))"

definition family :: "('h \<Rightarrow> addr \<Rightarrow> addr list \<Rightarrow> bool) \<Rightarrow> 'h \<Rightarrow> (addr \<rightharpoonup> addr list) \<Rightarrow> bool" where
  "family repr h A \<longleftrightarrow>
     (\<forall>q xs. A q = Some xs \<longrightarrow> repr h q xs) \<and>
     (\<forall>q q' xs ys. A q = Some xs \<longrightarrow> A q' = Some ys \<longrightarrow> q \<noteq> q' \<longrightarrow>
        set (q # xs) \<inter> set (q' # ys) = {})"

lemma family_nodesI [intro]: "A q = Some xs \<Longrightarrow> n \<in> set (q # xs) \<Longrightarrow> n \<in> family_nodes A"
  unfolding family_nodes_def by (intro UN_I [of q]) auto

lemma family_nodes_mem:
  "n \<in> family_nodes A \<longleftrightarrow> (\<exists>q xs. A q = Some xs \<and> n \<in> set (q # xs))"
  by (force simp: family_nodes_def dom_def)

lemma family_repr: "family repr h A \<Longrightarrow> A q = Some xs \<Longrightarrow> repr h q xs"
  by (simp add: family_def)

lemma family_disjoint:
  "family repr h A \<Longrightarrow> A q = Some xs \<Longrightarrow> A q' = Some ys \<Longrightarrow> q \<noteq> q' \<Longrightarrow>
   set (q # xs) \<inter> set (q' # ys) = {}"
  unfolding family_def by blast

locale kqueue =
  fixes repr :: "'h \<Rightarrow> addr \<Rightarrow> addr list \<Rightarrow> bool"
    and init :: "addr \<Rightarrow> 'h \<Rightarrow> 'h"
    and enq :: "addr \<Rightarrow> addr \<Rightarrow> 'h \<Rightarrow> 'h"
    and del :: "addr \<Rightarrow> 'h \<Rightarrow> 'h"
    and isempty :: "addr \<Rightarrow> 'h \<Rightarrow> bool"
    and front :: "addr \<Rightarrow> 'h \<Rightarrow> addr"
  assumes repr_distinct: "repr h q xs \<Longrightarrow> distinct (q # xs)"
    and repr_unique: "repr h q xs \<Longrightarrow> repr h q ys \<Longrightarrow> xs = ys"
    and repr_init: "repr (init q h) q []"
    and repr_isempty: "repr h q xs \<Longrightarrow> isempty q h \<longleftrightarrow> xs = []"
    and repr_front: "repr h q (x # xs) \<Longrightarrow> front q h = x"
    and repr_enq: "repr h q xs \<Longrightarrow> n \<notin> set (q # xs) \<Longrightarrow> repr (enq n q h) q (xs @ [n])"
    and repr_del: "repr h q (xs @ e # ys) \<Longrightarrow> repr (del e h) q (xs @ ys)"
    and init_other: "repr h p zs \<Longrightarrow> q \<notin> set (p # zs) \<Longrightarrow> repr (init q h) p zs"
    and enq_other:
      "repr h q xs \<Longrightarrow> repr h p zs \<Longrightarrow> set (p # zs) \<inter> set (n # q # xs) = {} \<Longrightarrow>
       repr (enq n q h) p zs"
    and del_other:
      "repr h q (xs @ e # ys) \<Longrightarrow> repr h p zs \<Longrightarrow>
       set (p # zs) \<inter> set (q # xs @ e # ys) = {} \<Longrightarrow> repr (del e h) p zs"
begin

text \<open>Taking the first node out and putting it back at the tail rotates the queue.\<close>

lemma rotate_front:
  assumes "repr h q (x # xs)"
  shows "repr (enq (front q h) q (del (front q h) h)) q (xs @ [x])"
proof -
  have "repr (del x h) q xs"
    using repr_del [of h q "[]" x xs] assms by simp
  then show ?thesis
    using repr_distinct [OF assms] by (auto simp: repr_front [OF assms] intro: repr_enq)
qed

lemma family_init:
  assumes "family repr h A" and "q \<notin> family_nodes A"
  shows "family repr (init q h) (A(q \<mapsto> []))"
proof -
  have other: "q \<notin> set (p # zs)" if "A p = Some zs" for p zs
    using that assms(2) by blast
  then have "A q = None"
    by (cases "A q") auto
  then show ?thesis
    using assms(1) other unfolding family_def
    by (auto simp: repr_init intro!: init_other)
qed

lemma family_enq:
  assumes fam: "family repr h A" and q: "A q = Some xs" and n: "n \<notin> family_nodes A"
  shows "family repr (enq n q h) (A(q \<mapsto> xs @ [n]))"
proof -
  have rq: "repr h q xs" and nq: "n \<notin> set (q # xs)"
    using family_repr [OF fam q] n q by blast+
  have other: "repr (enq n q h) p zs" if "A p = Some zs" "p \<noteq> q" for p zs
  proof (rule enq_other [OF rq family_repr [OF fam that(1)]])
    show "set (p # zs) \<inter> set (n # q # xs) = {}"
      using family_disjoint [OF fam that(1) q that(2)] n that(1) by auto
  qed
  have disj: "set (p # zs) \<inter> set (q # xs @ [n]) = {}" if "A p = Some zs" "p \<noteq> q" for p zs
    using family_disjoint [OF fam that(1) q that(2)] n that(1) by auto
  show ?thesis
    unfolding family_def
  proof (intro conjI allI impI)
    fix p zs
    assume "(A(q \<mapsto> xs @ [n])) p = Some zs"
    then show "repr (enq n q h) p zs"
      by (auto simp: repr_enq [OF rq nq] intro: other split: if_splits)
  next
    fix p p' ys zs
    assume "(A(q \<mapsto> xs @ [n])) p = Some ys" "(A(q \<mapsto> xs @ [n])) p' = Some zs" "p \<noteq> p'"
    then show "set (p # ys) \<inter> set (p' # zs) = {}"
      using disj [of p ys] disj [of p' zs] family_disjoint [OF fam, of p ys p' zs]
      by (cases "p = q"; cases "p' = q") auto
  qed
qed

lemma family_del:
  assumes fam: "family repr h A" and q: "A q = Some (xs @ e # ys)"
  shows "family repr (del e h) (A(q \<mapsto> xs @ ys))"
proof -
  note rq = family_repr [OF fam q]
  have disj: "set (p # zs) \<inter> set (q # xs @ e # ys) = {}" if "A p = Some zs" "p \<noteq> q" for p zs
    by (rule family_disjoint [OF fam that(1) q that(2)])
  show ?thesis
    unfolding family_def
  proof (intro conjI allI impI)
    fix p zs
    assume "(A(q \<mapsto> xs @ ys)) p = Some zs"
    then show "repr (del e h) p zs"
      using repr_del [OF rq] del_other [OF rq family_repr [OF fam, of p zs] disj]
      by (cases "p = q") auto
  next
    fix p p' us vs
    assume "(A(q \<mapsto> xs @ ys)) p = Some us" "(A(q \<mapsto> xs @ ys)) p' = Some vs" "p \<noteq> p'"
    then show "set (p # us) \<inter> set (p' # vs) = {}"
      using disj [of p us] disj [of p' vs] family_disjoint [OF fam, of p us p' vs]
      by (cases "p = q"; cases "p' = q") auto
  qed
qed

text \<open>Where the queue is not empty, dequeuing removes its oldest node and no other.\<close>

lemma family_deq:
  assumes "family repr h A" and "A q = Some (x # xs)"
  shows "front q h = x" and "family repr (del (front q h) h) (A(q \<mapsto> xs))"
proof -
  show *: "front q h = x"
    by (rule repr_front [OF family_repr [OF assms]])
  show "family repr (del (front q h) h) (A(q \<mapsto> xs))"
    using family_del [of h A q "[]" x xs] assms by (simp add: *)
qed

lemma family_isempty:
  "family repr h A \<Longrightarrow> A q = Some xs \<Longrightarrow> isempty q h \<longleftrightarrow> xs = []"
  using repr_isempty [of h q xs] family_repr [of repr h A q xs] by simp

text \<open>Enqueuing a list of fresh nodes one after the other appends the list.\<close>

lemma family_enq_all:
  assumes "family repr h A" and "A q = Some xs" and "distinct ns"
    and "set ns \<inter> family_nodes A = {}"
  shows "family repr (fold (\<lambda>n. enq n q) ns h) (A(q \<mapsto> xs @ ns))"
  using assms
proof (induction ns arbitrary: h A xs)
  case Nil
  then show ?case by (simp add: fun_upd_idem)
next
  case (Cons n ns)
  have fam: "family repr (enq n q h) (A(q \<mapsto> xs @ [n]))"
    using Cons.prems by (intro family_enq) auto
  have disj: "set ns \<inter> family_nodes (A(q \<mapsto> xs @ [n])) = {}"
    using Cons.prems(2,3,4) by (fastforce simp: family_nodes_mem split: if_splits)
  have "family repr (fold (\<lambda>n. enq n q) ns (enq n q h))
      ((A(q \<mapsto> xs @ [n]))(q \<mapsto> (xs @ [n]) @ ns))"
    by (rule Cons.IH [OF fam _ _ disj]) (use Cons.prems(3) in simp_all)
  then show ?case
    by (simp only: fold_simps fun_upd_upd append_assoc append_Cons append_Nil)
qed

end

text \<open>A family whose queues can also be pushed at the front, as a stack is.\<close>

locale kdeque = kqueue +
  fixes push :: "addr \<Rightarrow> addr \<Rightarrow> 'a \<Rightarrow> 'a"
  assumes repr_push: "repr h q xs \<Longrightarrow> n \<notin> set (q # xs) \<Longrightarrow> repr (push n q h) q (n # xs)"
    and push_other:
      "repr h q xs \<Longrightarrow> repr h p zs \<Longrightarrow> set (p # zs) \<inter> set (n # q # xs) = {} \<Longrightarrow>
       repr (push n q h) p zs"
begin

text \<open>Pushing a node and taking the front one out again gives the family back.\<close>

lemma family_push:
  assumes fam: "family repr h A" and q: "A q = Some xs" and n: "n \<notin> family_nodes A"
  shows "family repr (push n q h) (A(q \<mapsto> n # xs))"
proof -
  have rq: "repr h q xs" and nq: "n \<notin> set (q # xs)"
    using family_repr [OF fam q] n q by blast+
  have disj: "set (p # zs) \<inter> set (n # q # xs) = {}" if "A p = Some zs" "p \<noteq> q" for p zs
    using family_disjoint [OF fam that(1) q that(2)] n that(1) by auto
  show ?thesis
    unfolding family_def
  proof (intro conjI allI impI)
    fix p zs
    assume "(A(q \<mapsto> n # xs)) p = Some zs"
    then show "repr (push n q h) p zs"
      using push_other [OF rq family_repr [OF fam, of p zs] disj] repr_push [OF rq nq]
      by (cases "p = q") auto
  next
    fix p p' ys zs
    assume "(A(q \<mapsto> n # xs)) p = Some ys" "(A(q \<mapsto> n # xs)) p' = Some zs" "p \<noteq> p'"
    then show "set (p # ys) \<inter> set (p' # zs) = {}"
      using disj [of p ys] disj [of p' zs] family_disjoint [OF fam, of p ys p' zs]
      by (cases "p = q"; cases "p' = q") auto
  qed
qed

lemma push_pop:
  assumes "family repr h A" and "A q = Some xs" and "n \<notin> family_nodes A"
  shows "front q (push n q h) = n" and "family repr (del n (push n q h)) A"
proof -
  note fam = family_push [OF assms]
  show "front q (push n q h) = n"
    by (rule family_deq(1) [OF fam]) simp
  show "family repr (del n (push n q h)) A"
    using family_del [OF fam, of q "[]" n xs] assms(2) by (simp add: fun_upd_idem)
qed

end

interpretation lq: kqueue cdl INIT_LIST_HEAD list_add_tail list_del list_empty list_first
proof unfold_locales
  fix h :: list_heap and q p n e :: addr and x xs ys zs
  show "distinct (q # xs)" if "cdl h q xs"
    using that by (rule cdl_distinct)
  show "xs = ys" if "cdl h q xs" "cdl h q ys"
    using that by (rule cdl_unique)
  show "cdl (INIT_LIST_HEAD q h) q []"
    by (rule cdl_init)
  show "list_empty q h \<longleftrightarrow> xs = []" if "cdl h q xs"
    using that by (rule cdl_empty)
  show "list_first q h = x" if "cdl h q (x # xs)"
    using that by (rule cdl_first)
  show "cdl (list_add_tail n q h) q (xs @ [n])" if "cdl h q xs" "n \<notin> set (q # xs)"
    using that by (rule list_add_tail_cdl)
  show "cdl (list_del e h) q (xs @ ys)" if "cdl h q (xs @ e # ys)"
    using that by (rule list_del_cdl)
  show "cdl (INIT_LIST_HEAD q h) p zs" if "cdl h p zs" "q \<notin> set (p # zs)"
    using that by (auto intro!: cdl_cong [of h p zs]
        simp: INIT_LIST_HEAD_def set_next_def set_prev_def)
  show "cdl (list_add_tail n q h) p zs"
    if "cdl h q xs" "cdl h p zs" "set (p # zs) \<inter> set (n # q # xs) = {}"
    by (rule cdl_cong [OF that(2)], rule list_add_tail_frame [OF that(1)]) (use that(3) in blast)
  show "cdl (list_del e h) p zs"
    if "cdl h q (xs @ e # ys)" "cdl h p zs" "set (p # zs) \<inter> set (q # xs @ e # ys) = {}"
    by (rule cdl_cong [OF that(2)], rule list_del_frame [OF that(1)]) (use that(3) in blast)
qed

lemma list_add_frame:
  assumes "cdl h q xs" and "a \<notin> set (n # q # xs)"
  shows "list_add n q h a = h a"
proof -
  have "lh_next (h q) \<in> set (q # xs)"
    using assms(1) by (cases xs) (auto simp: cdl_def)
  with assms(2) show ?thesis
    unfolding list_add_def by (intro list_add_between_frame) auto
qed

interpretation ld: kdeque cdl INIT_LIST_HEAD list_add_tail list_del list_empty list_first list_add
proof unfold_locales
  fix h :: list_heap and q p n :: addr and xs zs
  show "cdl (list_add n q h) q (n # xs)" if "cdl h q xs" "n \<notin> set (q # xs)"
    using that by (rule list_add_cdl)
  show "cdl (list_add n q h) p zs"
    if "cdl h q xs" "cdl h p zs" "set (p # zs) \<inter> set (n # q # xs) = {}"
    by (rule cdl_cong [OF that(2)], rule list_add_frame [OF that(1)]) (use that(3) in blast)
qed

section \<open>The two loops\<close>

lemma list_for_each_from_segment:
  "linked h a xs q \<Longrightarrow> q \<notin> set xs \<Longrightarrow> length xs \<le> n \<Longrightarrow>
   list_for_each_from n (lh_next (h a)) q h = Some xs"
proof (induction xs arbitrary: a n)
  case Nil
  then show ?case by (cases n) auto
next
  case (Cons x xs)
  then obtain k where "n = Suc k" by (cases n) auto
  with Cons show ?case by auto
qed

lemma list_for_each_cdl:
  "cdl h q xs \<Longrightarrow> length xs \<le> n \<Longrightarrow> list_for_each n q h = Some xs"
  by (auto simp: list_for_each_def cdl_def intro: list_for_each_from_segment)

lemma cdl_next:
  "cdl h q (x # xs) \<Longrightarrow> lh_next (h q) = x" "cdl h q (x # xs) \<Longrightarrow> lh_next (h x) = hd (xs @ [q])"
  by (cases xs; simp add: cdl_def)+

text \<open>
  A body that moves the node it is given from the list it runs over to another one: the safe
  loop moves them all, in order.
\<close>

lemma list_for_each_safe_moves:
  assumes "family cdl h A" and "A q = Some xs" and "A p = Some ys" and "q \<noteq> p" and "length xs \<le> k"
  shows "\<exists>h'. list_for_each_safe_from k (\<lambda>e h. list_add_tail e p (list_del e h))
      (lh_next (h q)) (lh_next (h (lh_next (h q)))) q h = Some h' \<and>
    family cdl h' (A(q \<mapsto> [], p \<mapsto> ys @ xs))"
  using assms
proof (induction xs arbitrary: h A ys k)
  case Nil
  then have "lh_next (h q) = q"
    using family_repr [OF Nil(1,2)] by (simp add: cdl_def)
  with Nil show ?case
    by (cases k) (auto simp: fun_upd_idem)
next
  case (Cons x xs)
  obtain j where k: "k = Suc j" "length xs \<le> j"
    using Cons.prems(5) by (cases k) auto
  have c: "cdl h q (x # xs)"
    by (rule family_repr [OF Cons.prems(1,2)])
  let ?h = "list_add_tail x p (list_del x h)"
  let ?A = "A(q \<mapsto> xs)"
  have "family cdl (list_del x h) ?A"
    using lq.family_del [of h A q "[]" x xs] Cons.prems(1,2) by simp
  moreover have "x \<notin> family_nodes ?A"
  proof
    assume "x \<in> family_nodes ?A"
    then obtain r zs where r: "?A r = Some zs" "x \<in> set (r # zs)"
      by (auto simp: family_nodes_mem)
    show False
    proof (cases "r = q")
      case True
      with r cdl_distinct [OF c] show ?thesis by auto
    next
      case False
      with r family_disjoint [OF Cons.prems(1), of r zs q "x # xs"] Cons.prems(2) show ?thesis
        by auto
    qed
  qed
  ultimately have fam: "family cdl ?h (?A(p \<mapsto> ys @ [x]))"
    using Cons.prems(3,4) by (intro lq.family_enq) auto
  have cq: "cdl ?h q xs"
    using family_repr [OF fam, of q xs] Cons.prems(4) by simp
  have nx: "hd (xs @ [q]) = lh_next (?h q)"
    using cq by (cases xs) (auto simp: cdl_def)
  have "q \<noteq> x"
    using cdl_distinct [OF c] by auto
  then have step: "list_for_each_safe_from k (\<lambda>e h. list_add_tail e p (list_del e h))
      (lh_next (h q)) (lh_next (h (lh_next (h q)))) q h =
    list_for_each_safe_from j (\<lambda>e h. list_add_tail e p (list_del e h))
      (lh_next (?h q)) (lh_next (?h (lh_next (?h q)))) q ?h"
    using c by (simp add: k(1) cdl_next nx Let_def)
  have upd: "(?A(p \<mapsto> ys @ [x]))(q \<mapsto> [], p \<mapsto> (ys @ [x]) @ xs) = A(q \<mapsto> [], p \<mapsto> ys @ x # xs)"
    using Cons.prems(4) by auto
  have "\<exists>h'. list_for_each_safe_from j (\<lambda>e h. list_add_tail e p (list_del e h))
      (lh_next (?h q)) (lh_next (?h (lh_next (?h q)))) q ?h = Some h' \<and>
    family cdl h' ((?A(p \<mapsto> ys @ [x]))(q \<mapsto> [], p \<mapsto> (ys @ [x]) @ xs))"
    by (rule Cons.IH [OF fam]) (use Cons.prems(4) k(2) in auto)
  then show ?case
    unfolding upd step .
qed

lemma list_for_each_safe_moves_all:
  assumes "family cdl h A" and "A q = Some xs" and "A p = Some ys" and "q \<noteq> p" and "length xs \<le> k"
  shows "\<exists>h'. list_for_each_safe k (\<lambda>e h. list_add_tail e p (list_del e h)) q h = Some h' \<and>
    family cdl h' (A(q \<mapsto> [], p \<mapsto> ys @ xs))"
  using list_for_each_safe_moves [OF assms] by (simp add: list_for_each_safe_def Let_def)

end
