(* ===== verification/HwTypes.thy ===== *)
theory HwTypes
  imports Prelude
begin

text \<open>
  The data types of include/types.h: the macros that cut an address into the pieces of a
  descriptor, the descriptor and gate records, the task state segment, and the page table
  entry, whose bit fields are read and written on the 32 bit word that the union shares.
\<close>

section \<open>Pieces of an address\<close>

definition highWord :: "dword \<Rightarrow> hword" where
  "highWord address = ucast (drop_bit 16 address AND 0xFFFF)"

definition lowWord :: "dword \<Rightarrow> hword" where
  "lowWord address = ucast (address AND 0xFFFF)"

definition midByte :: "dword \<Rightarrow> byte" where
  "midByte address = ucast (drop_bit 16 address AND 0xFF)"

definition highByte :: "dword \<Rightarrow> byte" where
  "highByte address = ucast (drop_bit (16 + 8) address AND 0xFF)"

definition high4Bits :: "dword \<Rightarrow> byte" where
  "high4Bits limit = ucast (drop_bit 16 limit AND 0x0F)"

section \<open>Descriptors, gates, segment state\<close>

record Descriptor =
  d_limit :: hword
  d_lowBase :: hword
  d_midBase :: byte
  d_flags1 :: byte
  d_flags2 :: byte
  d_highBase :: byte

record Gate =
  g_lowOffset :: hword
  g_segmentSelector :: hword
  g_flags :: hword
  g_highOffset :: hword

record TSS =
  tss_PreviousTaskLink :: hword
  tss_esp0 :: dword
  tss_ss0 :: hword
  tss_esp1 :: dword
  tss_ss1 :: hword
  tss_esp2 :: dword
  tss_ss2 :: hword
  tss_cr3 :: dword
  tss_eip :: dword
  tss_eFlags :: dword
  tss_eax :: dword
  tss_ecx :: dword
  tss_edx :: dword
  tss_ebx :: dword
  tss_esp :: dword
  tss_ebp :: dword
  tss_esi :: dword
  tss_edi :: dword
  tss_es :: hword
  tss_cs :: hword
  tss_ss :: hword
  tss_ds :: hword
  tss_fs :: hword
  tss_gs :: hword
  tss_LDTSegmentSelector :: hword
  tss_debugTrap :: hword
  tss_IOMapBaseAddress :: hword

record Register =
  r_limit :: hword
  r_base :: dword

definition INITIAL_EFLAGS :: dword where
  "INITIAL_EFLAGS = 0x00000200"

text \<open>The address a gate enters and the base a descriptor describes, as the processor reads them.\<close>

definition gate_offset :: "Gate \<Rightarrow> dword" where
  "gate_offset g = push_bit 16 (ucast (g_highOffset g)) OR ucast (g_lowOffset g)"

definition descriptor_base :: "Descriptor \<Rightarrow> dword" where
  "descriptor_base d = push_bit 24 (ucast (d_highBase d)) OR push_bit 16 (ucast (d_midBase d))
     OR ucast (d_lowBase d)"

lemma mask_numerals:
  "(0xFFFF :: 32 word) = mask 16" "(0xFF :: 32 word) = mask 8" "(0x0F :: 32 word) = mask 4"
  "(0xFFF :: 32 word) = mask 12" "(0x3FF :: 32 word) = mask 10"
  by (simp_all add: mask_eq_exp_minus_1)

lemma words_reassemble:
  "push_bit 16 (ucast (highWord a) :: dword) OR ucast (lowWord a) = a"
  unfolding highWord_def lowWord_def mask_numerals
  by (rule bit_word_eqI) (auto simp: bit_simps)

lemma bytes_reassemble:
  "push_bit 24 (ucast (highByte a) :: dword) OR push_bit 16 (ucast (midByte a)) OR ucast (lowWord a) = a"
proof (rule bit_word_eqI)
  fix n :: nat
  assume "n < LENGTH(32)"
  then show "bit (push_bit 24 (ucast (highByte a) :: dword) OR push_bit 16 (ucast (midByte a))
      OR ucast (lowWord a)) n = bit a n"
    unfolding highByte_def midByte_def lowWord_def mask_numerals
    by (cases "n < 16"; cases "n < 24") (auto simp: bit_simps)
qed

section \<open>Bit fields\<close>

text \<open>A field of \<open>w\<close> bits starting at bit \<open>off\<close>: gcc lays the fields out from bit 0 up.\<close>

definition bits_get :: "nat \<Rightarrow> nat \<Rightarrow> dword \<Rightarrow> dword" where
  "bits_get off w e = drop_bit off e AND mask w"

definition bits_set :: "nat \<Rightarrow> nat \<Rightarrow> dword \<Rightarrow> dword \<Rightarrow> dword" where
  "bits_set off w v e = (e AND NOT (push_bit off (mask w))) OR push_bit off (v AND mask w)"

lemma bits_get_set:
  "off + w \<le> 32 \<Longrightarrow> bits_get off w (bits_set off w v e) = v AND mask w"
  unfolding bits_get_def bits_set_def
  by (rule bit_word_eqI) (auto simp: bit_simps)

lemma bits_get_set_other:
  "off' + w' \<le> off \<or> off + w \<le> off' \<Longrightarrow> bits_get off' w' (bits_set off w v e) = bits_get off' w' e"
  unfolding bits_get_def bits_set_def
  by (rule bit_word_eqI) (auto simp: bit_simps dest: bit_imp_le_length)

lemma bits_get_0 [simp]: "bits_get off w 0 = 0"
  by (simp add: bits_get_def)

section \<open>Page table entries\<close>

type_synonym page_table_entry = dword

definition pte_present :: "page_table_entry \<Rightarrow> dword" where
  "pte_present e = bits_get 0 1 e"

definition pte_rw :: "page_table_entry \<Rightarrow> dword" where
  "pte_rw e = bits_get 1 1 e"

definition pte_user :: "page_table_entry \<Rightarrow> dword" where
  "pte_user e = bits_get 2 1 e"

definition pte_pbase_addr :: "page_table_entry \<Rightarrow> dword" where
  "pte_pbase_addr e = bits_get 12 20 e"

definition set_present :: "dword \<Rightarrow> page_table_entry \<Rightarrow> page_table_entry" where
  "set_present v e = bits_set 0 1 v e"

definition set_rw :: "dword \<Rightarrow> page_table_entry \<Rightarrow> page_table_entry" where
  "set_rw v e = bits_set 1 1 v e"

definition set_user :: "dword \<Rightarrow> page_table_entry \<Rightarrow> page_table_entry" where
  "set_user v e = bits_set 2 1 v e"

definition set_pbase_addr :: "dword \<Rightarrow> page_table_entry \<Rightarrow> page_table_entry" where
  "set_pbase_addr v e = bits_set 12 20 v e"

lemmas pte_field_defs =
  pte_present_def pte_rw_def pte_user_def pte_pbase_addr_def
  set_present_def set_rw_def set_user_def set_pbase_addr_def

lemma pte_get_set [simp]:
  "pte_present (set_present v e) = v AND 1"
  "pte_rw (set_rw v e) = v AND 1"
  "pte_user (set_user v e) = v AND 1"
  "pte_pbase_addr (set_pbase_addr v e) = v AND mask 20"
  by (simp_all add: pte_field_defs bits_get_set mask_1)

lemma pte_get_set_other [simp]:
  "pte_present (set_rw v e) = pte_present e"
  "pte_present (set_user v e) = pte_present e"
  "pte_present (set_pbase_addr v e) = pte_present e"
  "pte_rw (set_present v e) = pte_rw e"
  "pte_rw (set_user v e) = pte_rw e"
  "pte_rw (set_pbase_addr v e) = pte_rw e"
  "pte_user (set_present v e) = pte_user e"
  "pte_user (set_rw v e) = pte_user e"
  "pte_user (set_pbase_addr v e) = pte_user e"
  "pte_pbase_addr (set_present v e) = pte_pbase_addr e"
  "pte_pbase_addr (set_rw v e) = pte_pbase_addr e"
  "pte_pbase_addr (set_user v e) = pte_pbase_addr e"
  by (simp_all add: pte_field_defs bits_get_set_other)

lemma pte_zero [simp]:
  "pte_present 0 = 0" "pte_rw 0 = 0" "pte_user 0 = 0" "pte_pbase_addr 0 = 0"
  by (simp_all add: pte_field_defs)

text \<open>A frame number of at most 20 bits is stored as it is.\<close>

lemma pbase_small: "unat v < 2 ^ 20 \<Longrightarrow> v AND mask 20 = (v :: dword)"
  by (rule unsigned_word_eqI [where ?'a = nat])
    (simp add: unsigned_take_bit_eq take_bit_nat_eq_self flip: take_bit_eq_mask)

end
