(* ===== verification/Utils.thy ===== *)
theory Utils
  imports HwTypes "HOL-Library.Monad_Syntax"
begin

text \<open>
  utils.c: the three copy routines and \<^verbatim>\<open>memset\<close> over byte memory seen through the address
  translation of the running address space, the user pointer check \<^verbatim>\<open>access_ok\<close>, and the
  tick counter with its 64 by 32 bit division.  An access to an unmapped page is a page
  fault, the result \<open>None\<close>.
\<close>

section \<open>Memory distribution (mm\_address.h)\<close>

abbreviation (input) TOTAL_PAGES :: "'a::numeral" where "TOTAL_PAGES \<equiv> 1024"
abbreviation (input) NUM_PAG_KERNEL :: "'a::numeral" where "NUM_PAG_KERNEL \<equiv> 256"
abbreviation (input) NUM_PAG_CODE :: "'a::numeral" where "NUM_PAG_CODE \<equiv> 8"
abbreviation (input) NUM_PAG_DATA :: "'a::numeral" where "NUM_PAG_DATA \<equiv> 20"
abbreviation (input) PAGE_SIZE :: "'a::numeral" where "PAGE_SIZE \<equiv> 0x1000"
abbreviation (input) L_USER_START :: dword where "L_USER_START \<equiv> 0x100000"
abbreviation (input) USER_FIRST_PAGE :: dword where "USER_FIRST_PAGE \<equiv> drop_bit 12 L_USER_START"
abbreviation (input) PAG_LOG_INIT_CODE :: nat where "PAG_LOG_INIT_CODE \<equiv> 256"
abbreviation (input) PAG_LOG_INIT_DATA :: nat where "PAG_LOG_INIT_DATA \<equiv> PAG_LOG_INIT_CODE + NUM_PAG_CODE"

lemma user_first_page: "USER_FIRST_PAGE = 256"
  by (simp add: drop_bit_eq_div)

lemma pag_log_init_code: "PAG_LOG_INIT_CODE = unat USER_FIRST_PAGE"
  by (simp add: user_first_page)

section \<open>Byte memory behind an address translation\<close>

type_synonym memory = "addr \<Rightarrow> byte"
type_synonym translation = "addr \<Rightarrow> addr option"

definition load_byte :: "translation \<Rightarrow> memory \<Rightarrow> addr \<Rightarrow> byte option" where
  "load_byte tr m a = do { pa \<leftarrow> tr a; Some (m pa) }"

definition store_byte :: "translation \<Rightarrow> addr \<Rightarrow> byte \<Rightarrow> memory \<Rightarrow> memory option" where
  "store_byte tr a v m = do { pa \<leftarrow> tr a; Some (m(pa := v)) }"

definition dword_of_bytes :: "byte \<Rightarrow> byte \<Rightarrow> byte \<Rightarrow> byte \<Rightarrow> dword" where
  "dword_of_bytes b0 b1 b2 b3 =
     ucast b0 OR push_bit 8 (ucast b1) OR push_bit 16 (ucast b2) OR push_bit 24 (ucast b3)"

definition byte_of :: "nat \<Rightarrow> dword \<Rightarrow> byte" where
  "byte_of k v = ucast (drop_bit (8 * k) v)"

definition load_dword :: "translation \<Rightarrow> memory \<Rightarrow> addr \<Rightarrow> dword option" where
  "load_dword tr m a = do {
     b0 \<leftarrow> load_byte tr m a;
     b1 \<leftarrow> load_byte tr m (a + 1);
     b2 \<leftarrow> load_byte tr m (a + 2);
     b3 \<leftarrow> load_byte tr m (a + 3);
     Some (dword_of_bytes b0 b1 b2 b3) }"

definition store_dword :: "translation \<Rightarrow> addr \<Rightarrow> dword \<Rightarrow> memory \<Rightarrow> memory option" where
  "store_dword tr a v m = do {
     m \<leftarrow> store_byte tr a (byte_of 0 v) m;
     m \<leftarrow> store_byte tr (a + 1) (byte_of 1 v) m;
     m \<leftarrow> store_byte tr (a + 2) (byte_of 2 v) m;
     store_byte tr (a + 3) (byte_of 3 v) m }"

lemma byte_of_dword:
  "byte_of 0 (dword_of_bytes b0 b1 b2 b3) = b0"
  "byte_of 1 (dword_of_bytes b0 b1 b2 b3) = b1"
  "byte_of 2 (dword_of_bytes b0 b1 b2 b3) = b2"
  "byte_of 3 (dword_of_bytes b0 b1 b2 b3) = b3"
  unfolding byte_of_def dword_of_bytes_def
  by (rule bit_word_eqI, auto simp: bit_simps dest: bit_imp_le_length)+

section \<open>copy\_data, copy\_from\_user, copy\_to\_user, memset\<close>

text \<open>
  The two loops shared by the copy routines: dwords while more than four bytes are left, then
  single bytes.  The size is a C \<^verbatim>\<open>int\<close>; it only decreases while positive, so it cannot
  overflow and is modelled as an integer.
\<close>

function copy_dwords ::
  "translation \<Rightarrow> addr \<Rightarrow> addr \<Rightarrow> int \<Rightarrow> memory \<Rightarrow> (addr \<times> addr \<times> int \<times> memory) option" where
  "copy_dwords tr p q sz m =
     (if sz > 4 then do {
        v \<leftarrow> load_dword tr m p;
        m \<leftarrow> store_dword tr q v m;
        copy_dwords tr (p + 4) (q + 4) (sz - 4) m }
      else Some (p, q, sz, m))"
  by pat_completeness auto
termination
  by (relation "measure (\<lambda>(tr, p, q, sz, m). nat sz)") auto

function copy_bytes :: "translation \<Rightarrow> addr \<Rightarrow> addr \<Rightarrow> int \<Rightarrow> memory \<Rightarrow> memory option" where
  "copy_bytes tr p1 q1 sz m =
     (if sz > 0 then do {
        v \<leftarrow> load_byte tr m p1;
        m \<leftarrow> store_byte tr q1 v m;
        copy_bytes tr (p1 + 1) (q1 + 1) (sz - 1) m }
      else Some m)"
  by pat_completeness auto
termination
  by (relation "measure (\<lambda>(tr, p, q, sz, m). nat sz)") auto

declare copy_dwords.simps [simp del] copy_bytes.simps [simp del]

definition copy_data :: "translation \<Rightarrow> addr \<Rightarrow> addr \<Rightarrow> int \<Rightarrow> memory \<Rightarrow> memory option" where
  "copy_data tr start dest sz m = do {
     (p1, q1, sz, m) \<leftarrow> copy_dwords tr start dest sz m;
     copy_bytes tr p1 q1 sz m }"

definition copy_from_user ::
  "translation \<Rightarrow> addr \<Rightarrow> addr \<Rightarrow> int \<Rightarrow> memory \<Rightarrow> (cint \<times> memory) option" where
  "copy_from_user tr start dest sz m = do {
     (p1, q1, sz, m) \<leftarrow> copy_dwords tr start dest sz m;
     m \<leftarrow> copy_bytes tr p1 q1 sz m;
     Some (0, m) }"

definition copy_to_user ::
  "translation \<Rightarrow> addr \<Rightarrow> addr \<Rightarrow> int \<Rightarrow> memory \<Rightarrow> (cint \<times> memory) option" where
  "copy_to_user tr start dest sz m = do {
     (p1, q1, sz, m) \<leftarrow> copy_dwords tr start dest sz m;
     m \<leftarrow> copy_bytes tr p1 q1 sz m;
     Some (0, m) }"

function memset_from :: "translation \<Rightarrow> addr \<Rightarrow> byte \<Rightarrow> int \<Rightarrow> int \<Rightarrow> memory \<Rightarrow> memory option" where
  "memset_from tr s c i sz m =
     (if i < sz then do {
        m \<leftarrow> store_byte tr (s + of_int i) c m;
        memset_from tr s c (i + 1) sz m }
      else Some m)"
  by pat_completeness auto
termination
  by (relation "measure (\<lambda>(tr, s, c, i, sz, m). nat (sz - i))") auto

declare memset_from.simps [simp del]

definition memset :: "translation \<Rightarrow> addr \<Rightarrow> byte \<Rightarrow> int \<Rightarrow> memory \<Rightarrow> memory option" where
  "memset tr s c sz m = memset_from tr s c 0 sz m"

section \<open>access\_ok\<close>

abbreviation (input) VERIFY_READ :: cint where "VERIFY_READ \<equiv> 0"
abbreviation (input) VERIFY_WRITE :: cint where "VERIFY_WRITE \<equiv> 1"

text \<open>The \<^verbatim>\<open>VERIFY_WRITE\<close> case has no \<^verbatim>\<open>break\<close> and falls through to the default one.\<close>

definition access_ok :: "cint \<Rightarrow> addr \<Rightarrow> dword \<Rightarrow> bool" where
  "access_ok type a sz =
     (let addr_ini = drop_bit 12 a;
          addr_fin = drop_bit 12 (a + sz)
      in if addr_fin < addr_ini then False
         else if type = VERIFY_WRITE \<and> USER_FIRST_PAGE + NUM_PAG_CODE \<le> addr_ini \<and>
                 addr_fin \<le> USER_FIRST_PAGE + NUM_PAG_CODE + NUM_PAG_DATA then True
         else if USER_FIRST_PAGE \<le> addr_ini \<and>
                 addr_fin \<le> USER_FIRST_PAGE + NUM_PAG_CODE + NUM_PAG_DATA then True
         else False)"

section \<open>do\_div and get\_ticks\<close>

text \<open>
  \<^verbatim>\<open>divl\<close> divides \<open>hi:lo\<close> by its operand; it faults when the operand is zero or the quotient
  does not fit in 32 bits.
\<close>

definition dividend :: "dword \<Rightarrow> dword \<Rightarrow> 64 word" where
  "dividend hi lo = push_bit 32 (ucast hi) OR ucast lo"

definition divl :: "dword \<Rightarrow> dword \<Rightarrow> dword \<Rightarrow> dword \<times> dword" where
  "divl b lo hi = (ucast (dividend hi lo div ucast b), ucast (dividend hi lo mod ucast b))"

definition divl_faults :: "dword \<Rightarrow> dword \<Rightarrow> dword \<Rightarrow> bool" where
  "divl_faults b lo hi \<longleftrightarrow> b = 0 \<or> 2 ^ 32 \<le> unat (dividend hi lo div ucast b)"

definition do_div_upper :: "dword \<Rightarrow> dword \<Rightarrow> dword \<times> dword" where
  "do_div_upper high base = (if high \<noteq> 0 then (high mod base, high div base) else (high, high))"

definition do_div :: "64 word \<Rightarrow> dword \<Rightarrow> 64 word \<times> dword" where
  "do_div n base =
     (let low = ucast n;
          high = ucast (drop_bit 32 n);
          (upper, high) = do_div_upper high base;
          (low, md) = divl base low upper
      in (dividend high low, md))"

abbreviation (input) CYCLESPERTICK :: "'a::numeral" where "CYCLESPERTICK \<equiv> 109000"

text \<open>The argument is the value the \<^verbatim>\<open>rdtsc\<close> instruction delivers in edx:eax.\<close>

definition get_ticks :: "64 word \<Rightarrow> dword" where
  "get_ticks tsc =
     (let eax = ucast tsc :: dword;
          edx = ucast (drop_bit 32 tsc) :: dword;
          ticks = push_bit 32 (ucast edx) + ucast eax;
          (ticks, _) = do_div ticks CYCLESPERTICK
      in ucast ticks)"

section \<open>What the copy loops compute\<close>

text \<open>
  \<open>blit S D n m\<close> is memory after the bytes at \<open>S 0 \<dots> S (n - 1)\<close> were written to
  \<open>D 0 \<dots> D (n - 1)\<close> in this order.  \<open>mapped tr a n P\<close>: the translation maps the \<open>n\<close> bytes
  from \<open>a\<close> to the physical addresses \<open>P 0 \<dots> P (n - 1)\<close>.
\<close>

fun blit :: "(nat \<Rightarrow> addr) \<Rightarrow> (nat \<Rightarrow> addr) \<Rightarrow> nat \<Rightarrow> memory \<Rightarrow> memory" where
  "blit S D 0 m = m"
| "blit S D (Suc n) m = (let m' = blit S D n m in m'(D n := m' (S n)))"

definition mapped :: "translation \<Rightarrow> addr \<Rightarrow> nat \<Rightarrow> (nat \<Rightarrow> addr) \<Rightarrow> bool" where
  "mapped tr a n P \<longleftrightarrow> (\<forall>k < n. tr (byte_at a k) = Some (P k))"

definition apart :: "(nat \<Rightarrow> addr) \<Rightarrow> (nat \<Rightarrow> addr) \<Rightarrow> nat \<Rightarrow> bool" where
  "apart S D n \<longleftrightarrow> inj_on D {..<n} \<and> S ` {..<n} \<inter> D ` {..<n} = {}"

lemma mapped_shift: "mapped tr a (n + k) P \<Longrightarrow> mapped tr (byte_at a k) n (\<lambda>i. P (i + k))"
  unfolding mapped_def
proof (intro allI impI)
  fix i
  assume "\<forall>j < n + k. tr (byte_at a j) = Some (P j)" and "i < n"
  then have "tr (byte_at a (i + k)) = Some (P (i + k))"
    by simp
  then show "tr (byte_at (byte_at a k) i) = Some (P (i + k))"
    by (simp add: byte_at_def ac_simps)
qed

lemma mapped_less: "mapped tr a n P \<Longrightarrow> k \<le> n \<Longrightarrow> mapped tr a k P"
  by (simp add: mapped_def)

lemma apart_less:
  assumes "apart S D n" and "k \<le> n"
  shows "apart S D k"
proof -
  have sub: "{..<k} \<subseteq> {..<n}"
    using assms(2) by auto
  have "inj_on D {..<k}"
    using assms(1) sub by (auto simp: apart_def intro: inj_on_subset)
  moreover have "S ` {..<k} \<inter> D ` {..<k} = {}"
    using assms(1) image_mono [OF sub, of S] image_mono [OF sub, of D] by (auto simp: apart_def)
  ultimately show ?thesis
    by (simp add: apart_def)
qed

lemma apart_shift:
  assumes "apart S D (n + k)"
  shows "apart (\<lambda>i. S (i + k)) (\<lambda>i. D (i + k)) n"
proof -
  have "(\<lambda>i. S (i + k)) ` {..<n} \<subseteq> S ` {..<n + k}"
    and "(\<lambda>i. D (i + k)) ` {..<n} \<subseteq> D ` {..<n + k}"
    by auto
  moreover have "inj_on (\<lambda>i. D (i + k)) {..<n}"
  proof (rule inj_onI)
    fix i j
    assume "i \<in> {..<n}" "j \<in> {..<n}" "D (i + k) = D (j + k)"
    then have "i + k = j + k"
      using assms by (intro inj_onD [of D "{..<n + k}"]) (auto simp: apart_def)
    then show "i = j" by simp
  qed
  moreover have "S ` {..<n + k} \<inter> D ` {..<n + k} = {}"
    using assms by (simp add: apart_def)
  ultimately show ?thesis
    unfolding apart_def by (meson disjoint_iff subsetD)
qed

lemma blit_other: "x \<notin> D ` {..<n} \<Longrightarrow> blit S D n m x = m x"
  by (induction n) (auto simp: Let_def lessThan_Suc)

lemma blit_src: "apart S D n \<Longrightarrow> k < n \<Longrightarrow> j \<le> n \<Longrightarrow> blit S D j m (S k) = m (S k)"
  unfolding apart_def by (rule blit_other) fastforce

lemma blit_dst: "apart S D n \<Longrightarrow> k < n \<Longrightarrow> blit S D n m (D k) = m (S k)"
proof (induction n)
  case (Suc n)
  then have ap: "apart S D n"
    by (auto simp: apart_def lessThan_Suc)
  show ?case
  proof (cases "k = n")
    case True
    then show ?thesis
      using blit_src [OF Suc.prems(1), of n n] by (simp add: Let_def)
  next
    case False
    with Suc.prems have "k < n" "D k \<noteq> D n"
      by (auto simp: apart_def inj_on_def)
    then show ?thesis
      using Suc.IH ap by (simp add: Let_def)
  qed
qed simp

lemma blit_add: "blit S D (a + b) m = blit (\<lambda>i. S (i + a)) (\<lambda>i. D (i + a)) b (blit S D a m)"
  by (induction b) (simp_all add: Let_def add.commute)

lemma copy_bytes_blit:
  "mapped tr p n S \<Longrightarrow> mapped tr q n D \<Longrightarrow> copy_bytes tr p q (int n) m = Some (blit S D n m)"
proof (induction n arbitrary: p q S D m)
  case 0
  then show ?case by (simp add: copy_bytes.simps)
next
  case (Suc n)
  have "copy_bytes tr (byte_at p 1) (byte_at q 1) (int n) (m(D 0 := m (S 0)))
      = Some (blit (\<lambda>i. S (i + 1)) (\<lambda>i. D (i + 1)) n (m(D 0 := m (S 0))))"
    using Suc.prems mapped_shift [of tr _ n 1] by (intro Suc.IH) simp_all
  moreover have "tr p = Some (S 0)" "tr q = Some (D 0)"
    using Suc.prems by (auto simp: mapped_def dest: spec [of _ 0])
  ultimately show ?case
    using blit_add [of S D 1 n m]
    by (simp add: copy_bytes.simps [of tr p q] load_byte_def store_byte_def byte_at_def)
qed

lemma load_store_dword:
  assumes "mapped tr p 4 S" and "mapped tr q 4 D" and "apart S D 4"
  shows "load_dword tr m p \<bind> (\<lambda>v. store_dword tr q v m) = Some (blit S D 4 m)"
proof -
  have tp: "tr p = Some (S 0)" "tr (p + 1) = Some (S 1)" "tr (p + 2) = Some (S 2)"
      "tr (p + 3) = Some (S 3)"
    using assms(1) unfolding mapped_def byte_at_def
    by (auto dest: spec [of _ 0] spec [of _ 1] spec [of _ 2] spec [of _ 3])
  have tq: "tr q = Some (D 0)" "tr (q + 1) = Some (D 1)" "tr (q + 2) = Some (D 2)"
      "tr (q + 3) = Some (D 3)"
    using assms(2) unfolding mapped_def byte_at_def
    by (auto dest: spec [of _ 0] spec [of _ 1] spec [of _ 2] spec [of _ 3])
  have ne: "S i \<noteq> D j" if "i < 4" "j < 4" for i j
    using assms(3) that by (auto simp: apart_def)
  have four: "(4::nat) = Suc (Suc (Suc (Suc 0)))"
    by simp
  have "blit S D 4 m = m(D 0 := m (S 0), D 1 := m (S 1), D 2 := m (S 2), D 3 := m (S 3))"
    using ne [of 1] ne [of 2] ne [of 3]
    unfolding four by (simp add: Let_def numeral_2_eq_2 numeral_3_eq_3)
  then show ?thesis
    by (simp add: load_dword_def store_dword_def load_byte_def store_byte_def tp tq byte_of_dword
        byte_of_dword [unfolded One_nat_def])
qed

lemma copy_data_rec:
  "copy_data tr p q n m =
     (if n > 4 then do {
        m \<leftarrow> load_dword tr m p \<bind> (\<lambda>v. store_dword tr q v m);
        copy_data tr (p + 4) (q + 4) (n - 4) m }
      else copy_bytes tr p q n m)"
  by (auto simp: copy_data_def copy_dwords.simps [of tr p q n m] split: bind_splits)

lemma copy_data_blit:
  "mapped tr p n S \<Longrightarrow> mapped tr q n D \<Longrightarrow> apart S D n \<Longrightarrow>
   copy_data tr p q (int n) m = Some (blit S D n m)"
proof (induction n arbitrary: p q S D m rule: less_induct)
  case (less n)
  show ?case
  proof (cases "n > 4")
    case False
    with less.prems show ?thesis
      by (simp add: copy_data_rec copy_bytes_blit)
  next
    case True
    define k where "k = n - 4"
    with True have n: "n = k + 4" "int n - 4 = int k" "k < n" by auto
    have "apart S D 4"
      using less.prems(3) True by (rule apart_less [OF _ less_imp_le])
    with less.prems True have step:
      "load_dword tr m p \<bind> (\<lambda>v. store_dword tr q v m) = Some (blit S D 4 m)"
      by (intro load_store_dword) (auto intro: mapped_less)
    have "apart (\<lambda>i. S (i + 4)) (\<lambda>i. D (i + 4)) k"
      using less.prems(3) apart_shift [of S D k 4] n(1) by simp
    moreover have "mapped tr (byte_at p 4) k (\<lambda>i. S (i + 4))" "mapped tr (byte_at q 4) k (\<lambda>i. D (i + 4))"
      using less.prems(1,2) mapped_shift [of tr p k 4 S] mapped_shift [of tr q k 4 D] n(1) by simp_all
    ultimately have rest: "copy_data tr (byte_at p 4) (byte_at q 4) (int k) (blit S D 4 m)
        = Some (blit (\<lambda>i. S (i + 4)) (\<lambda>i. D (i + 4)) k (blit S D 4 m))"
      by (intro less.IH [OF n(3)])
    have "copy_data tr p q (int n) m = copy_data tr (p + 4) (q + 4) (int n - 4) (blit S D 4 m)"
      using True by (subst copy_data_rec) (simp add: step)
    also have "\<dots> = Some (blit (\<lambda>i. S (i + 4)) (\<lambda>i. D (i + 4)) k (blit S D 4 m))"
      using rest n(2) by (simp add: byte_at_def)
    also have "\<dots> = Some (blit S D n m)"
      using blit_add [of S D 4 k m] by (simp only: n(1) add.commute)
    finally show ?thesis .
  qed
qed

lemma copy_data_nonpos: "n \<le> 0 \<Longrightarrow> copy_data tr p q n m = Some m"
  by (simp add: copy_data_rec copy_bytes.simps)

text \<open>The user copies run the same loops and return 0.\<close>

lemma copy_from_user_eq: "copy_from_user tr p q n m = map_option (Pair 0) (copy_data tr p q n m)"
  by (auto simp: copy_from_user_def copy_data_def split: bind_splits)

lemma copy_to_user_eq: "copy_to_user tr p q n m = map_option (Pair 0) (copy_data tr p q n m)"
  by (auto simp: copy_to_user_def copy_data_def split: bind_splits)

section \<open>The 64 by 32 bit division\<close>

lemma unat_dividend: "unat (dividend hi lo) = unat hi * 2 ^ 32 + unat lo"
proof -
  have "dividend hi lo = push_bit 32 (ucast hi) + ucast lo"
    unfolding dividend_def
    by (rule disjunctive_add_eq_or [symmetric], rule bit_word_eqI)
      (auto simp: bit_simps dest: bit_imp_le_length)
  moreover have "unat (push_bit 32 (ucast hi) :: 64 word) = unat hi * 2 ^ 32"
    using unat_bound32 [of hi]
    by (simp add: push_bit_eq_mult unat_word_ariths unsigned_ucast_eq take_bit_nat_eq_self)
  moreover have "unat hi * 2 ^ 32 + unat lo < 2 ^ 64"
    using unat_bound32 [of hi] unat_bound32 [of lo] by simp
  ultimately show ?thesis
    by (simp add: unat_word_ariths unsigned_ucast_eq take_bit_nat_eq_self)
qed

lemma unat_high: "unat (ucast (drop_bit 32 (n :: 64 word)) :: dword) = unat n div 2 ^ 32"
  using unat_bound64 [of n]
  by (simp add: unsigned_ucast_eq drop_bit_eq_div unat_div take_bit_nat_eq_self
      less_mult_imp_div_less)

lemma unat_low: "unat (ucast (n :: 64 word) :: dword) = unat n mod 2 ^ 32"
  by (simp add: unsigned_ucast_eq take_bit_eq_mod)

lemma long_division_step:
  fixes H L b :: nat
  assumes "0 < b" and "L < 2 ^ 32"
  shows "(H * 2 ^ 32 + L) div b = H div b * 2 ^ 32 + (H mod b * 2 ^ 32 + L) div b"
    and "(H * 2 ^ 32 + L) mod b = (H mod b * 2 ^ 32 + L) mod b"
    and "(H mod b * 2 ^ 32 + L) div b < 2 ^ 32"
proof -
  have "H * 2 ^ 32 = (H div b * b + H mod b) * 2 ^ 32"
    by (simp only: div_mult_mod_eq)
  then have eq: "H * 2 ^ 32 + L = (H mod b * 2 ^ 32 + L) + H div b * 2 ^ 32 * b"
    by (simp only: distrib_right ac_simps)
  show "(H * 2 ^ 32 + L) div b = H div b * 2 ^ 32 + (H mod b * 2 ^ 32 + L) div b"
    unfolding eq using assms(1) by (subst div_mult_self1) simp_all
  show "(H * 2 ^ 32 + L) mod b = (H mod b * 2 ^ 32 + L) mod b"
    unfolding eq by (rule mod_mult_self1)
  have "Suc (H mod b) \<le> b"
    using assms(1) by (simp add: Suc_leI)
  then have "Suc (H mod b) * 2 ^ 32 \<le> b * 2 ^ 32"
    by (rule mult_le_mono1)
  then have "H mod b * 2 ^ 32 + L < b * 2 ^ 32"
    using assms(2) by simp
  then show "(H mod b * 2 ^ 32 + L) div b < 2 ^ 32"
    by (simp add: less_mult_imp_div_less mult.commute)
qed

lemma do_div_upper_unat:
  "base \<noteq> 0 \<Longrightarrow> unat (fst (do_div_upper high base)) = unat high mod unat base \<and>
   unat (snd (do_div_upper high base)) = unat high div unat base"
  by (simp add: do_div_upper_def unat_div unat_mod)

lemma unat_divl:
  assumes "b \<noteq> 0" and "(unat hi * 2 ^ 32 + unat lo) div unat b < 2 ^ 32"
  shows "unat (fst (divl b lo hi)) = (unat hi * 2 ^ 32 + unat lo) div unat b"
    and "unat (snd (divl b lo hi)) = (unat hi * 2 ^ 32 + unat lo) mod unat b"
    and "\<not> divl_faults b lo hi"
proof -
  have tb: "take_bit 64 (unat b) = unat b"
    using unat_bound32 [of b] by (simp add: take_bit_nat_eq_self)
  then have ub: "unat (ucast b :: 64 word) = unat b"
    by (simp add: unsigned_ucast_eq)
  have "0 < unat b"
    using assms(1) by (simp add: unat_gt_0)
  then have "(unat hi * 2 ^ 32 + unat lo) mod unat b < 2 ^ 32"
    using unat_bound32 [of b] by (meson less_trans mod_less_divisor)
  then show "unat (snd (divl b lo hi)) = (unat hi * 2 ^ 32 + unat lo) mod unat b"
    by (simp add: divl_def unsigned_ucast_eq unat_mod unat_dividend ub tb take_bit_nat_eq_self)
  show "unat (fst (divl b lo hi)) = (unat hi * 2 ^ 32 + unat lo) div unat b"
    using assms(2)
    by (simp add: divl_def unsigned_ucast_eq unat_div unat_dividend ub tb take_bit_nat_eq_self)
  show "\<not> divl_faults b lo hi"
    using assms by (simp add: divl_faults_def unat_div unat_dividend ub)
qed

lemma do_div_parts:
  fixes n :: "64 word" and base :: dword
  assumes "base \<noteq> 0"
  defines "H \<equiv> unat n div 2 ^ 32" and "L \<equiv> unat n mod 2 ^ 32"
  shows "unat (fst (do_div n base)) = unat n div unat base"
    and "unat (snd (do_div n base)) = unat n mod unat base"
    and "\<not> divl_faults base (ucast n) (fst (do_div_upper (ucast (drop_bit 32 n)) base))"
proof -
  let ?up = "do_div_upper (ucast (drop_bit 32 n)) base"
  have n: "unat n = H * 2 ^ 32 + L" and L: "L < 2 ^ 32"
    unfolding H_def L_def by (rule div_mult_mod_eq [symmetric]) simp
  have b: "0 < unat base"
    using assms(1) by (simp add: unat_gt_0)
  have up: "unat (fst ?up) = H mod unat base" "unat (snd ?up) = H div unat base"
    using do_div_upper_unat [OF assms(1), of "ucast (drop_bit 32 n)"] by (simp_all only: unat_high H_def)
  have lo: "unat (ucast n :: dword) = L"
    by (simp only: unat_low L_def)
  note steps = long_division_step [OF b L, of H]
  have q: "(unat (fst ?up) * 2 ^ 32 + unat (ucast n :: dword)) div unat base < 2 ^ 32"
    using steps(3) by (simp only: up lo)
  note dv = unat_divl [OF assms(1) q, unfolded up lo]
  have parts: "fst (do_div n base) = dividend (snd ?up) (fst (divl base (ucast n) (fst ?up)))"
      "snd (do_div n base) = snd (divl base (ucast n) (fst ?up))"
    by (simp_all add: do_div_def Let_def case_prod_beta)
  show "unat (fst (do_div n base)) = unat n div unat base"
    by (simp only: parts unat_dividend up dv n steps(1))
  show "unat (snd (do_div n base)) = unat n mod unat base"
    by (simp only: parts dv n steps(2))
  show "\<not> divl_faults base (ucast n) (fst ?up)"
    by (rule dv(3))
qed

text \<open>The two halves that \<^verbatim>\<open>rdtsc\<close> delivers are put together again before the division.\<close>

lemma rejoin_halves:
  "push_bit 32 (ucast (ucast (drop_bit 32 n) :: dword)) + ucast (ucast n :: dword) = (n :: 64 word)"
proof -
  have "push_bit 32 (ucast (ucast (drop_bit 32 n) :: dword)) + ucast (ucast n :: dword)
      = (push_bit 32 (ucast (ucast (drop_bit 32 n) :: dword)) OR ucast (ucast n :: dword) :: 64 word)"
    by (rule disjunctive_add_eq_or, rule bit_word_eqI) (auto simp: bit_simps dest: bit_imp_le_length)
  also have "\<dots> = n"
    by (rule bit_word_eqI) (auto simp: bit_simps dest: bit_imp_le_length)
  finally show ?thesis .
qed

lemma get_ticks_div: "get_ticks tsc = ucast (tsc div CYCLESPERTICK)"
proof -
  have "fst (do_div tsc 109000) = tsc div 109000"
    using do_div_parts(1) [of 109000 tsc]
    by (intro unsigned_word_eqI [where ?'a = nat]) (simp add: unat_div)
  then show ?thesis
    by (simp add: get_ticks_def Let_def rejoin_halves case_prod_beta)
qed

section \<open>What access\_ok accepts\<close>

text \<open>
  Because of the missing \<^verbatim>\<open>break\<close> the type of access makes no difference, and the last page
  number compared is that of the first byte after the block.
\<close>

lemma access_ok_iff:
  "access_ok type a sz \<longleftrightarrow>
     drop_bit 12 a \<le> drop_bit 12 (a + sz) \<and> 256 \<le> drop_bit 12 a \<and> drop_bit 12 (a + sz) \<le> 284"
proof -
  have "(264 :: dword) \<le> x \<Longrightarrow> 256 \<le> x" for x
    by (simp add: word_le_nat_alt)
  then show ?thesis
    by (auto simp: access_ok_def user_first_page Let_def not_less)
qed

lemma unat_page: "unat (drop_bit 12 a :: dword) = unat a div 4096"
  by (simp add: drop_bit_eq_div unat_div)

lemma access_ok_nat:
  "access_ok type a sz \<longleftrightarrow>
     unat a div 4096 \<le> unat (a + sz) div 4096 \<and> 256 \<le> unat a div 4096 \<and>
     unat (a + sz) div 4096 \<le> 284"
  by (simp add: access_ok_iff word_le_nat_alt unat_page)

text \<open>For the sizes an \<^verbatim>\<open>int\<close> can have the sum does not wrap, and an accepted block lies in
  the user region or in the page after it.\<close>

lemma access_ok_bounds:
  assumes "access_ok type a sz" and "unat sz < 2 ^ 31"
  shows "unat (a + sz) = unat a + unat sz" and "0x100000 \<le> unat a"
    and "unat a + unat sz < 0x11D000"
proof -
  note ok = assms(1) [unfolded access_ok_nat]
  have "unat a div 4096 \<le> 284"
    using ok by linarith
  then have "unat a < 285 * 4096"
    by (simp add: div_less_iff_less_mult)
  then show *: "unat (a + sz) = unat a + unat sz"
    using assms(2) by (simp add: unat_word_ariths)
  show "0x100000 \<le> unat a"
    using ok div_mult_mod_eq [of "unat a" 4096] by linarith
  show "unat a + unat sz < 0x11D000"
    using ok div_mult_mod_eq [of "unat a + unat sz" 4096]
      mod_less_divisor [of 4096 "unat a + unat sz"] unfolding * by linarith
qed

lemma access_ok_range:
  assumes "unat sz < 2 ^ 31"
  shows "access_ok type a sz \<longleftrightarrow> 0x100000 \<le> unat a \<and> unat a + unat sz < 0x11D000"
proof
  assume "access_ok type a sz"
  from access_ok_bounds [OF this assms] show "0x100000 \<le> unat a \<and> unat a + unat sz < 0x11D000"
    by simp
next
  assume b: "0x100000 \<le> unat a \<and> unat a + unat sz < 0x11D000"
  then have "unat (a + sz) = unat a + unat sz"
    by (simp add: unat_word_ariths)
  moreover have "unat a div 4096 \<le> (unat a + unat sz) div 4096"
    by (rule div_le_mono) simp
  moreover have "0x100000 div 4096 \<le> unat a div 4096"
    using b by (intro div_le_mono) simp
  moreover have "(unat a + unat sz) div 4096 < 285"
    using b by (simp add: div_less_iff_less_mult)
  ultimately show "access_ok type a sz"
    by (simp add: access_ok_nat)
qed

end
