(* ===== verification/Tasks.thy ===== *)
theory Tasks
  imports ListHeap Utils
begin

text \<open>
  sched.h and stats.h: the task structures, where the linker puts the kernel's objects, and
  the address computations of sched.c between a task, its list node, its stack page and its
  row of page directories.

  The kernel's memory is split by type, one function per kind of object: list nodes
  (\<^verbatim>\<open>ListHeap\<close>), task structures, the dwords of the kernel stacks, page table entries, and
  byte memory.  A \<^verbatim>\<open>union task_union\<close> at address \<open>t\<close> is thus the task structure at \<open>t\<close>, the
  list node at \<open>t + 8\<close> and the stack dwords at \<open>t + 4 * k\<close>.
\<close>

section \<open>Data\<close>

record stats =
  user_ticks :: dword
  system_ticks :: dword
  blocked_ticks :: dword
  ready_ticks :: dword
  elapsed_total_ticks :: dword
  total_trans :: dword
  remaining_ticks :: dword

datatype state_t = ST_RUN | ST_READY | ST_BLOCKED

record task_struct =
  PID :: cint
  dir_pages_baseAddr :: addr
  register_esp :: dword
  state :: state_t
  total_quantum :: cint
  p_stats :: stats

abbreviation (input) NR_TASKS :: "'a::numeral" where "NR_TASKS \<equiv> 10"
abbreviation (input) KERNEL_STACK_SIZE :: "'a::numeral" where "KERNEL_STACK_SIZE \<equiv> 1024"

text \<open>Addresses the linker chooses: variables of the kernel and code labels it stores.\<close>

record layout =
  protected_tasks :: addr
  dir_pages :: addr
  pagusr_table :: addr
  freequeue :: addr
  readyqueue :: addr
  blocked :: addr
  tss_addr :: addr
  cpu_idle_code :: addr
  ret_from_fork_code :: addr
  task_switch_ret_code :: addr
  syscall_ret_code :: addr

section \<open>Address computations\<close>

definition task_array :: "layout \<Rightarrow> addr" where
  "task_array L = protected_tasks L + 4096"

definition task_at :: "layout \<Rightarrow> nat \<Rightarrow> addr" where
  "task_at L i = task_array L + 4096 * of_nat i"

definition list_of :: "addr \<Rightarrow> addr" where
  "list_of t = t + 8"

definition list_head_to_task_struct :: "addr \<Rightarrow> addr" where
  "list_head_to_task_struct l = l AND 0xfffff000"

definition stack_slot :: "addr \<Rightarrow> nat \<Rightarrow> addr" where
  "stack_slot t k = dword_at t k"

definition get_DIR :: "task_struct \<Rightarrow> addr" where
  "get_DIR t = dir_pages_baseAddr t"

definition get_PT :: "task_struct \<Rightarrow> (addr \<Rightarrow> page_table_entry) \<Rightarrow> addr" where
  "get_PT t ptes = push_bit 12 (pte_pbase_addr (ptes (dir_pages_baseAddr t)))"

text \<open>\<^verbatim>\<open>sizeof\<close> is unsigned, so the division is the unsigned one.\<close>

definition allocate_DIR :: "layout \<Rightarrow> addr \<Rightarrow> task_struct \<Rightarrow> cint \<times> task_struct" where
  "allocate_DIR L a t =
     (let pos = (a - task_array L) div 4096
      in (1, t\<lparr>dir_pages_baseAddr := dir_pages L + 4096 * pos\<rparr>))"

section \<open>A layout the linker script can produce\<close>

text \<open>
  system.lds puts the section \<^verbatim>\<open>.data.task\<close>, which holds the task array and both page table
  arrays, at a page boundary; its objects have sizes that are multiples of a page.  The queue
  heads are ordinary variables outside that section.
\<close>

definition page_aligned :: "addr \<Rightarrow> bool" where
  "page_aligned a \<longleftrightarrow> a AND 0xfff = 0"

definition queue_head :: "layout \<Rightarrow> addr \<Rightarrow> bool" where
  "queue_head L q \<longleftrightarrow> q = freequeue L \<or> q = readyqueue L \<or> q = blocked L"

definition layout_ok :: "layout \<Rightarrow> bool" where
  "layout_ok L \<longleftrightarrow>
     page_aligned (protected_tasks L) \<and> page_aligned (dir_pages L) \<and>
     page_aligned (pagusr_table L) \<and>
     unat (protected_tasks L) + 12 * 4096 < 0x100000 \<and>
     unat (dir_pages L) + 10 * 4096 < 0x100000 \<and>
     unat (pagusr_table L) + 10 * 4096 < 0x100000 \<and>
     (unat (dir_pages L) + 10 * 4096 \<le> unat (pagusr_table L) \<or>
      unat (pagusr_table L) + 10 * 4096 \<le> unat (dir_pages L)) \<and>
     distinct [freequeue L, readyqueue L, blocked L] \<and>
     (\<forall>q. queue_head L q \<longrightarrow> q \<noteq> NULL \<and>
        (unat q < unat (protected_tasks L) \<or> unat (protected_tasks L) + 12 * 4096 \<le> unat q))"

lemma page_mask: "(0xfffff000 :: 32 word) = NOT (mask 12)"
  by (simp add: mask_eq_exp_minus_1 not_eq_complement)

lemma page_offset:
  assumes "page_aligned t" and "unat off < 4096"
  shows "(t + off) AND 0xfffff000 = t" and "(t + off) AND 0xfff = off"
    and "drop_bit 12 (t + off) = drop_bit 12 t"
proof -
  have t: "t AND mask 12 = 0"
    using assms(1) by (simp add: page_aligned_def mask_eq_exp_minus_1)
  have lowt: "\<not> bit t n" if "n < 12" for n
  proof -
    have "\<not> bit (t AND mask 12) n"
      by (simp add: t)
    then show ?thesis
      using that by (simp add: bit_and_iff bit_mask_iff)
  qed
  have "take_bit 12 off = off"
    using assms(2)
    by (intro unsigned_word_eqI [where ?'a = nat]) (simp add: unsigned_take_bit_eq take_bit_nat_eq_self)
  then have higho: "\<not> bit off n" if "12 \<le> n" for n
    using that by (metis bit_take_bit_iff not_less)
  have sum: "t + off = t OR off"
  proof (rule disjunctive_add_eq_or, rule bit_word_eqI)
    fix n :: nat
    show "bit (t AND off) n = bit (0 :: addr) n"
      by (cases "n < 12") (auto simp: bit_simps lowt higho not_less)
  qed
  have lt: "bit t n \<Longrightarrow> 12 \<le> n" and lo: "bit off n \<Longrightarrow> n < 12" for n
    using lowt [of n] higho [of n] by linarith+
  show "(t + off) AND 0xfffff000 = t"
    unfolding sum page_mask by (rule bit_word_eqI) (auto simp: bit_simps dest: lt lo)
  show "(t + off) AND 0xfff = off"
    unfolding sum mask_numerals by (rule bit_word_eqI) (auto simp: bit_simps dest: lt lo)
  show "drop_bit 12 (t + off) = drop_bit 12 t"
    unfolding sum
    by (rule bit_word_eqI) (use higho in \<open>auto simp: bit_simps\<close>)
qed

lemma page_aligned_nat: "page_aligned a \<longleftrightarrow> 4096 dvd unat a"
proof -
  have "unat (a AND 0xfff) = unat a mod 4096"
    unfolding mask_numerals take_bit_eq_mask [symmetric]
    by (simp only: unsigned_take_bit_eq) (simp add: take_bit_eq_mod)
  then show ?thesis
    by (metis page_aligned_def dvd_eq_mod_eq_0 unat_0 unsigned_eq_0_iff)
qed

lemma unat_add_small: "unat a + n < 2 ^ 32 \<Longrightarrow> unat (a + of_nat n :: 32 word) = unat a + n"
  by (simp add: unat_word_ariths unat_of_nat)

lemma layout_task_bound: "layout_ok L \<Longrightarrow> unat (protected_tasks L) + 12 * 4096 < 0x100000"
  by (simp add: layout_ok_def)

lemma unat_task_at:
  assumes "layout_ok L" and "i \<le> 10"
  shows "unat (task_at L i) = unat (protected_tasks L) + 4096 * (i + 1)"
proof -
  have "task_at L i = protected_tasks L + of_nat (4096 * (i + 1))"
    by (simp add: task_at_def task_array_def algebra_simps)
  then show ?thesis
    using layout_task_bound [OF assms(1)] assms(2)
      unat_add_small [of "protected_tasks L" "4096 * (i + 1)"] by (simp del: of_nat_mult of_nat_add)
qed

lemma task_at_aligned:
  assumes "layout_ok L" and "i \<le> 10"
  shows "page_aligned (task_at L i)"
  using assms by (simp add: page_aligned_nat unat_task_at layout_ok_def del: mult_Suc_right)

lemma list_head_to_task_struct_list_of [simp]:
  "page_aligned t \<Longrightarrow> list_head_to_task_struct (list_of t) = t"
  by (simp add: list_head_to_task_struct_def list_of_def page_offset)

lemma list_of_inj [simp]: "list_of a = list_of b \<longleftrightarrow> a = b"
  by (simp add: list_of_def)

lemma task_at_inj:
  assumes "layout_ok L" and "i \<le> 10" and "j \<le> 10"
  shows "task_at L i = task_at L j \<longleftrightarrow> i = j"
  using assms by (metis unat_task_at add_left_cancel add_right_cancel mult_left_cancel zero_neq_numeral)

lemma unat_list_of:
  assumes "layout_ok L" and "i < 10"
  shows "unat (list_of (task_at L i)) = unat (protected_tasks L) + 4096 * (i + 1) + 8"
proof -
  have "list_of (task_at L i) = task_at L i + of_nat 8"
    by (simp add: list_of_def)
  then show ?thesis
    using layout_task_bound [OF assms(1)] unat_task_at [OF assms(1), of i] assms(2)
      unat_add_small [of "task_at L i" 8] by simp
qed

lemma head_not_null: "layout_ok L \<Longrightarrow> queue_head L q \<Longrightarrow> q \<noteq> NULL"
  by (simp add: layout_ok_def)

lemma list_of_not_head:
  assumes "layout_ok L" and "i < 10" and "queue_head L q"
  shows "list_of (task_at L i) \<noteq> q"
proof
  assume "list_of (task_at L i) = q"
  then have "unat q = unat (protected_tasks L) + 4096 * (i + 1) + 8"
    using unat_list_of [OF assms(1,2)] by simp
  moreover have "unat q < unat (protected_tasks L) \<or> unat (protected_tasks L) + 12 * 4096 \<le> unat q"
    using assms(1,3) by (simp add: layout_ok_def)
  ultimately show False
    using assms(2) by auto
qed

lemma allocate_DIR_task:
  assumes "layout_ok L" and "i < 10"
  shows "allocate_DIR L (task_at L i) t = (1, t\<lparr>dir_pages_baseAddr := dir_pages L + 4096 * of_nat i\<rparr>)"
proof -
  have "unat (4096 * of_nat i :: dword) = 4096 * i"
    using assms(2) by (simp add: unat_word_ariths unat_of_nat)
  then have "(4096 * of_nat i :: dword) div 4096 = of_nat i"
    using assms(2) by (intro unsigned_word_eqI [where ?'a = nat]) (simp add: unat_div unat_of_nat)
  then show ?thesis
    by (simp add: allocate_DIR_def task_at_def Let_def)
qed

end
