(* ===== verification/MM.thy ===== *)
theory MM
  imports Tasks
begin

text \<open>
  The paging half of mm.c: the byte map of physical frames, the page directories and page
  tables, and the walk the processor makes through them.  The state is one record; page
  table entries are kept by the address they are stored at, physical memory by physical
  address.
\<close>

record mm_state =
  phys_mem :: "nat \<Rightarrow> byte"
  pte :: "addr \<Rightarrow> page_table_entry"
  ram :: memory
  cr3 :: addr
  cr0 :: dword

abbreviation (input) FREE_FRAME :: byte where "FREE_FRAME \<equiv> 0"
abbreviation (input) USED_FRAME :: byte where "USED_FRAME \<equiv> 1"
abbreviation (input) ENTRY_DIR_PAGES :: nat where "ENTRY_DIR_PAGES \<equiv> 0"

definition PH_PAGE :: "addr \<Rightarrow> dword" where
  "PH_PAGE x = drop_bit 12 x"

section \<open>Frames\<close>

definition set_frame :: "nat \<Rightarrow> byte \<Rightarrow> mm_state \<Rightarrow> mm_state" where
  "set_frame i b m = m\<lparr>phys_mem := (phys_mem m)(i := b)\<rparr>"

definition init_frames :: "mm_state \<Rightarrow> mm_state" where
  "init_frames m =
     (let m = fold (\<lambda>i. set_frame i FREE_FRAME) [0..<TOTAL_PAGES] m
      in fold (\<lambda>i. set_frame i USED_FRAME) [0..<NUM_PAG_KERNEL] m)"

function alloc_frame_from :: "nat \<Rightarrow> mm_state \<Rightarrow> cint \<times> mm_state" where
  "alloc_frame_from i m =
     (if i < TOTAL_PAGES then
        if phys_mem m i = FREE_FRAME then (of_nat i, set_frame i USED_FRAME m)
        else alloc_frame_from (i + 2) m
      else (-1, m))"
  by pat_completeness auto
termination
  by (relation "measure (\<lambda>(i, m). 1024 - i)") auto

declare alloc_frame_from.simps [simp del]

definition alloc_frame :: "mm_state \<Rightarrow> cint \<times> mm_state" where
  "alloc_frame m = alloc_frame_from NUM_PAG_KERNEL m"

definition free_frame :: "dword \<Rightarrow> mm_state \<Rightarrow> mm_state" where
  "free_frame frame m =
     (if NUM_PAG_KERNEL < frame \<and> frame < TOTAL_PAGES
      then set_frame (unat frame) FREE_FRAME m else m)"

section \<open>Page table entries in memory\<close>

text \<open>\<open>pte_write a f\<close> is an assignment to the entry at \<open>a\<close>, or to one of its fields.\<close>

definition pte_write :: "addr \<Rightarrow> (page_table_entry \<Rightarrow> page_table_entry) \<Rightarrow> mm_state \<Rightarrow> mm_state" where
  "pte_write a f m = m\<lparr>pte := (pte m)(a := f (pte m a))\<rparr>"

definition set_ss_pag :: "addr \<Rightarrow> nat \<Rightarrow> dword \<Rightarrow> mm_state \<Rightarrow> mm_state" where
  "set_ss_pag PT page frame m =
     (let a = dword_at PT page;
          m = pte_write a (\<lambda>_. 0) m;
          m = pte_write a (set_pbase_addr frame) m;
          m = pte_write a (set_user 1) m;
          m = pte_write a (set_rw 1) m
      in pte_write a (set_present 1) m)"

definition del_ss_pag :: "addr \<Rightarrow> nat \<Rightarrow> mm_state \<Rightarrow> mm_state" where
  "del_ss_pag PT logical_page m = pte_write (dword_at PT logical_page) (\<lambda>_. 0) m"

definition get_frame :: "addr \<Rightarrow> nat \<Rightarrow> mm_state \<Rightarrow> dword" where
  "get_frame PT logical_page m = pte_pbase_addr (pte m (dword_at PT logical_page))"

definition dir_row :: "layout \<Rightarrow> nat \<Rightarrow> addr" where
  "dir_row L i = dir_pages L + 4096 * of_nat i"

definition pt_row :: "layout \<Rightarrow> nat \<Rightarrow> addr" where
  "pt_row L i = pagusr_table L + 4096 * of_nat i"

definition init_dir_entry :: "layout \<Rightarrow> nat \<Rightarrow> mm_state \<Rightarrow> mm_state" where
  "init_dir_entry L i m =
     (let a = dword_at (dir_row L i) ENTRY_DIR_PAGES;
          m = pte_write a (\<lambda>_. 0) m;
          m = pte_write a (set_pbase_addr (drop_bit 12 (pt_row L i))) m;
          m = pte_write a (set_user 1) m;
          m = pte_write a (set_rw 1) m
      in pte_write a (set_present 1) m)"

definition init_dir_pages :: "layout \<Rightarrow> mm_state \<Rightarrow> mm_state" where
  "init_dir_pages L m = fold (init_dir_entry L) [0..<NR_TASKS] m"

definition init_kernel_page :: "layout \<Rightarrow> nat \<Rightarrow> nat \<Rightarrow> mm_state \<Rightarrow> mm_state" where
  "init_kernel_page L j i m =
     (let a = dword_at (pt_row L j) i;
          m = pte_write a (set_pbase_addr (of_nat i)) m;
          m = pte_write a (set_rw 1) m
      in pte_write a (set_present 1) m)"

definition protect_page :: "layout \<Rightarrow> nat \<Rightarrow> addr \<Rightarrow> mm_state \<Rightarrow> mm_state" where
  "protect_page L j x m = pte_write (dword_at (pt_row L j) (unat (PH_PAGE x))) (set_present 0) m"

definition init_table :: "layout \<Rightarrow> nat \<Rightarrow> mm_state \<Rightarrow> mm_state" where
  "init_table L j m =
     (let m = fold (\<lambda>i. pte_write (dword_at (pt_row L j) i) (\<lambda>_. 0)) [0..<TOTAL_PAGES] m;
          m = fold (init_kernel_page L j) [1..<NUM_PAG_KERNEL] m;
          m = protect_page L j (protected_tasks L) m
      in protect_page L j (protected_tasks L + 4096 * 11) m)"

definition init_table_pages :: "layout \<Rightarrow> mm_state \<Rightarrow> mm_state" where
  "init_table_pages L m = fold (init_table L) [0..<NR_TASKS] m"

definition set_user_code_page :: "addr \<Rightarrow> nat \<Rightarrow> mm_state \<Rightarrow> mm_state" where
  "set_user_code_page PT pag m =
     (let (new_ph_pag, m) = alloc_frame m;
          a = dword_at PT (PAG_LOG_INIT_CODE + pag);
          m = pte_write a (\<lambda>_. 0) m;
          m = pte_write a (set_pbase_addr new_ph_pag) m;
          m = pte_write a (set_user 1) m
      in pte_write a (set_present 1) m)"

definition set_user_data_page :: "addr \<Rightarrow> nat \<Rightarrow> mm_state \<Rightarrow> mm_state" where
  "set_user_data_page PT pag m =
     (let (new_ph_pag, m) = alloc_frame m;
          a = dword_at PT (PAG_LOG_INIT_DATA + pag);
          m = pte_write a (\<lambda>_. 0) m;
          m = pte_write a (set_pbase_addr new_ph_pag) m;
          m = pte_write a (set_user 1) m;
          m = pte_write a (set_rw 1) m
      in pte_write a (set_present 1) m)"

definition set_user_pages :: "task_struct \<Rightarrow> mm_state \<Rightarrow> mm_state" where
  "set_user_pages t m =
     (let process_PT = get_PT t (pte m);
          m = fold (set_user_code_page process_PT) [0..<NUM_PAG_CODE] m
      in fold (set_user_data_page process_PT) [0..<NUM_PAG_DATA] m)"

definition free_user_page :: "addr \<Rightarrow> nat \<Rightarrow> mm_state \<Rightarrow> mm_state" where
  "free_user_page PT pag m =
     (let m = free_frame (pte_pbase_addr (pte m (dword_at PT (PAG_LOG_INIT_DATA + pag)))) m
      in pte_write (dword_at PT (PAG_LOG_INIT_DATA + pag)) (\<lambda>_. 0) m)"

definition free_user_pages :: "task_struct \<Rightarrow> mm_state \<Rightarrow> mm_state" where
  "free_user_pages t m =
     (let process_PT = get_PT t (pte m)
      in fold (free_user_page process_PT) [0..<NUM_PAG_DATA] m)"

section \<open>Control registers and the page walk\<close>

definition set_cr3 :: "addr \<Rightarrow> mm_state \<Rightarrow> mm_state" where
  "set_cr3 dir m = m\<lparr>cr3 := dir\<rparr>"

definition set_pe_flag :: "mm_state \<Rightarrow> mm_state" where
  "set_pe_flag m = m\<lparr>cr0 := cr0 m OR 0x80000000\<rparr>"

text \<open>
  The translation of the IA-32 paging unit for 4 KB pages, in supervisor mode: both the
  directory and the table entry must be present.  It is what the code relies on when it
  remaps a page and copies through it; no part of the repository computes it.
\<close>

definition page_entry :: "(addr \<Rightarrow> page_table_entry) \<Rightarrow> addr \<Rightarrow> addr \<Rightarrow> page_table_entry option" where
  "page_entry ptes dir a =
     (let pde = ptes ((dir AND 0xfffff000) + 4 * drop_bit 22 a)
      in if pte_present pde = 0 then None
         else let e = ptes (push_bit 12 (pte_pbase_addr pde) + 4 * (drop_bit 12 a AND 0x3ff))
              in if pte_present e = 0 then None else Some e)"

definition translate :: "mm_state \<Rightarrow> translation" where
  "translate m a =
     (if bit (cr0 m) 31
      then map_option (\<lambda>e. push_bit 12 (pte_pbase_addr e) OR (a AND 0xfff)) (page_entry (pte m) (cr3 m) a)
      else Some a)"

lemma translate_ram [simp]: "translate (ram_update f m) = translate m"
  by (simp add: translate_def fun_eq_iff)

text \<open>\<^verbatim>\<open>init_mm\<close> of mm.c; it also writes the directory address of task 0.\<close>

definition init_mm :: "layout \<Rightarrow> task_struct \<Rightarrow> mm_state \<Rightarrow> task_struct \<times> mm_state" where
  "init_mm L t0 m =
     (let m = init_table_pages L m;
          m = init_frames m;
          m = init_dir_pages L m;
          (_, t0) = allocate_DIR L (task_at L 0) t0;
          m = set_cr3 (get_DIR t0) m
      in (t0, set_pe_flag m))"

section \<open>The frame allocator and its contract\<close>

text \<open>
  \<^verbatim>\<open>alloc_frame\<close> looks at every second frame only; \<open>avail\<close> is the set of frames it can still
  hand out.  \<^verbatim>\<open>free_frame\<close> refuses frame 256, the first one \<^verbatim>\<open>alloc_frame\<close> ever returns.
\<close>

definition avail :: "mm_state \<Rightarrow> nat set" where
  "avail m = {f. NUM_PAG_KERNEL \<le> f \<and> f < TOTAL_PAGES \<and> even f \<and> phys_mem m f = FREE_FRAME}"

definition returnable :: "nat set" where
  "returnable = {f. NUM_PAG_KERNEL < f \<and> f < TOTAL_PAGES \<and> even f}"

lemma finite_avail [simp]: "finite (avail m)"
  by (rule finite_subset [of _ "{..<1024}"]) (auto simp: avail_def)

lemma set_frame_simps [simp]:
  "phys_mem (set_frame i b m) = (phys_mem m)(i := b)"
  "pte (set_frame i b m) = pte m" "ram (set_frame i b m) = ram m"
  "cr3 (set_frame i b m) = cr3 m" "cr0 (set_frame i b m) = cr0 m"
  by (simp_all add: set_frame_def)

lemma pte_write_simps [simp]:
  "pte (pte_write a f m) = (pte m)(a := f (pte m a))"
  "phys_mem (pte_write a f m) = phys_mem m" "ram (pte_write a f m) = ram m"
  "cr3 (pte_write a f m) = cr3 m" "cr0 (pte_write a f m) = cr0 m"
  by (simp_all add: pte_write_def)

lemma avail_phys_cong: "phys_mem m = phys_mem m' \<Longrightarrow> avail m = avail m'"
  by (simp add: avail_def)

lemma avail_pte_write [simp]: "avail (pte_write a f m) = avail m"
  by (simp add: avail_def)

lemma avail_use: "avail (set_frame f USED_FRAME m) = avail m - {f}"
  by (auto simp: avail_def)

text \<open>The scan finds the least available frame at or after an even starting point.\<close>

lemma alloc_frame_from_found:
  assumes "even i" and "256 \<le> i" and "f \<in> avail m" and "i \<le> f"
    and "\<And>g. g \<in> avail m \<Longrightarrow> i \<le> g \<Longrightarrow> f \<le> g"
  shows "alloc_frame_from i m = (of_nat f, set_frame f USED_FRAME m)"
  using assms
proof (induction i m rule: alloc_frame_from.induct)
  case (1 i m)
  have f: "f < 1024" "even f" "phys_mem m f = 0"
    using 1 by (auto simp: avail_def)
  show ?case
  proof (cases "phys_mem m i = FREE_FRAME")
    case True
    then have "i \<in> avail m"
      using 1 f by (auto simp: avail_def)
    then have "i = f"
      using 1(5) 1(6) [of i] by auto
    with True f show ?thesis
      by (simp add: alloc_frame_from.simps)
  next
    case False
    then have "i \<noteq> f"
      using f by auto
    then have "i + 2 \<le> f"
      using 1(2,5) f(2) by presburger
    then have "alloc_frame_from (i + 2) m = (of_nat f, set_frame f USED_FRAME m)"
      using 1 False f by (intro 1(1)) auto
    with False f 1(5) show ?thesis
      by (simp add: alloc_frame_from.simps [of i])
  qed
qed

lemma alloc_frame_from_none:
  assumes "even i" and "256 \<le> i" and "\<And>g. g \<in> avail m \<Longrightarrow> g < i"
  shows "alloc_frame_from i m = (-1, m)"
  using assms
proof (induction i m rule: alloc_frame_from.induct)
  case (1 i m)
  show ?case
  proof (cases "i < 1024")
    case True
    then have "phys_mem m i \<noteq> FREE_FRAME"
      using 1(2-4) by (auto simp: avail_def)
    moreover have "alloc_frame_from (i + 2) m = (-1, m)"
      using 1 True calculation by (intro 1(1)) (auto intro: less_trans)
    ultimately show ?thesis
      by (simp add: alloc_frame_from.simps [of i])
  next
    case False
    then show ?thesis
      by (simp add: alloc_frame_from.simps)
  qed
qed

lemma alloc_frame_some:
  assumes "avail m \<noteq> {}"
  shows "alloc_frame m = (of_nat (Min (avail m)), set_frame (Min (avail m)) USED_FRAME m)"
proof -
  have "Min (avail m) \<in> avail m"
    using assms by (intro Min_in) simp_all
  then show ?thesis
    unfolding alloc_frame_def
    by (intro alloc_frame_from_found) (auto simp: avail_def)
qed

lemma alloc_frame_none: "avail m = {} \<Longrightarrow> alloc_frame m = (-1, m)"
  unfolding alloc_frame_def by (rule alloc_frame_from_none) auto

lemma word_frame_bounds:
  "(256 :: dword) < of_nat f \<longleftrightarrow> 256 < f" "(of_nat f :: dword) < 1024 \<longleftrightarrow> f < 1024" if "f < 2 ^ 32"
  using that by (simp_all add: word_less_nat_alt unat_of_nat)

lemma free_frame_avail:
  assumes "f \<in> returnable"
  shows "avail (free_frame (of_nat f) m) = insert f (avail m)"
    and "free_frame (of_nat f) m = set_frame f FREE_FRAME m"
proof -
  have f: "256 < f" "f < 1024" "even f"
    using assms by (auto simp: returnable_def)
  then show eq: "free_frame (of_nat f) m = set_frame f FREE_FRAME m"
    using word_frame_bounds [of f] by (simp add: free_frame_def unat_of_nat)
  show "avail (free_frame (of_nat f) m) = insert f (avail m)"
    unfolding eq using f by (auto simp: avail_def)
qed

text \<open>
  The interface the rest of the kernel uses: allocation takes the least available frame and
  reports exhaustion with -1 and no change; freeing makes a returnable frame available again.
\<close>

fun alloc_many :: "('s \<Rightarrow> cint \<times> 's) \<Rightarrow> nat \<Rightarrow> 's \<Rightarrow> cint list \<times> 's" where
  "alloc_many alloc 0 s = ([], s)"
| "alloc_many alloc (Suc n) s =
     (let (f, s) = alloc s; (fs, s) = alloc_many alloc n s in (f # fs, s))"

locale frame_allocator =
  fixes free_set :: "'s \<Rightarrow> nat set"
    and alloc :: "'s \<Rightarrow> cint \<times> 's"
    and free :: "cint \<Rightarrow> 's \<Rightarrow> 's"
    and freeable :: "nat set"
  assumes free_set_range: "f \<in> free_set s \<Longrightarrow> 256 \<le> f \<and> f < 1024"
    and alloc_some: "free_set s \<noteq> {} \<Longrightarrow>
      fst (alloc s) = of_nat (Min (free_set s)) \<and>
      free_set (snd (alloc s)) = free_set s - {Min (free_set s)}"
    and alloc_none: "free_set s = {} \<Longrightarrow> alloc s = (-1, s)"
    and free_freeable: "f \<in> freeable \<Longrightarrow> free_set (free (of_nat f) s) = insert f (free_set s)"
begin

lemma finite_free_set: "finite (free_set s)"
  by (rule finite_subset [of _ "{..<1024}"]) (use free_set_range in auto)

lemma min_free: "free_set s \<noteq> {} \<Longrightarrow> Min (free_set s) \<in> free_set s"
  by (rule Min_in [OF finite_free_set])

text \<open>A frame number is never the error code.\<close>

lemma alloc_result_nonneg:
  assumes "free_set s \<noteq> {}"
  shows "fst (alloc s) \<noteq> -1" and "unat (fst (alloc s)) = Min (free_set s)"
proof -
  have "Min (free_set s) < 1024"
    using min_free [OF assms] free_set_range by blast
  then show u: "unat (fst (alloc s)) = Min (free_set s)"
    using alloc_some [OF assms] by (simp add: unat_of_nat)
  show "fst (alloc s) \<noteq> -1"
  proof
    assume "fst (alloc s) = -1"
    then have "unat (fst (alloc s)) = 4294967295"
      by (simp only: unat_minus_1_32)
    with u \<open>Min (free_set s) < 1024\<close> show False by simp
  qed
qed

lemma card_after_alloc: "free_set s \<noteq> {} \<Longrightarrow> card (free_set (snd (alloc s))) = card (free_set s) - 1"
  using alloc_some [of s] min_free [of s] by simp

text \<open>A run of allocations hands out the least frames in ascending order.\<close>

lemma alloc_many_takes:
  assumes "n \<le> card (free_set s)"
  shows "fst (alloc_many alloc n s) = map of_nat (take n (sorted_list_of_set (free_set s)))"
    and "free_set (snd (alloc_many alloc n s)) =
      free_set s - set (take n (sorted_list_of_set (free_set s)))"
  using assms
proof (induction n arbitrary: s)
  case (Suc n)
  {
    case 1
    then have ne: "free_set s \<noteq> {}" by auto
    have srt: "sorted_list_of_set (free_set s) =
        Min (free_set s) # sorted_list_of_set (free_set s - {Min (free_set s)})"
      using ne finite_free_set by (rule sorted_list_of_set_nonempty [rotated])
    have "n \<le> card (free_set (snd (alloc s)))"
      using 1 card_after_alloc [OF ne] by simp
    from Suc.IH(1) [OF this] show ?case
      using alloc_some [OF ne] by (simp add: case_prod_beta Let_def srt)
  next
    case 2
    then have ne: "free_set s \<noteq> {}" by auto
    have srt: "sorted_list_of_set (free_set s) =
        Min (free_set s) # sorted_list_of_set (free_set s - {Min (free_set s)})"
      using ne finite_free_set by (rule sorted_list_of_set_nonempty [rotated])
    have "n \<le> card (free_set (snd (alloc s)))"
      using 2 card_after_alloc [OF ne] by simp
    from Suc.IH(2) [OF this] show ?case
      using alloc_some [OF ne] by (auto simp: case_prod_beta Let_def srt)
  }
qed simp_all

end

interpretation fa: frame_allocator avail alloc_frame free_frame returnable
proof unfold_locales
  fix f :: nat and s :: mm_state
  show "256 \<le> f \<and> f < 1024" if "f \<in> avail s"
    using that by (simp add: avail_def)
  show "fst (alloc_frame s) = of_nat (Min (avail s)) \<and>
      avail (snd (alloc_frame s)) = avail s - {Min (avail s)}" if "avail s \<noteq> {}"
    using alloc_frame_some [OF that] by (simp add: avail_use)
  show "alloc_frame s = (-1, s)" if "avail s = {}"
    using that by (rule alloc_frame_none)
  show "avail (free_frame (of_nat f) s) = insert f (avail s)" if "f \<in> returnable"
    using that by (rule free_frame_avail)
qed

end
