(* ===== verification/AddrSpace.thy ===== *)
theory AddrSpace
  imports MM
begin

text \<open>
  Address spaces as the code builds them: one page directory whose first entry points to one
  page table of 1024 entries.  This theory holds the algebra of page table updates (a locale
  over any store of page tables, interpreted on mm.c's functions) and what the processor's
  walk yields in a space of this shape.
\<close>

section \<open>Page table updates\<close>

text \<open>The entry that \<^verbatim>\<open>set_ss_pag\<close> leaves behind: the frame, with user, rw and present set.\<close>

definition ss_entry :: "dword \<Rightarrow> page_table_entry" where
  "ss_entry f = set_present 1 (set_rw 1 (set_user 1 (set_pbase_addr f 0)))"

lemma ss_entry_fields [simp]:
  "pte_present (ss_entry f) = 1" "pte_rw (ss_entry f) = 1" "pte_user (ss_entry f) = 1"
  "pte_pbase_addr (ss_entry f) = f AND mask 20"
  by (simp_all add: ss_entry_def)

lemma mm_state_eqI:
  fixes m m' :: mm_state
  assumes "phys_mem m = phys_mem m'" "pte m = pte m'" "ram m = ram m'" "cr3 m = cr3 m'" "cr0 m = cr0 m'"
  shows "m = m'"
  using assms by (intro mm_state.equality) simp_all

lemma set_ss_pag_eq: "set_ss_pag PT p f m = pte_write (dword_at PT p) (\<lambda>_. ss_entry f) m"
  by (rule mm_state_eqI) (simp_all add: set_ss_pag_def ss_entry_def Let_def)

lemma unat_4p: "p < 1024 \<Longrightarrow> unat (4 * of_nat p :: dword) = 4 * p"
  by (simp add: unat_word_ariths unat_of_nat)

lemma page_slot_inj:
  assumes "page_aligned PT" "page_aligned PT'" "p < 1024" "p' < 1024"
  shows "dword_at PT p = dword_at PT' p' \<longleftrightarrow> PT = PT' \<and> p = p'"
proof
  assume eq: "dword_at PT p = dword_at PT' p'"
  have off: "unat (4 * of_nat p :: dword) < 4096" "unat (4 * of_nat p' :: dword) < 4096"
    using assms by (simp_all add: unat_4p)
  have "PT = PT'"
    using eq page_offset(1) [OF assms(1) off(1)] page_offset(1) [OF assms(2) off(2)]
    by (simp add: dword_at_def)
  moreover have "(4 * of_nat p :: dword) = 4 * of_nat p'"
    using eq page_offset(2) [OF assms(1) off(1)] page_offset(2) [OF assms(2) off(2)]
    by (simp add: dword_at_def)
  then have "4 * p = 4 * p'"
    using assms(3,4) by (metis unat_4p)
  ultimately show "PT = PT' \<and> p = p'"
    by simp
qed auto

text \<open>
  A store of page tables: pages are mapped and unmapped one at a time, and a change to one
  page of one table leaves every other page of every table alone.
\<close>

locale page_store =
  fixes entry :: "'s \<Rightarrow> addr \<Rightarrow> nat \<Rightarrow> page_table_entry"
    and map_page :: "addr \<Rightarrow> nat \<Rightarrow> dword \<Rightarrow> 's \<Rightarrow> 's"
    and unmap_page :: "addr \<Rightarrow> nat \<Rightarrow> 's \<Rightarrow> 's"
    and table :: "addr \<Rightarrow> bool"
  assumes entry_map:
      "table PT \<Longrightarrow> table PT' \<Longrightarrow> p < 1024 \<Longrightarrow> p' < 1024 \<Longrightarrow>
       entry (map_page PT p f s) PT' p' = (if PT' = PT \<and> p' = p then ss_entry f else entry s PT' p')"
    and entry_unmap:
      "table PT \<Longrightarrow> table PT' \<Longrightarrow> p < 1024 \<Longrightarrow> p' < 1024 \<Longrightarrow>
       entry (unmap_page PT p s) PT' p' = (if PT' = PT \<and> p' = p then 0 else entry s PT' p')"
begin

text \<open>A loop that maps the pages \<open>b, b + 1, \<dots>, b + n - 1\<close> of one table.\<close>

lemma entry_map_loop:
  assumes "table PT" "table PT'" "b + n \<le> 1024" "p' < 1024"
  shows "entry (fold (\<lambda>k. map_page PT (b + k) (g k)) [0..<n] s) PT' p' =
    (if PT' = PT \<and> b \<le> p' \<and> p' < b + n then ss_entry (g (p' - b)) else entry s PT' p')"
  using assms(3)
proof (induction n)
  case (Suc n)
  then show ?case
    using assms(1,2,4) by (auto simp: entry_map less_Suc_eq_le)
qed auto

lemma entry_unmap_loop:
  assumes "table PT" "table PT'" "b + n \<le> 1024" "p' < 1024"
  shows "entry (fold (\<lambda>k. unmap_page PT (b + k)) [0..<n] s) PT' p' =
    (if PT' = PT \<and> b \<le> p' \<and> p' < b + n then 0 else entry s PT' p')"
  using assms(3)
proof (induction n)
  case (Suc n)
  then show ?case
    using assms(1,2,4) by (auto simp: entry_unmap less_Suc_eq_le)
qed auto

text \<open>Mapping a page for a moment and unmapping it again is not seen by the other pages.\<close>

lemma entry_map_unmap:
  assumes "table PT" "table PT'" "p < 1024" "p' < 1024"
  shows "entry (unmap_page PT p (map_page PT p f s)) PT' p' =
    (if PT' = PT \<and> p' = p then 0 else entry s PT' p')"
  using assms by (simp add: entry_map entry_unmap)

end

definition pt_entry :: "mm_state \<Rightarrow> addr \<Rightarrow> nat \<Rightarrow> page_table_entry" where
  "pt_entry m PT p = pte m (dword_at PT p)"

interpretation ps: page_store pt_entry set_ss_pag del_ss_pag page_aligned
  by unfold_locales
    (auto simp: pt_entry_def set_ss_pag_eq del_ss_pag_def page_slot_inj)

lemma get_frame_entry: "get_frame PT p m = pte_pbase_addr (pt_entry m PT p)"
  by (simp add: get_frame_def pt_entry_def)

lemma set_ss_pag_simps [simp]:
  "phys_mem (set_ss_pag PT p f m) = phys_mem m" "ram (set_ss_pag PT p f m) = ram m"
  "cr3 (set_ss_pag PT p f m) = cr3 m" "cr0 (set_ss_pag PT p f m) = cr0 m"
  by (simp_all add: set_ss_pag_eq)

lemma del_ss_pag_simps [simp]:
  "phys_mem (del_ss_pag PT p m) = phys_mem m" "ram (del_ss_pag PT p m) = ram m"
  "cr3 (del_ss_pag PT p m) = cr3 m" "cr0 (del_ss_pag PT p m) = cr0 m"
  by (simp_all add: del_ss_pag_def)

lemma free_frame_simps [simp]:
  "pte (free_frame f m) = pte m" "ram (free_frame f m) = ram m"
  "cr3 (free_frame f m) = cr3 m" "cr0 (free_frame f m) = cr0 m"
  by (simp_all add: free_frame_def)

lemma pt_entry_free_frame [simp]: "pt_entry (free_frame f m) = pt_entry m"
  by (simp add: pt_entry_def fun_eq_iff)

lemma pt_entry_set_frame [simp]: "pt_entry (set_frame f b m) = pt_entry m"
  by (simp add: pt_entry_def fun_eq_iff)

lemma alloc_frame_simps [simp]:
  "pte (snd (alloc_frame m)) = pte m" "ram (snd (alloc_frame m)) = ram m"
  "cr3 (snd (alloc_frame m)) = cr3 m" "cr0 (snd (alloc_frame m)) = cr0 m"
  by (cases "avail m = {}"; simp add: alloc_frame_none alloc_frame_some)+

lemma pt_entry_alloc_frame [simp]: "pt_entry (snd (alloc_frame m)) = pt_entry m"
  by (simp add: pt_entry_def fun_eq_iff)

section \<open>Logical pages and physical frames\<close>

text \<open>The address of byte \<open>k\<close> of page or frame \<open>p\<close>.\<close>

definition page_addr :: "nat \<Rightarrow> nat \<Rightarrow> addr" where
  "page_addr p k = push_bit 12 (of_nat p) + of_nat k"

lemma unat_page_addr:
  assumes "p < 2 ^ 20" "k < 4096"
  shows "unat (page_addr p k) = p * 4096 + k"
proof -
  have "page_addr p k = of_nat (p * 4096 + k)"
    by (simp add: page_addr_def push_bit_eq_mult)
  moreover have "p * 4096 + k < 2 ^ 32"
    using assms by simp
  ultimately show ?thesis
    by (simp only: unat_of_nat) simp
qed

lemma page_addr_inj:
  assumes "p < 2 ^ 20" "k < 4096" "p' < 2 ^ 20" "k' < 4096"
  shows "page_addr p k = page_addr p' k' \<longleftrightarrow> p = p' \<and> k = k'"
proof
  assume "page_addr p k = page_addr p' k'"
  then have eq: "p * 4096 + k = p' * 4096 + k'"
    using assms by (metis unat_page_addr)
  have "p = (p * 4096 + k) div 4096" "p' = (p' * 4096 + k') div 4096"
    using assms by simp_all
  with eq have "p = p'" by simp
  with eq show "p = p' \<and> k = k'" by simp
qed simp

lemma page_aligned_page_addr: "p < 2 ^ 20 \<Longrightarrow> page_aligned (page_addr p 0)"
  by (simp add: page_aligned_nat unat_page_addr)

lemma page_addr_split: "page_addr p k = page_addr p 0 + of_nat k"
  by (simp add: page_addr_def)

lemma byte_at_page_addr: "byte_at (page_addr p 0) k = page_addr p k"
  by (simp add: byte_at_def page_addr_def)

text \<open>
  The walk in a space of the shape the code builds: paging is on, cr3 holds the directory
  \<open>D\<close>, whose first entry is present and points to the table \<open>PT\<close>.
\<close>

definition space :: "mm_state \<Rightarrow> addr \<Rightarrow> addr \<Rightarrow> bool" where
  "space m D PT \<longleftrightarrow> bit (cr0 m) 31 \<and> cr3 m = D \<and> page_aligned D \<and>
     pte_present (pte m D) = 1 \<and> push_bit 12 (pte_pbase_addr (pte m D)) = PT"

lemma walk_page:
  assumes sp: "space m D PT" and p: "p < 1024" and k: "k < 4096"
  shows "(D AND 0xfffff000) + 4 * drop_bit 22 (page_addr p k) = D"
    and "page_entry (pte m) D (page_addr p k) =
      (if pte_present (pt_entry m PT p) = 0 then None else Some (pt_entry m PT p))"
proof -
  have u: "unat (page_addr p k) = p * 4096 + k"
    using p k by (simp add: unat_page_addr)
  have top: "drop_bit 22 (page_addr p k) = 0"
    using p k u by (intro unsigned_word_eqI [where ?'a = nat])
      (simp add: drop_bit_eq_div unat_div)
  have pg: "drop_bit 12 (page_addr p k) AND 0x3ff = of_nat p"
  proof (rule unsigned_word_eqI [where ?'a = nat])
    have "unat (drop_bit 12 (page_addr p k)) = p"
      using k by (simp add: unat_page u)
    then show "unat (drop_bit 12 (page_addr p k) AND 0x3ff) = unat (of_nat p :: dword)"
      unfolding mask_numerals take_bit_eq_mask [symmetric] unsigned_take_bit_eq
      using p by (simp add: take_bit_nat_eq_self unat_of_nat)
  qed
  have D: "D AND 0xfffff000 = D"
    using page_offset(1) [of D 0] sp by (simp add: space_def)
  show "(D AND 0xfffff000) + 4 * drop_bit 22 (page_addr p k) = D"
    by (simp add: top D)
  show "page_entry (pte m) D (page_addr p k) =
      (if pte_present (pt_entry m PT p) = 0 then None else Some (pt_entry m PT p))"
    using sp by (simp add: page_entry_def Let_def top pg D space_def pt_entry_def dword_at_def)
qed

lemma translate_page:
  assumes sp: "space m D PT" and p: "p < 1024" and k: "k < 4096"
  shows "translate m (page_addr p k) =
    (if pte_present (pt_entry m PT p) = 0 then None
     else Some (page_addr (unat (get_frame PT p m)) k))"
proof -
  have p20: "p < 2 ^ 20"
    using p by simp
  have kk: "unat (of_nat k :: dword) < 4096"
    using k by (simp add: unat_of_nat)
  have offs: "page_addr p k AND 0xfff = of_nat k"
    using page_offset(2) [OF page_aligned_page_addr [OF p20] kk] by (simp flip: page_addr_split)
  have join: "push_bit 12 f OR of_nat k = page_addr (unat f) k" for f :: dword
  proof -
    have "push_bit 12 f OR of_nat k = push_bit 12 f + (of_nat k :: dword)"
    proof (rule disjunctive_add_eq_or [symmetric], rule bit_word_eqI)
      fix n
      have "take_bit 12 (of_nat k :: dword) = of_nat k"
        using k by (intro unsigned_word_eqI [where ?'a = nat])
          (simp add: unsigned_take_bit_eq take_bit_nat_eq_self unat_of_nat)
      then have "bit (of_nat k :: dword) n \<Longrightarrow> n < 12"
        by (metis bit_take_bit_iff)
      then show "bit (push_bit 12 f AND of_nat k) n = bit (0 :: dword) n"
        by (auto simp: bit_simps)
    qed
    then show ?thesis
      by (simp add: page_addr_def)
  qed
  note pe = walk_page(2) [OF assms]
  show ?thesis
    using sp pe by (simp add: translate_def space_def offs join get_frame_entry)
qed

end
