(* ===== verification/Console.thy ===== *)
theory Console
  imports Utils
begin

text \<open>
  io.c and devices.c: the text console.  Its state is the cursor \<open>(x, y)\<close>, the video memory
  as 16 bit cells by address, and the bytes sent to the debug port 0xe9 so far.
\<close>

record console =
  con_x :: byte
  con_y :: byte
  video :: "addr \<Rightarrow> hword"
  port_e9 :: "byte list"

abbreviation (input) NUM_COLUMNS :: "'a::numeral" where "NUM_COLUMNS \<equiv> 80"
abbreviation (input) NUM_ROWS :: "'a::numeral" where "NUM_ROWS \<equiv> 25"
abbreviation (input) NEWLINE :: byte where "NEWLINE \<equiv> 10"

section \<open>Operations\<close>

text \<open>\<^verbatim>\<open>y=(y+1)%NUM_ROWS\<close> is computed on ints, so 255 + 1 does not wrap before the remainder.\<close>

definition next_row :: "byte \<Rightarrow> byte" where
  "next_row y = of_nat ((unat y + 1) mod NUM_ROWS)"

definition screen_addr :: "byte \<Rightarrow> byte \<Rightarrow> addr" where
  "screen_addr x y = 0xb8000 + (ucast y * NUM_COLUMNS + ucast x) * 2"

definition printc :: "byte \<Rightarrow> console \<Rightarrow> console" where
  "printc c con =
     (let con = con\<lparr>port_e9 := port_e9 con @ [c]\<rparr>
      in if c = NEWLINE then con\<lparr>con_x := 0, con_y := next_row (con_y con)\<rparr>
         else
           let ch = ucast c OR 0x0200 :: hword;
               screen = screen_addr (con_x con) (con_y con);
               con = con\<lparr>con_x := con_x con + 1\<rparr>;
               con = (if NUM_COLUMNS \<le> con_x con
                      then con\<lparr>con_x := 0, con_y := next_row (con_y con)\<rparr> else con)
           in con\<lparr>video := (video con)(screen := ch)\<rparr>)"

definition printc_xy :: "byte \<Rightarrow> byte \<Rightarrow> byte \<Rightarrow> console \<Rightarrow> console" where
  "printc_xy mx my c con =
     (let cx = con_x con;
          cy = con_y con;
          con = con\<lparr>con_x := mx, con_y := my\<rparr>;
          con = printc c con
      in con\<lparr>con_x := cx, con_y := cy\<rparr>)"

text \<open>The argument of \<^verbatim>\<open>printk\<close> is the bytes from the pointer on; printing stops at the first NUL.\<close>

fun printk :: "byte list \<Rightarrow> console \<Rightarrow> console" where
  "printk [] con = con"
| "printk (c # cs) con = (if c = 0 then con else printk cs (printc c con))"

text \<open>devices.c; the buffer is read through the address translation.\<close>

function write_console_from ::
  "translation \<Rightarrow> memory \<Rightarrow> addr \<Rightarrow> int \<Rightarrow> int \<Rightarrow> console \<Rightarrow> console option" where
  "write_console_from tr m buffer i sz con =
     (if i < sz then do {
        c \<leftarrow> load_byte tr m (buffer + of_int i);
        write_console_from tr m buffer (i + 1) sz (printc c con) }
      else Some con)"
  by pat_completeness auto
termination
  by (relation "measure (\<lambda>(tr, m, buffer, i, sz, con). nat (sz - i))") auto

declare write_console_from.simps [simp del]

definition sys_write_console ::
  "translation \<Rightarrow> memory \<Rightarrow> addr \<Rightarrow> int \<Rightarrow> console \<Rightarrow> (int \<times> console) option" where
  "sys_write_console tr m buffer sz con = do {
     con \<leftarrow> write_console_from tr m buffer 0 sz con;
     Some (sz, con) }"

section \<open>The cursor as a position on the screen\<close>

text \<open>
  The cursor is well formed when it is on the screen; its position counts the cells row by
  row.  The reference machine for the console is this one number: a newline goes to the
  start of the next row, any other character one cell further, both modulo the 2000 cells.
\<close>

definition cursor_ok :: "console \<Rightarrow> bool" where
  "cursor_ok con \<longleftrightarrow> con_x con < NUM_COLUMNS \<and> con_y con < NUM_ROWS"

definition cursor_pos :: "console \<Rightarrow> nat" where
  "cursor_pos con = unat (con_y con) * 80 + unat (con_x con)"

definition advance :: "byte \<Rightarrow> nat \<Rightarrow> nat" where
  "advance c p = (if c = NEWLINE then ((p div 80 + 1) * 80) mod 2000 else (p + 1) mod 2000)"

definition print_all :: "byte list \<Rightarrow> console \<Rightarrow> console" where
  "print_all cs con = fold printc cs con"

lemma cursor_ok_nat: "cursor_ok con \<longleftrightarrow> unat (con_x con) < 80 \<and> unat (con_y con) < 25"
  by (simp add: cursor_ok_def word_less_nat_alt)

lemma cursor_pos_less: "cursor_ok con \<Longrightarrow> cursor_pos con < 2000"
  by (simp add: cursor_ok_nat cursor_pos_def)

lemma cursor_pos_div: "cursor_ok con \<Longrightarrow> cursor_pos con div 80 = unat (con_y con)"
  by (simp add: cursor_ok_nat cursor_pos_def)

lemma unat_next_row: "unat (next_row y) = (unat y + 1) mod 25"
proof -
  have "(unat y + 1) mod 25 < 256"
    by (rule less_trans [of _ 25]) simp_all
  then show ?thesis
    by (simp only: next_row_def unat_of_nat) simp
qed

lemma screen_addr_pos: "screen_addr (con_x con) (con_y con) = 0xb8000 + 2 * of_nat (cursor_pos con)"
  by (simp add: screen_addr_def cursor_pos_def algebra_simps)

lemma unat_x_step: "unat (x :: byte) < 80 \<Longrightarrow> unat (x + 1) = unat x + 1"
  by (simp add: unat_word_ariths)

lemma printc_cursor:
  assumes "cursor_ok con"
  shows "cursor_ok (printc c con)" and "cursor_pos (printc c con) = advance c (cursor_pos con)"
proof -
  have x: "unat (con_x con) < 80" and y: "unat (con_y con) < 25"
    using assms by (simp_all add: cursor_ok_nat)
  note step = unat_x_step [OF x]
  have wrap: "NUM_COLUMNS \<le> con_x con + 1 \<longleftrightarrow> unat (con_x con) = 79"
    using x by (auto simp: word_le_nat_alt step)
  show "cursor_ok (printc c con)"
    using x y by (auto simp: printc_def Let_def cursor_ok_nat unat_next_row wrap step)
  have row: "((unat (con_y con) + 1) mod 25) * 80 = ((unat (con_y con) + 1) * 80) mod 2000"
    using y by (cases "unat (con_y con) = 24") auto
  show "cursor_pos (printc c con) = advance c (cursor_pos con)"
  proof (cases "c = NEWLINE")
    case True
    then show ?thesis
      using row cursor_pos_div [OF assms]
      by (simp add: printc_def Let_def advance_def cursor_pos_def unat_next_row)
  next
    case False
    show ?thesis
    proof (cases "unat (con_x con) = 79")
      case True
      with False row wrap show ?thesis
        by (simp add: printc_def Let_def advance_def cursor_pos_def unat_next_row)
    next
      case F: False
      have "unat (con_y con) * 80 + (unat (con_x con) + 1) < 2000"
        using x y F by simp
      with False F wrap step show ?thesis
        by (simp add: printc_def Let_def advance_def cursor_pos_def)
    qed
  qed
qed

lemma printc_port [simp]: "port_e9 (printc c con) = port_e9 con @ [c]"
  by (simp add: printc_def Let_def)

lemma printc_video:
  "video (printc c con) =
     (if c = NEWLINE then video con
      else (video con)(0xb8000 + 2 * of_nat (cursor_pos con) := ucast c OR 0x0200))"
  by (simp add: printc_def Let_def flip: screen_addr_pos)

lemma print_all_simps [simp]:
  "print_all [] con = con"
  "print_all (c # cs) con = print_all cs (printc c con)"
  by (simp_all add: print_all_def)

lemma print_all_append: "print_all (xs @ ys) con = print_all ys (print_all xs con)"
  by (simp add: print_all_def)

lemma print_all_port [simp]: "port_e9 (print_all cs con) = port_e9 con @ cs"
  by (induction cs arbitrary: con) auto

lemma print_all_cursor:
  "cursor_ok con \<Longrightarrow> cursor_ok (print_all cs con) \<and>
     cursor_pos (print_all cs con) = fold advance cs (cursor_pos con)"
  by (induction cs arbitrary: con) (auto simp: printc_cursor)

text \<open>Whatever is printed, only the 2000 cells of the screen are written.\<close>

definition on_screen :: "addr \<Rightarrow> bool" where
  "on_screen a \<longleftrightarrow> (\<exists>p < 2000. a = 0xb8000 + 2 * of_nat p)"

lemma print_all_frame:
  "cursor_ok con \<Longrightarrow> \<not> on_screen a \<Longrightarrow> video (print_all cs con) a = video con a"
proof (induction cs arbitrary: con)
  case (Cons c cs)
  have "a \<noteq> 0xb8000 + 2 * of_nat (cursor_pos con)"
    using Cons.prems cursor_pos_less by (auto simp: on_screen_def)
  with Cons show ?case
    by (simp add: printc_cursor printc_video)
qed simp

lemma printk_print_all: "printk cs con = print_all (takeWhile (\<lambda>c. c \<noteq> 0) cs) con"
  by (induction cs arbitrary: con) auto

lemma printc_xy_cursor [simp]:
  "con_x (printc_xy mx my c con) = con_x con" "con_y (printc_xy mx my c con) = con_y con"
  by (simp_all add: printc_xy_def Let_def)

text \<open>The bytes at \<open>P 0 \<dots> P (n - 1)\<close>, and the console write of a mapped buffer.\<close>

definition bytes_at :: "memory \<Rightarrow> (nat \<Rightarrow> addr) \<Rightarrow> nat \<Rightarrow> byte list" where
  "bytes_at m P n = map (\<lambda>k. m (P k)) [0..<n]"

lemma write_console_from_all:
  assumes "mapped tr a n P" and "k \<le> n"
  shows "write_console_from tr m a (int k) (int n) con
      = Some (print_all (map (\<lambda>k. m (P k)) [k..<n]) con)"
  using assms(2)
proof (induction "n - k" arbitrary: k con)
  case 0
  then show ?case by (simp add: write_console_from.simps)
next
  case (Suc d)
  then have k: "k < n" "d = n - Suc k"
    by auto
  have "tr (a + of_int (int k)) = Some (P k)"
    using assms(1) k(1) by (simp add: mapped_def byte_at_def)
  moreover have "write_console_from tr m a (int (Suc k)) (int n) (printc (m (P k)) con)
      = Some (print_all (map (\<lambda>k. m (P k)) [Suc k..<n]) (printc (m (P k)) con))"
    using k by (intro Suc.hyps(1)) auto
  ultimately show ?case
    using k(1)
    by (simp add: write_console_from.simps [of tr m a "int k"] load_byte_def upt_conv_Cons add.commute)
qed

lemma sys_write_console_mapped:
  assumes "mapped tr a n P"
  shows "sys_write_console tr m a (int n) con = Some (int n, print_all (bytes_at m P n) con)"
  using write_console_from_all [OF assms, of 0] by (simp add: sys_write_console_def bytes_at_def)

end
