(* ===== verification/Sched.thy ===== *)
theory Sched
  imports AddrSpace Console
begin

text \<open>
  sched.c, p_stats.c and the context switch of kernel-utils.S.  The kernel state collects
  what the C code keeps in global variables, the processor registers the switch saves and
  restores, and the stream of values that \<^verbatim>\<open>rdtsc\<close> will deliver.  Each function takes the
  layout and the state and returns the new state.

  The model does not follow the frames gcc lays out: \<open>esp\<close> is the stack pointer at the point
  where the kernel code under consideration calls on, and the operations that depend on the
  exact frame (\<^verbatim>\<open>task_switch\<close>, \<^verbatim>\<open>inner_task_switch\<close>, \<^verbatim>\<open>switch_stack\<close>, \<^verbatim>\<open>get_ebp\<close>) are modelled
  push by push.
\<close>

record cpu =
  esp :: dword
  ebp :: dword
  ebx :: dword
  esi :: dword
  edi :: dword
  eip :: addr
  eax :: dword
  ecx :: dword
  edx :: dword
  eflags :: dword
  sel_ds :: hword
  sel_es :: hword
  sel_fs :: hword
  sel_gs :: hword

record kernel =
  lists :: list_heap
  tasks :: "addr \<Rightarrow> task_struct"
  stack :: "addr \<Rightarrow> dword"
  mm :: mm_state
  tty :: console
  cpu :: cpu
  tss :: TSS
  msr :: "dword \<Rightarrow> dword \<times> dword"
  idle_task :: addr
  remaining_quantum :: cint
  global_PID :: cint
  zeos_ticks :: cint
  tsc :: "nat \<Rightarrow> 64 word"
  tsc_reads :: nat

abbreviation (input) DEFAULT_QUANTUM :: "'a::numeral" where "DEFAULT_QUANTUM \<equiv> 10"

section \<open>Elementary state changes\<close>

definition upd_task :: "addr \<Rightarrow> (task_struct \<Rightarrow> task_struct) \<Rightarrow> kernel \<Rightarrow> kernel" where
  "upd_task t f k = k\<lparr>tasks := (tasks k)(t := f (tasks k t))\<rparr>"

definition upd_cpu :: "(cpu \<Rightarrow> cpu) \<Rightarrow> kernel \<Rightarrow> kernel" where
  "upd_cpu f k = k\<lparr>cpu := f (cpu k)\<rparr>"

definition upd_lists :: "(list_heap \<Rightarrow> list_heap) \<Rightarrow> kernel \<Rightarrow> kernel" where
  "upd_lists f k = k\<lparr>lists := f (lists k)\<rparr>"

definition upd_mm :: "(mm_state \<Rightarrow> mm_state) \<Rightarrow> kernel \<Rightarrow> kernel" where
  "upd_mm f k = k\<lparr>mm := f (mm k)\<rparr>"

definition stack_write :: "addr \<Rightarrow> dword \<Rightarrow> kernel \<Rightarrow> kernel" where
  "stack_write a v k = k\<lparr>stack := (stack k)(a := v)\<rparr>"

definition push_dword :: "dword \<Rightarrow> kernel \<Rightarrow> kernel" where
  "push_dword v k =
     (let k = upd_cpu (\<lambda>c. c\<lparr>esp := esp c - 4\<rparr>) k in stack_write (esp (cpu k)) v k)"

definition pop_dword :: "kernel \<Rightarrow> dword \<times> kernel" where
  "pop_dword k = (stack k (esp (cpu k)), upd_cpu (\<lambda>c. c\<lparr>esp := esp c + 4\<rparr>) k)"

text \<open>
  \<^verbatim>\<open>current\<close> masks the address of its local variable, which lies below the return address
  and the saved frame pointer of the call.
\<close>

definition current :: "kernel \<Rightarrow> addr" where
  "current k = (esp (cpu k) - 12) AND 0xfffff000"

section \<open>Statistics\<close>

definition read_ticks :: "kernel \<Rightarrow> dword \<times> kernel" where
  "read_ticks k = (get_ticks (tsc k (tsc_reads k)), k\<lparr>tsc_reads := tsc_reads k + 1\<rparr>)"

text \<open>
  \<^verbatim>\<open>update_stats(v, elapsed)\<close> on the statistics of task \<open>t\<close>: every caller passes a pointer to one
  of its counters, given here by the update function of the field, and to its
  \<^verbatim>\<open>elapsed_total_ticks\<close>.
\<close>

definition update_stats ::
  "((dword \<Rightarrow> dword) \<Rightarrow> stats \<Rightarrow> stats) \<Rightarrow> addr \<Rightarrow> kernel \<Rightarrow> kernel" where
  "update_stats v_update t k =
     (let (current_ticks, k) = read_ticks k;
          elapsed = elapsed_total_ticks (p_stats (tasks k t));
          k = upd_task t (p_stats_update (v_update (\<lambda>v. v + (current_ticks - elapsed)))) k
      in upd_task t (p_stats_update (elapsed_total_ticks_update (\<lambda>_. current_ticks))) k)"

definition init_stats :: "addr \<Rightarrow> kernel \<Rightarrow> kernel" where
  "init_stats t k =
     (let k = upd_task t (p_stats_update (user_ticks_update (\<lambda>_. 0))) k;
          k = upd_task t (p_stats_update (system_ticks_update (\<lambda>_. 0))) k;
          k = upd_task t (p_stats_update (blocked_ticks_update (\<lambda>_. 0))) k;
          k = upd_task t (p_stats_update (ready_ticks_update (\<lambda>_. 0))) k;
          (now, k) = read_ticks k;
          k = upd_task t (p_stats_update (elapsed_total_ticks_update (\<lambda>_. now))) k;
          k = upd_task t (p_stats_update (total_trans_update (\<lambda>_. 0))) k;
          (now, k) = read_ticks k
      in upd_task t (p_stats_update (remaining_ticks_update (\<lambda>_. now))) k)"

definition get_task_stats :: "addr \<Rightarrow> kernel \<Rightarrow> stats" where
  "get_task_stats t k = p_stats (tasks k t)"

definition get_task_list :: "addr \<Rightarrow> addr" where
  "get_task_list t = list_of t"

section \<open>The context switch\<close>

definition setMSR :: "dword \<Rightarrow> dword \<Rightarrow> dword \<Rightarrow> kernel \<Rightarrow> kernel" where
  "setMSR msr_number high low k = k\<lparr>msr := (msr k)(msr_number := (high, low))\<rparr>"

text \<open>
  \<^verbatim>\<open>mov %ebp, (save_sp); mov new_sp, %esp; popl %ebp; ret\<close>.  The first argument points to
  the \<^verbatim>\<open>register_esp\<close> of task \<open>save_t\<close>.
\<close>

definition switch_stack :: "addr \<Rightarrow> dword \<Rightarrow> kernel \<Rightarrow> kernel" where
  "switch_stack save_t new_sp k =
     (let k = upd_task save_t (register_esp_update (\<lambda>_. ebp (cpu k))) k;
          k = upd_cpu (\<lambda>c. c\<lparr>esp := new_sp\<rparr>) k;
          (v, k) = pop_dword k;
          k = upd_cpu (\<lambda>c. c\<lparr>ebp := v\<rparr>) k;
          (ret, k) = pop_dword k
      in upd_cpu (\<lambda>c. c\<lparr>eip := ret\<rparr>) k)"

text \<open>
  The frame pointer is set up on entry (the Makefile compiles with
  \<^verbatim>\<open>-fno-omit-frame-pointer\<close>).  Both arguments of \<^verbatim>\<open>switch_stack\<close> are evaluated before the
  call.
\<close>

definition inner_task_switch :: "addr \<Rightarrow> kernel \<Rightarrow> kernel" where
  "inner_task_switch new k =
     (let k = push_dword (ebp (cpu k)) k;
          k = upd_cpu (\<lambda>c. c\<lparr>ebp := esp c\<rparr>) k;
          new_DIR = get_DIR (tasks k new);
          k = k\<lparr>tss := (tss k)\<lparr>tss_esp0 := stack_slot new KERNEL_STACK_SIZE\<rparr>\<rparr>;
          k = setMSR 0x175 0 (stack_slot new KERNEL_STACK_SIZE) k;
          k = upd_mm (set_cr3 new_DIR) k
      in switch_stack (current k) (register_esp (tasks k new)) k)"

text \<open>What follows the call in \<^verbatim>\<open>task_switch\<close>: drop the argument, pop the saved registers, return.\<close>

definition task_switch_epilogue :: "kernel \<Rightarrow> kernel" where
  "task_switch_epilogue k =
     (let k = upd_cpu (\<lambda>c. c\<lparr>esp := esp c + 4\<rparr>) k;
          (v, k) = pop_dword k; k = upd_cpu (\<lambda>c. c\<lparr>ebx := v\<rparr>) k;
          (v, k) = pop_dword k; k = upd_cpu (\<lambda>c. c\<lparr>edi := v\<rparr>) k;
          (v, k) = pop_dword k; k = upd_cpu (\<lambda>c. c\<lparr>esi := v\<rparr>) k;
          (v, k) = pop_dword k; k = upd_cpu (\<lambda>c. c\<lparr>ebp := v\<rparr>) k;
          (ret, k) = pop_dword k
      in upd_cpu (\<lambda>c. c\<lparr>eip := ret\<rparr>) k)"

text \<open>
  \<^verbatim>\<open>task_switch\<close> is entered with its return address on top of the stack.  The \<^verbatim>\<open>ret\<close> of
  \<^verbatim>\<open>switch_stack\<close> continues wherever the new stack says: after the call below when the new
  task was itself switched out here, in \<^verbatim>\<open>ret_from_fork\<close> or \<^verbatim>\<open>cpu_idle\<close> when it is new.
\<close>

definition task_switch :: "layout \<Rightarrow> addr \<Rightarrow> kernel \<Rightarrow> kernel" where
  "task_switch L new k =
     (let k = push_dword (ebp (cpu k)) k;
          k = upd_cpu (\<lambda>c. c\<lparr>ebp := esp c\<rparr>) k;
          k = push_dword (esi (cpu k)) k;
          k = push_dword (edi (cpu k)) k;
          k = push_dword (ebx (cpu k)) k;
          k = push_dword new k;
          k = push_dword (task_switch_ret_code L) k;
          k = inner_task_switch new k
      in if eip (cpu k) = task_switch_ret_code L then task_switch_epilogue k else k)"

section \<open>The round robin policy\<close>

definition get_quantum :: "addr \<Rightarrow> kernel \<Rightarrow> cint" where
  "get_quantum t k = total_quantum (tasks k t)"

definition set_quantum :: "addr \<Rightarrow> cint \<Rightarrow> kernel \<Rightarrow> kernel" where
  "set_quantum t new_quantum k = upd_task t (total_quantum_update (\<lambda>_. new_quantum)) k"

definition update_sched_data_rr :: "kernel \<Rightarrow> kernel" where
  "update_sched_data_rr k = k\<lparr>remaining_quantum := remaining_quantum k - 1\<rparr>"

definition needs_sched_rr :: "layout \<Rightarrow> kernel \<Rightarrow> bool \<times> kernel" where
  "needs_sched_rr L k =
     (if remaining_quantum k = 0 \<and> \<not> list_empty (readyqueue L) (lists k) then (True, k)
      else if remaining_quantum k = 0
      then (False, k\<lparr>remaining_quantum := get_quantum (current k) k\<rparr>)
      else (False, k))"

definition update_process_state_rr :: "layout \<Rightarrow> addr \<Rightarrow> addr \<Rightarrow> kernel \<Rightarrow> kernel" where
  "update_process_state_rr L t dst_queue k =
     (let k = (if state (tasks k t) \<noteq> ST_RUN then upd_lists (list_del (list_of t)) k else k)
      in if dst_queue \<noteq> NULL then
           let k = upd_lists (list_add_tail (list_of t) dst_queue) k
           in if dst_queue \<noteq> readyqueue L
              then upd_task t (state_update (\<lambda>_. ST_BLOCKED)) k
              else upd_task t (state_update (\<lambda>_. ST_READY)) (update_stats system_ticks_update t k)
         else upd_task t (state_update (\<lambda>_. ST_RUN)) k)"

text \<open>The choice of the next task, up to the switch itself.\<close>

definition pick_next_rr :: "layout \<Rightarrow> kernel \<Rightarrow> addr \<times> kernel" where
  "pick_next_rr L k =
     (if \<not> list_empty (readyqueue L) (lists k) then
        let e = list_first (readyqueue L) (lists k)
        in (list_head_to_task_struct e, upd_lists (list_del e) k)
      else (idle_task k, k))"

definition sched_next_rr :: "layout \<Rightarrow> kernel \<Rightarrow> kernel" where
  "sched_next_rr L k =
     (let (t, k) = pick_next_rr L k;
          k = upd_task t (state_update (\<lambda>_. ST_RUN)) k;
          k = k\<lparr>remaining_quantum := get_quantum t k\<rparr>;
          k = update_stats system_ticks_update (current k) k;
          k = update_stats ready_ticks_update t k;
          k = upd_task t (p_stats_update (total_trans_update (\<lambda>n. n + 1))) k
      in task_switch L t k)"

definition force_task_switch :: "layout \<Rightarrow> kernel \<Rightarrow> kernel" where
  "force_task_switch L k =
     sched_next_rr L (update_process_state_rr L (current k) (readyqueue L) k)"

section \<open>Scheduling through the policy's function pointers\<close>

text \<open>
  \<^verbatim>\<open>schedule\<close>, \<^verbatim>\<open>block_process\<close> and \<^verbatim>\<open>unblock_process\<close> call the policy through four function
  pointers (schedperf.h).  \<^verbatim>\<open>init_sched_policy\<close> of the binary libschedperf.a sets them, to the
  round robin functions above or to the library's own.
\<close>

record sched_policy =
  sched_next :: "kernel \<Rightarrow> kernel"
  update_process_state :: "addr \<Rightarrow> addr \<Rightarrow> kernel \<Rightarrow> kernel"
  needs_sched :: "kernel \<Rightarrow> bool \<times> kernel"
  update_sched_data :: "kernel \<Rightarrow> kernel"

definition rr_policy :: "layout \<Rightarrow> sched_policy" where
  "rr_policy L = \<lparr>sched_next = sched_next_rr L, update_process_state = update_process_state_rr L,
     needs_sched = needs_sched_rr L, update_sched_data = update_sched_data_rr\<rparr>"

definition schedule :: "layout \<Rightarrow> sched_policy \<Rightarrow> kernel \<Rightarrow> kernel" where
  "schedule L pol k =
     (let k = update_sched_data pol k;
          (needs, k) = needs_sched pol k
      in if needs then
           let k = update_process_state pol (current k) (readyqueue L) k in sched_next pol k
         else k)"

definition block_process :: "sched_policy \<Rightarrow> addr \<Rightarrow> kernel \<Rightarrow> kernel" where
  "block_process pol block_queue k =
     (let t = current k;
          k = update_process_state pol t block_queue k;
          (now, k) = read_ticks k;
          elapsed = elapsed_total_ticks (p_stats (tasks k t));
          k = upd_task t (p_stats_update (system_ticks_update (\<lambda>v. v + (now - elapsed)))) k;
          (now, k) = read_ticks k;
          k = upd_task t (p_stats_update (elapsed_total_ticks_update (\<lambda>_. now))) k
      in sched_next pol k)"

definition unblock_process :: "layout \<Rightarrow> sched_policy \<Rightarrow> addr \<Rightarrow> kernel \<Rightarrow> kernel" where
  "unblock_process L pol blk k =
     (let (now, k) = read_ticks k;
          elapsed = elapsed_total_ticks (p_stats (tasks k blk));
          k = upd_task blk (p_stats_update (blocked_ticks_update (\<lambda>v. v + (now - elapsed)))) k;
          (now, k) = read_ticks k;
          k = upd_task blk (p_stats_update (elapsed_total_ticks_update (\<lambda>_. now))) k;
          k = update_process_state pol blk (readyqueue L) k;
          (needs, k) = needs_sched pol k
      in if needs then
           let k = update_process_state pol (current k) (readyqueue L) k in sched_next pol k
         else k)"

section \<open>Initialisation\<close>

definition init_free_task :: "layout \<Rightarrow> nat \<Rightarrow> kernel \<Rightarrow> kernel" where
  "init_free_task L i k =
     (let k = upd_task (task_at L i) (PID_update (\<lambda>_. -1)) k
      in upd_lists (list_add_tail (list_of (task_at L i)) (freequeue L)) k)"

definition init_freequeue :: "layout \<Rightarrow> kernel \<Rightarrow> kernel" where
  "init_freequeue L k =
     (let k = upd_lists (INIT_LIST_HEAD (freequeue L)) k
      in fold (init_free_task L) [0..<NR_TASKS] k)"

definition init_sched :: "layout \<Rightarrow> (kernel \<Rightarrow> kernel) \<Rightarrow> kernel \<Rightarrow> kernel" where
  "init_sched L init_sched_policy k =
     (let k = init_freequeue L k;
          k = upd_lists (INIT_LIST_HEAD (readyqueue L)) k
      in init_sched_policy k)"

definition init_idle :: "layout \<Rightarrow> kernel \<Rightarrow> kernel" where
  "init_idle L k =
     (let l = list_first (freequeue L) (lists k);
          k = upd_lists (list_del l) k;
          c = list_head_to_task_struct l;
          k = upd_task c (PID_update (\<lambda>_. 0)) k;
          k = upd_task c (total_quantum_update (\<lambda>_. DEFAULT_QUANTUM)) k;
          k = init_stats c k;
          k = upd_task c (\<lambda>t. snd (allocate_DIR L c t)) k;
          k = stack_write (stack_slot c (KERNEL_STACK_SIZE - 1)) (cpu_idle_code L) k;
          k = stack_write (stack_slot c (KERNEL_STACK_SIZE - 2)) 0 k;
          k = upd_task c (register_esp_update (\<lambda>_. stack_slot c (KERNEL_STACK_SIZE - 2))) k
      in k\<lparr>idle_task := c\<rparr>)"

definition init_task1 :: "layout \<Rightarrow> kernel \<Rightarrow> kernel" where
  "init_task1 L k =
     (let l = list_first (freequeue L) (lists k);
          k = upd_lists (list_del l) k;
          c = list_head_to_task_struct l;
          k = upd_task c (PID_update (\<lambda>_. 1)) k;
          k = upd_task c (total_quantum_update (\<lambda>_. DEFAULT_QUANTUM)) k;
          k = upd_task c (state_update (\<lambda>_. ST_RUN)) k;
          k = k\<lparr>remaining_quantum := total_quantum (tasks k c)\<rparr>;
          k = init_stats c k;
          k = upd_task c (\<lambda>t. snd (allocate_DIR L c t)) k;
          k = upd_mm (set_user_pages (tasks k c)) k;
          k = k\<lparr>tss := (tss k)\<lparr>tss_esp0 := stack_slot c KERNEL_STACK_SIZE\<rparr>\<rparr>;
          k = setMSR 0x175 0 (stack_slot c KERNEL_STACK_SIZE) k
      in upd_mm (set_cr3 (dir_pages_baseAddr (tasks k c))) k)"

section \<open>What the elementary state changes leave alone\<close>

lemma upd_task_simps [simp, kernel_frame]:
  "lists (upd_task t f k) = lists k" "tasks (upd_task t f k) = (tasks k)(t := f (tasks k t))"
  "stack (upd_task t f k) = stack k" "mm (upd_task t f k) = mm k" "tty (upd_task t f k) = tty k"
  "cpu (upd_task t f k) = cpu k" "tss (upd_task t f k) = tss k" "msr (upd_task t f k) = msr k"
  "idle_task (upd_task t f k) = idle_task k"
  "remaining_quantum (upd_task t f k) = remaining_quantum k"
  "global_PID (upd_task t f k) = global_PID k" "zeos_ticks (upd_task t f k) = zeos_ticks k"
  "tsc (upd_task t f k) = tsc k" "tsc_reads (upd_task t f k) = tsc_reads k"
  by (simp_all add: upd_task_def)

lemma upd_cpu_simps [simp, kernel_frame]:
  "lists (upd_cpu f k) = lists k" "tasks (upd_cpu f k) = tasks k" "stack (upd_cpu f k) = stack k"
  "mm (upd_cpu f k) = mm k" "tty (upd_cpu f k) = tty k" "cpu (upd_cpu f k) = f (cpu k)"
  "tss (upd_cpu f k) = tss k" "msr (upd_cpu f k) = msr k" "idle_task (upd_cpu f k) = idle_task k"
  "remaining_quantum (upd_cpu f k) = remaining_quantum k"
  "global_PID (upd_cpu f k) = global_PID k" "zeos_ticks (upd_cpu f k) = zeos_ticks k"
  "tsc (upd_cpu f k) = tsc k" "tsc_reads (upd_cpu f k) = tsc_reads k"
  by (simp_all add: upd_cpu_def)

lemma upd_lists_simps [simp, kernel_frame]:
  "lists (upd_lists f k) = f (lists k)" "tasks (upd_lists f k) = tasks k"
  "stack (upd_lists f k) = stack k" "mm (upd_lists f k) = mm k" "tty (upd_lists f k) = tty k"
  "cpu (upd_lists f k) = cpu k" "tss (upd_lists f k) = tss k" "msr (upd_lists f k) = msr k"
  "idle_task (upd_lists f k) = idle_task k"
  "remaining_quantum (upd_lists f k) = remaining_quantum k"
  "global_PID (upd_lists f k) = global_PID k" "zeos_ticks (upd_lists f k) = zeos_ticks k"
  "tsc (upd_lists f k) = tsc k" "tsc_reads (upd_lists f k) = tsc_reads k"
  by (simp_all add: upd_lists_def)

lemma upd_mm_simps [simp, kernel_frame]:
  "lists (upd_mm f k) = lists k" "tasks (upd_mm f k) = tasks k" "stack (upd_mm f k) = stack k"
  "mm (upd_mm f k) = f (mm k)" "tty (upd_mm f k) = tty k" "cpu (upd_mm f k) = cpu k"
  "tss (upd_mm f k) = tss k" "msr (upd_mm f k) = msr k" "idle_task (upd_mm f k) = idle_task k"
  "remaining_quantum (upd_mm f k) = remaining_quantum k" "global_PID (upd_mm f k) = global_PID k"
  "zeos_ticks (upd_mm f k) = zeos_ticks k" "tsc (upd_mm f k) = tsc k"
  "tsc_reads (upd_mm f k) = tsc_reads k"
  by (simp_all add: upd_mm_def)

lemma stack_write_simps [simp, kernel_frame]:
  "lists (stack_write a v k) = lists k" "tasks (stack_write a v k) = tasks k"
  "stack (stack_write a v k) = (stack k)(a := v)" "mm (stack_write a v k) = mm k"
  "tty (stack_write a v k) = tty k" "cpu (stack_write a v k) = cpu k"
  "tss (stack_write a v k) = tss k" "msr (stack_write a v k) = msr k"
  "idle_task (stack_write a v k) = idle_task k"
  "remaining_quantum (stack_write a v k) = remaining_quantum k"
  "global_PID (stack_write a v k) = global_PID k" "zeos_ticks (stack_write a v k) = zeos_ticks k"
  "tsc (stack_write a v k) = tsc k" "tsc_reads (stack_write a v k) = tsc_reads k"
  by (simp_all add: stack_write_def)

lemma push_dword_simps [simp, kernel_frame]:
  "lists (push_dword v k) = lists k" "tasks (push_dword v k) = tasks k"
  "stack (push_dword v k) = (stack k)(esp (cpu k) - 4 := v)" "mm (push_dword v k) = mm k"
  "tty (push_dword v k) = tty k"
  "cpu (push_dword v k) = (cpu k)\<lparr>esp := esp (cpu k) - 4\<rparr>"
  "tss (push_dword v k) = tss k" "msr (push_dword v k) = msr k"
  "idle_task (push_dword v k) = idle_task k"
  "remaining_quantum (push_dword v k) = remaining_quantum k"
  "global_PID (push_dword v k) = global_PID k" "zeos_ticks (push_dword v k) = zeos_ticks k"
  "tsc (push_dword v k) = tsc k" "tsc_reads (push_dword v k) = tsc_reads k"
  by (simp_all add: push_dword_def stack_write_def upd_cpu_def Let_def)

lemma setMSR_simps [simp, kernel_frame]:
  "lists (setMSR n hi lo k) = lists k" "tasks (setMSR n hi lo k) = tasks k"
  "stack (setMSR n hi lo k) = stack k" "mm (setMSR n hi lo k) = mm k"
  "tty (setMSR n hi lo k) = tty k" "cpu (setMSR n hi lo k) = cpu k"
  "tss (setMSR n hi lo k) = tss k" "msr (setMSR n hi lo k) = (msr k)(n := (hi, lo))"
  "idle_task (setMSR n hi lo k) = idle_task k"
  "remaining_quantum (setMSR n hi lo k) = remaining_quantum k"
  "global_PID (setMSR n hi lo k) = global_PID k" "zeos_ticks (setMSR n hi lo k) = zeos_ticks k"
  "tsc (setMSR n hi lo k) = tsc k" "tsc_reads (setMSR n hi lo k) = tsc_reads k"
  by (simp_all add: setMSR_def)


lemma pop_dword_simps [simp, kernel_frame]:
  "fst (pop_dword k) = stack k (esp (cpu k))"
  "snd (pop_dword k) = upd_cpu (\<lambda>c. c\<lparr>esp := esp c + 4\<rparr>) k"
  by (simp_all add: pop_dword_def)

end
