(* ===== verification/Syscalls.thy ===== *)
theory Syscalls
  imports Sched
begin

text \<open>
  sys.c: the system call routines.  A routine returns its result and the new kernel state;
  \<open>None\<close> is a page fault the processor raises inside a copy.  For the calls that end in
  \<^verbatim>\<open>task_switch\<close> the state is the one right after the switch, and the value is what the
  calling task gets when it runs again.
\<close>

abbreviation (input) ESRCH :: "'a::numeral" where "ESRCH \<equiv> 3"
abbreviation (input) EBADF :: "'a::numeral" where "EBADF \<equiv> 9"
abbreviation (input) EAGAIN :: "'a::numeral" where "EAGAIN \<equiv> 11"
abbreviation (input) ENOMEM :: "'a::numeral" where "ENOMEM \<equiv> 12"
abbreviation (input) EACCES :: "'a::numeral" where "EACCES \<equiv> 13"
abbreviation (input) EFAULT :: "'a::numeral" where "EFAULT \<equiv> 14"
abbreviation (input) EINVAL :: "'a::numeral" where "EINVAL \<equiv> 22"
abbreviation (input) ENOSYS :: "'a::numeral" where "ENOSYS \<equiv> 38"
abbreviation (input) LECTURA :: cint where "LECTURA \<equiv> 0"
abbreviation (input) ESCRIPTURA :: cint where "ESCRIPTURA \<equiv> 1"
abbreviation (input) TAM_BUFFER :: "'a::numeral" where "TAM_BUFFER \<equiv> 512"

section \<open>Small routines\<close>

definition check_fd :: "cint \<Rightarrow> cint \<Rightarrow> cint" where
  "check_fd fd permissions =
     (if fd \<noteq> 1 then - EBADF else if permissions \<noteq> ESCRIPTURA then - EACCES else 0)"

definition user_to_system :: "kernel \<Rightarrow> kernel" where
  "user_to_system k = update_stats user_ticks_update (current k) k"

definition system_to_user :: "kernel \<Rightarrow> kernel" where
  "system_to_user k = update_stats system_ticks_update (current k) k"

definition sys_ni_syscall :: cint where
  "sys_ni_syscall = - ENOSYS"

definition sys_getpid :: "kernel \<Rightarrow> cint" where
  "sys_getpid k = PID (tasks k (current k))"

definition ret_from_fork :: cint where
  "ret_from_fork = 0"

definition sys_gettime :: "kernel \<Rightarrow> cint" where
  "sys_gettime k = zeos_ticks k"

definition sys_yield :: "layout \<Rightarrow> kernel \<Rightarrow> cint \<times> kernel" where
  "sys_yield L k = (let k = force_task_switch L k in (0, k))"

section \<open>sys\_fork\<close>

text \<open>The frame a C function sets up on entry and drops before it returns.\<close>

definition frame_enter :: "kernel \<Rightarrow> kernel" where
  "frame_enter k =
     (let k = push_dword (ebp (cpu k)) k in upd_cpu (\<lambda>c. c\<lparr>ebp := esp c\<rparr>) k)"

definition frame_leave :: "kernel \<Rightarrow> kernel" where
  "frame_leave k =
     (let k = upd_cpu (\<lambda>c. c\<lparr>esp := ebp c\<rparr>) k;
          (v, k) = pop_dword k
      in upd_cpu (\<lambda>c. c\<lparr>ebp := v\<rparr>) k)"

text \<open>
  \<^verbatim>\<open>copy_data(current(), uchild, sizeof(union task_union))\<close>: the 1024 dwords of the union are
  the task structure, its list node and the stack, which the model keeps apart.
\<close>

definition copy_task_union :: "addr \<Rightarrow> addr \<Rightarrow> kernel \<Rightarrow> kernel" where
  "copy_task_union src dst k =
     k\<lparr>tasks := (tasks k)(dst := tasks k src),
       lists := (lists k)(list_of dst := lists k (list_of src)),
       stack := (\<lambda>a. if a AND 0xfffff000 = dst then stack k (a - dst + src) else stack k a)\<rparr>"

definition fork_undo_page :: "addr \<Rightarrow> nat \<Rightarrow> mm_state \<Rightarrow> mm_state" where
  "fork_undo_page PT i m =
     (let m = free_frame (get_frame PT (PAG_LOG_INIT_DATA + i) m) m
      in del_ss_pag PT (PAG_LOG_INIT_DATA + i) m)"

text \<open>The loop that gives the child its data frames; the flag is false when memory ran out.\<close>

function fork_alloc_from :: "addr \<Rightarrow> nat \<Rightarrow> mm_state \<Rightarrow> bool \<times> mm_state" where
  "fork_alloc_from PT pag m =
     (if pag < NUM_PAG_DATA then
        let (new_ph_pag, m) = alloc_frame m
        in if new_ph_pag \<noteq> -1
           then fork_alloc_from PT (pag + 1) (set_ss_pag PT (PAG_LOG_INIT_DATA + pag) new_ph_pag m)
           else (False, fold (fork_undo_page PT) [0..<pag] m)
      else (True, m))"
  by pat_completeness auto
termination
  by (relation "measure (\<lambda>(PT, pag, m). 20 - pag)") auto

declare fork_alloc_from.simps [simp del]

definition fork_share_pages :: "addr \<Rightarrow> addr \<Rightarrow> mm_state \<Rightarrow> mm_state" where
  "fork_share_pages parent_PT process_PT m =
     (let m = fold (\<lambda>pag m. set_ss_pag process_PT pag (get_frame parent_PT pag m) m)
                [0..<NUM_PAG_KERNEL] m
      in fold (\<lambda>pag m. set_ss_pag process_PT (PAG_LOG_INIT_CODE + pag)
                         (get_frame parent_PT (PAG_LOG_INIT_CODE + pag) m) m)
           [0..<NUM_PAG_CODE] m)"

text \<open>One round of the loop that copies the data pages, through a page mapped for the copy.\<close>

definition fork_copy_page :: "addr \<Rightarrow> addr \<Rightarrow> nat \<Rightarrow> mm_state \<Rightarrow> mm_state option" where
  "fork_copy_page parent_PT process_PT pag m =
     (let m = set_ss_pag parent_PT (pag + NUM_PAG_DATA) (get_frame process_PT pag m) m
      in do {
        r \<leftarrow> copy_data (translate m) (push_bit 12 (of_nat pag))
               (push_bit 12 (of_nat (pag + NUM_PAG_DATA))) PAGE_SIZE (ram m);
        Some (del_ss_pag parent_PT (pag + NUM_PAG_DATA) (m\<lparr>ram := r\<rparr>)) })"

fun fork_copy_pages :: "addr \<Rightarrow> addr \<Rightarrow> nat list \<Rightarrow> mm_state \<Rightarrow> mm_state option" where
  "fork_copy_pages parent_PT process_PT [] m = Some m"
| "fork_copy_pages parent_PT process_PT (pag # pags) m =
     do { m \<leftarrow> fork_copy_page parent_PT process_PT pag m;
          fork_copy_pages parent_PT process_PT pags m }"

text \<open>From \<^verbatim>\<open>uchild->task.PID=++global_PID\<close> to the last line.\<close>

definition fork_finish :: "layout \<Rightarrow> addr \<Rightarrow> kernel \<Rightarrow> cint \<times> kernel" where
  "fork_finish L uchild k =
     (let k = k\<lparr>global_PID := global_PID k + 1\<rparr>;
          k = upd_task uchild (PID_update (\<lambda>_. global_PID k)) k;
          k = upd_task uchild (state_update (\<lambda>_. ST_READY)) k;
          register_ebp = ebp (cpu k);
          register_ebp = (register_ebp - current k) + uchild;
          k = upd_task uchild (register_esp_update (\<lambda>_. register_ebp + 4)) k;
          temp_ebp = stack k register_ebp;
          k = upd_task uchild (register_esp_update (\<lambda>e. e - 4)) k;
          k = stack_write (register_esp (tasks k uchild)) (ret_from_fork_code L) k;
          k = upd_task uchild (register_esp_update (\<lambda>e. e - 4)) k;
          k = stack_write (register_esp (tasks k uchild)) temp_ebp k;
          k = init_stats uchild k;
          k = upd_task uchild (state_update (\<lambda>_. ST_READY)) k;
          k = upd_lists (list_add_tail (list_of uchild) (readyqueue L)) k
      in (PID (tasks k uchild), k))"

text \<open>The body, with the frame set up; \<^verbatim>\<open>current\<close> does not change in it.\<close>

definition sys_fork_body :: "layout \<Rightarrow> kernel \<Rightarrow> (cint \<times> kernel) option" where
  "sys_fork_body L k =
     (if list_empty (freequeue L) (lists k) then Some (- ENOMEM, k)
      else
        let lhcurrent = list_first (freequeue L) (lists k);
            k = upd_lists (list_del lhcurrent) k;
            uchild = list_head_to_task_struct lhcurrent;
            k = copy_task_union (current k) uchild k;
            k = upd_task uchild (\<lambda>t. snd (allocate_DIR L uchild t)) k;
            process_PT = get_PT (tasks k uchild) (pte (mm k));
            (ok, m) = fork_alloc_from process_PT 0 (mm k);
            k = k\<lparr>mm := m\<rparr>
        in if \<not> ok then Some (- EAGAIN, upd_lists (list_add_tail lhcurrent (freequeue L)) k)
           else
             let parent_PT = get_PT (tasks k (current k)) (pte (mm k));
                 k = upd_mm (fork_share_pages parent_PT process_PT) k
             in do {
               m \<leftarrow> fork_copy_pages parent_PT process_PT
                      [NUM_PAG_KERNEL + NUM_PAG_CODE ..< NUM_PAG_KERNEL + NUM_PAG_CODE + NUM_PAG_DATA]
                      (mm k);
               let k = k\<lparr>mm := m\<rparr>;
                   k = upd_mm (set_cr3 (get_DIR (tasks k (current k)))) k
               in Some (fork_finish L uchild k) })"

definition sys_fork :: "layout \<Rightarrow> kernel \<Rightarrow> (cint \<times> kernel) option" where
  "sys_fork L k = map_option (apsnd frame_leave) (sys_fork_body L (frame_enter k))"

section \<open>sys\_write\<close>

text \<open>
  \<open>localbuffer\<close> is the address of the local array.  The loop takes and returns the pointer
  into the user's buffer, the bytes left, memory and console.
\<close>

lemma sys_write_console_ret:
  "sys_write_console tr m a sz c = Some (r, c') \<Longrightarrow> r = sz"
  by (auto simp: sys_write_console_def split: bind_splits)

function sys_write_loop ::
  "translation \<Rightarrow> addr \<Rightarrow> addr \<Rightarrow> int \<Rightarrow> memory \<Rightarrow> console \<Rightarrow> (addr \<times> int \<times> memory \<times> console) option"
where
  "sys_write_loop tr localbuffer buffer bytes_left m c =
     (if bytes_left > TAM_BUFFER then do {
        (_, m) \<leftarrow> copy_from_user tr buffer localbuffer TAM_BUFFER m;
        (ret, c) \<leftarrow> sys_write_console tr m localbuffer TAM_BUFFER c;
        sys_write_loop tr localbuffer (buffer + of_int ret) (bytes_left - ret) m c }
      else Some (buffer, bytes_left, m, c))"
  by pat_completeness auto
termination
  by (relation "measure (\<lambda>(tr, lb, b, n, m, c). nat n)") (auto dest: sys_write_console_ret)

declare sys_write_loop.simps [simp del]

definition sys_write :: "addr \<Rightarrow> cint \<Rightarrow> addr \<Rightarrow> cint \<Rightarrow> kernel \<Rightarrow> (cint \<times> kernel) option" where
  "sys_write localbuffer fd buffer nbytes k =
     (let tr = translate (mm k); ret = check_fd fd ESCRIPTURA
      in if ret \<noteq> 0 then Some (ret, k)
         else if sint nbytes < 0 then Some (- EINVAL, k)
         else if \<not> access_ok VERIFY_READ buffer nbytes then Some (- EFAULT, k)
         else do {
           (buffer, bytes_left, m, c) \<leftarrow>
             sys_write_loop tr localbuffer buffer (sint nbytes) (ram (mm k)) (tty k);
           (bytes_left, m, c) \<leftarrow>
             (if bytes_left > 0 then do {
                (_, m) \<leftarrow> copy_from_user tr buffer localbuffer bytes_left m;
                (ret, c) \<leftarrow> sys_write_console tr m localbuffer bytes_left c;
                Some (bytes_left - ret, m, c) }
              else Some (bytes_left, m, c));
           Some (nbytes - of_int bytes_left, (upd_mm (ram_update (\<lambda>_. m)) k)\<lparr>tty := c\<rparr>) })"

section \<open>sys\_exit\<close>

definition exit_free_page :: "addr \<Rightarrow> nat \<Rightarrow> mm_state \<Rightarrow> mm_state" where
  "exit_free_page process_PT i m =
     (let m = free_frame (get_frame process_PT (PAG_LOG_INIT_DATA + i) m) m
      in del_ss_pag process_PT (PAG_LOG_INIT_DATA + i) m)"

text \<open>Everything before the switch, and the whole call.\<close>

definition exit_release :: "layout \<Rightarrow> kernel \<Rightarrow> kernel" where
  "exit_release L k =
     (let process_PT = get_PT (tasks k (current k)) (pte (mm k));
          k = upd_mm (fold (exit_free_page process_PT) [0..<NUM_PAG_DATA]) k;
          k = upd_lists (list_add_tail (list_of (current k)) (freequeue L)) k
      in upd_task (current k) (PID_update (\<lambda>_. -1)) k)"

definition sys_exit :: "layout \<Rightarrow> kernel \<Rightarrow> kernel" where
  "sys_exit L k = sched_next_rr L (exit_release L k)"

section \<open>sys\_get\_stats\<close>

text \<open>
  The 28 bytes of a \<^verbatim>\<open>struct stats\<close> are its seven counters; \<^verbatim>\<open>copy_to_user\<close> of the structure
  stores them one dword after the other.
\<close>

definition stats_dwords :: "stats \<Rightarrow> dword list" where
  "stats_dwords s = [user_ticks s, system_ticks s, blocked_ticks s, ready_ticks s,
     elapsed_total_ticks s, total_trans s, remaining_ticks s]"

fun store_dwords :: "translation \<Rightarrow> addr \<Rightarrow> dword list \<Rightarrow> memory \<Rightarrow> memory option" where
  "store_dwords tr a [] m = Some m"
| "store_dwords tr a (v # vs) m =
     do { m \<leftarrow> store_dword tr a v m; store_dwords tr (a + 4) vs m }"

function get_stats_from :: "layout \<Rightarrow> nat \<Rightarrow> cint \<Rightarrow> addr \<Rightarrow> kernel \<Rightarrow> (cint \<times> kernel) option" where
  "get_stats_from L i pid st k =
     (if i < NR_TASKS then
        let t = task_at L i
        in if PID (tasks k t) = pid then
             let k = upd_task t (p_stats_update (remaining_ticks_update (\<lambda>_. remaining_quantum k))) k
             in do {
               m \<leftarrow> store_dwords (translate (mm k)) st (stats_dwords (p_stats (tasks k t))) (ram (mm k));
               Some (0, upd_mm (ram_update (\<lambda>_. m)) k) }
           else get_stats_from L (i + 1) pid st k
      else Some (- ESRCH, k))"
  by pat_completeness auto
termination
  by (relation "measure (\<lambda>(L, i, pid, st, k). 10 - i)") auto

declare get_stats_from.simps [simp del]

definition sys_get_stats :: "layout \<Rightarrow> cint \<Rightarrow> addr \<Rightarrow> kernel \<Rightarrow> (cint \<times> kernel) option" where
  "sys_get_stats L pid st k =
     (if \<not> access_ok VERIFY_WRITE st 28 then Some (- EFAULT, k)
      else if sint pid < 0 then Some (- EINVAL, k)
      else get_stats_from L 0 pid st k)"

end
