(* ===== verification/Segments.thy ===== *)
theory Segments
  imports HwTypes Tasks
begin

text \<open>
  Descriptor tables: the segmentation half of mm.c (\<^verbatim>\<open>setGdt\<close>, \<^verbatim>\<open>setTSS\<close>), the gates of
  interrupt.c and the register loads of hardware.c.  The state is the two tables, the
  memory image of their registers, and what the processor was told to load.
\<close>

abbreviation (input) KERNEL_CS :: "'a::numeral" where "KERNEL_CS \<equiv> 0x10"
abbreviation (input) KERNEL_DS :: "'a::numeral" where "KERNEL_DS \<equiv> 0x18"
abbreviation (input) USER_CS :: "'a::numeral" where "USER_CS \<equiv> 0x23"
abbreviation (input) USER_DS :: "'a::numeral" where "USER_DS \<equiv> 0x2B"
abbreviation (input) KERNEL_TSS :: "'a::numeral" where "KERNEL_TSS \<equiv> 0x30"
abbreviation (input) GDT_START :: addr where "GDT_START \<equiv> 0x901b3"
abbreviation (input) IDT_ENTRIES :: "'a::numeral" where "IDT_ENTRIES \<equiv> 256"
abbreviation (input) USER_ESP :: addr where
  "USER_ESP \<equiv> L_USER_START + (NUM_PAG_CODE + NUM_PAG_DATA) * 0x1000 - 16"

record tables =
  gdt :: "nat \<Rightarrow> Descriptor"
  gdtR :: Register
  idt :: "nat \<Rightarrow> Gate"
  idtR :: Register
  loaded_gdtr :: Register
  loaded_idtr :: Register
  loaded_tr :: hword
  loaded_ldtr :: hword

section \<open>Operations\<close>

definition set_gdt_reg :: "Register \<Rightarrow> tables \<Rightarrow> tables" where
  "set_gdt_reg r s = s\<lparr>loaded_gdtr := r\<rparr>"

definition set_idt_reg :: "Register \<Rightarrow> tables \<Rightarrow> tables" where
  "set_idt_reg r s = s\<lparr>loaded_idtr := r\<rparr>"

definition set_ldt_reg :: "hword \<Rightarrow> tables \<Rightarrow> tables" where
  "set_ldt_reg ldt s = s\<lparr>loaded_ldtr := ldt\<rparr>"

definition set_task_reg :: "hword \<Rightarrow> tables \<Rightarrow> tables" where
  "set_task_reg tr s = s\<lparr>loaded_tr := tr\<rparr>"

definition upd_gdt :: "nat \<Rightarrow> (Descriptor \<Rightarrow> Descriptor) \<Rightarrow> tables \<Rightarrow> tables" where
  "upd_gdt i f s = s\<lparr>gdt := (gdt s)(i := f (gdt s i))\<rparr>"

definition setGdt :: "layout \<Rightarrow> tables \<Rightarrow> tables" where
  "setGdt L s =
     (let i = unat (drop_bit 3 KERNEL_TSS :: dword);
          s = upd_gdt i (d_lowBase_update (\<lambda>_. lowWord (tss_addr L))) s;
          s = upd_gdt i (d_midBase_update (\<lambda>_. midByte (tss_addr L))) s;
          s = upd_gdt i (d_highBase_update (\<lambda>_. highByte (tss_addr L))) s;
          s = s\<lparr>gdtR := (gdtR s)\<lparr>r_base := GDT_START\<rparr>\<rparr>;
          s = s\<lparr>gdtR := (gdtR s)\<lparr>r_limit := 256 * 8\<rparr>\<rparr>
      in set_gdt_reg (gdtR s) s)"

text \<open>\<^verbatim>\<open>KERNEL_ESP(&task[1])\<close> is the end of the stack of task 1.\<close>

definition INITIAL_ESP :: "layout \<Rightarrow> addr" where
  "INITIAL_ESP L = stack_slot (task_at L 1) KERNEL_STACK_SIZE"

definition setTSS :: "layout \<Rightarrow> TSS \<Rightarrow> tables \<Rightarrow> TSS \<times> tables" where
  "setTSS L t s =
     (t\<lparr>tss_PreviousTaskLink := 0,
        tss_esp0 := INITIAL_ESP L, tss_ss0 := KERNEL_DS,
        tss_esp1 := 0, tss_ss1 := 0, tss_esp2 := 0, tss_ss2 := 0,
        tss_cr3 := 0, tss_eip := 0, tss_eFlags := INITIAL_EFLAGS,
        tss_eax := 0, tss_ecx := 0, tss_edx := 0, tss_ebx := 0,
        tss_esp := USER_ESP, tss_ebp := USER_ESP, tss_esi := 0, tss_edi := 0,
        tss_es := USER_DS, tss_cs := USER_CS, tss_ss := USER_DS, tss_ds := USER_DS,
        tss_fs := 0, tss_gs := 0,
        tss_LDTSegmentSelector := KERNEL_TSS, tss_debugTrap := 0, tss_IOMapBaseAddress := 0\<rparr>,
      set_task_reg KERNEL_TSS s)"

text \<open>Both kinds of handler are installed with the same type bits.\<close>

definition setInterruptHandler :: "nat \<Rightarrow> addr \<Rightarrow> cint \<Rightarrow> tables \<Rightarrow> tables" where
  "setInterruptHandler vector handler maxAccessibleFromPL s =
     (let flags = ucast (push_bit 13 maxAccessibleFromPL) :: hword;
          flags = flags OR 0x8E00;
          g = (idt s vector)\<lparr>g_lowOffset := lowWord handler\<rparr>;
          g = g\<lparr>g_segmentSelector := KERNEL_CS\<rparr>;
          g = g\<lparr>g_flags := flags\<rparr>;
          g = g\<lparr>g_highOffset := highWord handler\<rparr>
      in s\<lparr>idt := (idt s)(vector := g)\<rparr>)"

definition setTrapHandler :: "nat \<Rightarrow> addr \<Rightarrow> cint \<Rightarrow> tables \<Rightarrow> tables" where
  "setTrapHandler vector handler maxAccessibleFromPL s =
     (let flags = ucast (push_bit 13 maxAccessibleFromPL) :: hword;
          flags = flags OR 0x8E00;
          g = (idt s vector)\<lparr>g_lowOffset := lowWord handler\<rparr>;
          g = g\<lparr>g_segmentSelector := KERNEL_CS\<rparr>;
          g = g\<lparr>g_flags := flags\<rparr>;
          g = g\<lparr>g_highOffset := highWord handler\<rparr>
      in s\<lparr>idt := (idt s)(vector := g)\<rparr>)"

section \<open>What the processor reads back\<close>

definition gate_dpl :: "Gate \<Rightarrow> nat" where
  "gate_dpl g = unat (drop_bit 13 (g_flags g) AND 3)"

definition gate_present :: "Gate \<Rightarrow> bool" where
  "gate_present g \<longleftrightarrow> bit (g_flags g) 15"

definition gate_type :: "Gate \<Rightarrow> hword" where
  "gate_type g = drop_bit 8 (g_flags g) AND 0x1f"

lemma gate_flags_parts:
  fixes pl :: cint
  assumes "unat pl < 4"
  shows "bit ((ucast (push_bit 13 pl) :: hword) OR 0x8E00) 15"
    and "drop_bit 8 ((ucast (push_bit 13 pl) :: hword) OR 0x8E00) AND 0x1f = 0x0E"
    and "unat (drop_bit 13 ((ucast (push_bit 13 pl) :: hword) OR 0x8E00) AND 3) = unat pl"
proof -
  have "unat pl = 0 \<or> unat pl = 1 \<or> unat pl = 2 \<or> unat pl = 3"
    using assms by linarith
  then have "pl = of_nat 0 \<or> pl = of_nat 1 \<or> pl = of_nat 2 \<or> pl = of_nat 3"
    by (metis of_nat_unat ucast_id)
  then have pl: "pl = 0 \<or> pl = 1 \<or> pl = 2 \<or> pl = 3"
    by simp
  show "bit ((ucast (push_bit 13 pl) :: hword) OR 0x8E00) 15"
    using pl by (elim disjE) (simp_all add: bit_simps)
  show "drop_bit 8 ((ucast (push_bit 13 pl) :: hword) OR 0x8E00) AND 0x1f = 0x0E"
    using pl by (elim disjE) (simp_all add: push_bit_eq_mult)
  show "unat (drop_bit 13 ((ucast (push_bit 13 pl) :: hword) OR 0x8E00) AND 3) = unat pl"
    using pl by (elim disjE) (simp_all add: push_bit_eq_mult)
qed

lemma setInterruptHandler_gate:
  assumes "unat pl < 4" and "g = idt (setInterruptHandler v h pl s) v"
  shows "gate_offset g = h" and "gate_present g" and "gate_dpl g = unat pl"
    and "gate_type g = 0x0E" and "g_segmentSelector g = KERNEL_CS"
  using gate_flags_parts [OF assms(1)]
  by (simp_all add: assms(2) setInterruptHandler_def Let_def gate_offset_def gate_present_def
      gate_dpl_def gate_type_def words_reassemble)

lemma setInterruptHandler_other [simp]:
  "i \<noteq> v \<Longrightarrow> idt (setInterruptHandler v h pl s) i = idt s i"
  by (simp add: setInterruptHandler_def Let_def)

lemma setInterruptHandler_frame [simp]:
  "gdt (setInterruptHandler v h pl s) = gdt s" "gdtR (setInterruptHandler v h pl s) = gdtR s"
  "idtR (setInterruptHandler v h pl s) = idtR s"
  "loaded_gdtr (setInterruptHandler v h pl s) = loaded_gdtr s"
  "loaded_idtr (setInterruptHandler v h pl s) = loaded_idtr s"
  "loaded_tr (setInterruptHandler v h pl s) = loaded_tr s"
  by (simp_all add: setInterruptHandler_def Let_def)

lemma setTrapHandler_eq: "setTrapHandler = setInterruptHandler"
  by (intro ext) (simp add: setTrapHandler_def setInterruptHandler_def)

lemma setGdt_tss:
  "descriptor_base (gdt (setGdt L s) 6) = tss_addr L"
  "d_flags1 (gdt (setGdt L s) 6) = d_flags1 (gdt s 6)"
  "d_limit (gdt (setGdt L s) 6) = d_limit (gdt s 6)"
  "i \<noteq> 6 \<Longrightarrow> gdt (setGdt L s) i = gdt s i"
  by (simp_all add: setGdt_def upd_gdt_def set_gdt_reg_def Let_def descriptor_base_def
      bytes_reassemble drop_bit_eq_div)

end
