(* ===== verification/Traps.thy ===== *)
theory Traps
  imports Syscalls Segments
begin

text \<open>
  Entering and leaving the kernel: the register frames and handlers of entry.S, the table of
  sys\_call\_table.S, the interrupt routines and the set-up of interrupt.c.

  The routines that come from the binary libraries libschedperf.a and libzeos.a are fields
  of a record, so that every statement holds for whatever they do unless it says otherwise.
\<close>

section \<open>Results of a kernel call\<close>

text \<open>
  A call faults on a copy, jumps through a word that is no table entry, or comes back.  It
  comes back with a value, or with none when it ended in \<^verbatim>\<open>task_switch\<close>: the processor then
  runs whatever the new stack says.
\<close>

datatype trap_error = Page_fault | Wild_jump

type_synonym call_result = "trap_error + (cint option \<times> kernel)"

record externals =
  ext_sys_read :: "cint \<Rightarrow> addr \<Rightarrow> cint \<Rightarrow> kernel \<Rightarrow> call_result"
  ext_set_sched_policy :: "cint \<Rightarrow> kernel \<Rightarrow> call_result"
  ext_show_clock :: "kernel \<Rightarrow> kernel"
  ext_update_read_console :: "kernel \<Rightarrow> kernel"
  ext_set_handlers :: "tables \<Rightarrow> tables"
  ext_init_sched_policy :: "kernel \<Rightarrow> kernel"
  ext_console_init :: "kernel \<Rightarrow> kernel"
  ext_policy :: sched_policy
  write_buffer :: "kernel \<Rightarrow> addr"

section \<open>SAVE\_ALL and RESTORE\_ALL\<close>

definition SAVE_ALL :: "kernel \<Rightarrow> kernel" where
  "SAVE_ALL k =
     (let k = push_dword (ucast (sel_gs (cpu k))) k;
          k = push_dword (ucast (sel_fs (cpu k))) k;
          k = push_dword (ucast (sel_es (cpu k))) k;
          k = push_dword (ucast (sel_ds (cpu k))) k;
          k = push_dword (eax (cpu k)) k;
          k = push_dword (ebp (cpu k)) k;
          k = push_dword (edi (cpu k)) k;
          k = push_dword (esi (cpu k)) k;
          k = push_dword (edx (cpu k)) k;
          k = push_dword (ecx (cpu k)) k;
          k = push_dword (ebx (cpu k)) k;
          k = upd_cpu (\<lambda>c. c\<lparr>edx := KERNEL_DS\<rparr>) k;
          k = upd_cpu (\<lambda>c. c\<lparr>sel_ds := ucast (edx c)\<rparr>) k
      in upd_cpu (\<lambda>c. c\<lparr>sel_es := ucast (edx c)\<rparr>) k)"

definition pop_into :: "(dword \<Rightarrow> cpu \<Rightarrow> cpu) \<Rightarrow> kernel \<Rightarrow> kernel" where
  "pop_into f k = (let (v, k) = pop_dword k in upd_cpu (f v) k)"

definition RESTORE_ALL :: "kernel \<Rightarrow> kernel" where
  "RESTORE_ALL k =
     (let k = pop_into (\<lambda>v. ebx_update (\<lambda>_. v)) k;
          k = pop_into (\<lambda>v. ecx_update (\<lambda>_. v)) k;
          k = pop_into (\<lambda>v. edx_update (\<lambda>_. v)) k;
          k = pop_into (\<lambda>v. esi_update (\<lambda>_. v)) k;
          k = pop_into (\<lambda>v. edi_update (\<lambda>_. v)) k;
          k = pop_into (\<lambda>v. ebp_update (\<lambda>_. v)) k;
          k = pop_into (\<lambda>v. eax_update (\<lambda>_. v)) k;
          k = pop_into (\<lambda>v. sel_ds_update (\<lambda>_. ucast v)) k;
          k = pop_into (\<lambda>v. sel_es_update (\<lambda>_. ucast v)) k;
          k = pop_into (\<lambda>v. sel_fs_update (\<lambda>_. ucast v)) k
      in pop_into (\<lambda>v. sel_gs_update (\<lambda>_. ucast v)) k)"

section \<open>The system call table\<close>

datatype table_entry =
  T_ni_syscall | T_exit | T_fork | T_read | T_write | T_gettime | T_yield
| T_set_sched_policy | T_getpid | T_get_stats

definition sys_call_table :: "table_entry list" where
  "sys_call_table =
     [T_ni_syscall, T_exit, T_fork, T_read, T_write, T_ni_syscall, T_ni_syscall, T_ni_syscall,
      T_ni_syscall, T_ni_syscall, T_gettime, T_ni_syscall, T_ni_syscall, T_yield, T_ni_syscall,
      T_ni_syscall, T_ni_syscall, T_set_sched_policy, T_ni_syscall, T_ni_syscall, T_getpid,
      T_ni_syscall, T_ni_syscall, T_ni_syscall, T_ni_syscall, T_ni_syscall, T_ni_syscall,
      T_ni_syscall, T_ni_syscall, T_ni_syscall, T_ni_syscall, T_ni_syscall, T_ni_syscall,
      T_ni_syscall, T_ni_syscall, T_get_stats]"

definition MAX_SYSCALL :: nat where
  "MAX_SYSCALL = length sys_call_table"

text \<open>The arguments lie above the return address: ebx, ecx and edx as \<^verbatim>\<open>SAVE_ALL\<close> pushed them.\<close>

definition syscall_arg :: "nat \<Rightarrow> kernel \<Rightarrow> dword" where
  "syscall_arg i k = stack k (esp (cpu k) + 4 * of_nat (i + 1))"

definition returned :: "(cint \<times> kernel) option \<Rightarrow> call_result" where
  "returned r = (case r of None \<Rightarrow> Inl Page_fault | Some (v, k) \<Rightarrow> Inr (Some v, k))"

fun run_syscall :: "layout \<Rightarrow> externals \<Rightarrow> table_entry \<Rightarrow> kernel \<Rightarrow> call_result" where
  "run_syscall L E T_ni_syscall k = Inr (Some sys_ni_syscall, k)"
| "run_syscall L E T_exit k = Inr (None, sys_exit L k)"
| "run_syscall L E T_fork k = returned (sys_fork L k)"
| "run_syscall L E T_read k = ext_sys_read E (syscall_arg 0 k) (syscall_arg 1 k) (syscall_arg 2 k) k"
| "run_syscall L E T_write k =
     returned (sys_write (write_buffer E k) (syscall_arg 0 k) (syscall_arg 1 k) (syscall_arg 2 k) k)"
| "run_syscall L E T_gettime k = Inr (Some (sys_gettime k), k)"
| "run_syscall L E T_yield k = Inr (None, snd (sys_yield L k))"
| "run_syscall L E T_set_sched_policy k = ext_set_sched_policy E (syscall_arg 0 k) k"
| "run_syscall L E T_getpid k = Inr (Some (sys_getpid k), k)"
| "run_syscall L E T_get_stats k = returned (sys_get_stats L (syscall_arg 0 k) (syscall_arg 1 k) k)"

text \<open>The checks on eax and the indirect call; both bounds are signed comparisons.\<close>

definition dispatch :: "layout \<Rightarrow> externals \<Rightarrow> kernel \<Rightarrow> call_result" where
  "dispatch L E k =
     (if sint (eax (cpu k)) < 0 then Inr (Some (- ENOSYS), k)
      else if sint (eax (cpu k)) > int MAX_SYSCALL then Inr (Some (- ENOSYS), k)
      else if unat (eax (cpu k)) < length sys_call_table then
        case run_syscall L E (sys_call_table ! unat (eax (cpu k)))
               (push_dword (syscall_ret_code L) k) of
          Inl e \<Rightarrow> Inl e
        | Inr (None, k) \<Rightarrow> Inr (None, k)
        | Inr (Some v, k) \<Rightarrow> Inr (Some v, snd (pop_dword k))
      else Inl Wild_jump)"

text \<open>
  The fast system call entry.  \<^verbatim>\<open>push 4(%ebp)\<close> reads the user's stack; the handler leaves by
  \<^verbatim>\<open>sti\<close>, which sets the interrupt flag, and \<^verbatim>\<open>sysexit\<close>, which continues at edx with the stack
  pointer ecx.
\<close>

definition system_call_handler :: "layout \<Rightarrow> externals \<Rightarrow> kernel \<Rightarrow> call_result" where
  "system_call_handler L E k =
     (let k = push_dword USER_DS k;
          k = push_dword (ebp (cpu k)) k;
          k = push_dword (eflags (cpu k)) k;
          k = push_dword USER_CS k
      in case load_dword (translate (mm k)) (ram (mm k)) (ebp (cpu k) + 4) of
           None \<Rightarrow> Inl Page_fault
         | Some ret \<Rightarrow>
             (case dispatch L E (SAVE_ALL (push_dword ret k)) of
                Inl e \<Rightarrow> Inl e
              | Inr (None, k) \<Rightarrow> Inr (None, k)
              | Inr (Some v, k) \<Rightarrow>
                  let k = stack_write (esp (cpu k) + 0x18) v k;
                      k = RESTORE_ALL k;
                      k = upd_cpu (\<lambda>c. c\<lparr>edx := stack k (esp c)\<rparr>) k;
                      k = upd_cpu (\<lambda>c. c\<lparr>ecx := stack k (esp c + 12)\<rparr>) k;
                      k = upd_cpu (\<lambda>c. c\<lparr>eflags := eflags c OR 0x200\<rparr>) k
                  in Inr (Some v, upd_cpu (\<lambda>c. c\<lparr>eip := edx c, esp := ecx c\<rparr>) k)))"

section \<open>Interrupt routines\<close>

definition char_map :: "byte list" where
  "char_map =
     [0, 0, 0x31, 0x32, 0x33, 0x34, 0x35, 0x36,
      0x37, 0x38, 0x39, 0x30, 0x27, 0xA1, 0, 0,
      0x71, 0x77, 0x65, 0x72, 0x74, 0x79, 0x75, 0x69,
      0x6F, 0x70, 0x60, 0x2B, 0, 0, 0x61, 0x73,
      0x64, 0x66, 0x67, 0x68, 0x6A, 0x6B, 0x6C, 0xF1,
      0, 0xBA, 0, 0xE7, 0x7A, 0x78, 0x63, 0x76,
      0x62, 0x6E, 0x6D, 0x2C, 0x2E, 0x2D, 0, 0x2A,
      0, 0, 0, 0, 0, 0, 0, 0,
      0, 0, 0, 0, 0, 0, 0, 0x37,
      0x38, 0x39, 0x2D, 0x34, 0x35, 0x36, 0x2B, 0x31,
      0x32, 0x33, 0x30, 0, 0, 0, 0x3C, 0,
      0, 0, 0, 0, 0, 0, 0, 0,
      0, 0]"

text \<open>
  \<open>c\<close> is the byte read from port 0x60.  The array has 98 elements and the index up to 127:
  \<open>behind\<close> stands for the bytes that follow the array.
\<close>

definition char_map_at :: "(nat \<Rightarrow> byte) \<Rightarrow> nat \<Rightarrow> byte" where
  "char_map_at behind i = (if i < length char_map then char_map ! i else behind (i - length char_map))"

definition keyboard_routine :: "(nat \<Rightarrow> byte) \<Rightarrow> byte \<Rightarrow> kernel \<Rightarrow> kernel" where
  "keyboard_routine behind c k =
     (if c AND 0x80 \<noteq> 0
      then k\<lparr>tty := printc_xy 0 0 (char_map_at behind (unat (c AND 0x7f))) (tty k)\<rparr> else k)"

text \<open>\<^verbatim>\<open>clock_routine\<close> up to the call of the scheduler, and as a whole.\<close>

definition before_schedule :: "externals \<Rightarrow> kernel \<Rightarrow> kernel" where
  "before_schedule E k =
     (let k = ext_show_clock E k;
          k = k\<lparr>zeos_ticks := zeos_ticks k + 1\<rparr>
      in ext_update_read_console E k)"

definition clock_routine :: "layout \<Rightarrow> externals \<Rightarrow> kernel \<Rightarrow> kernel" where
  "clock_routine L E k = schedule L (ext_policy E) (before_schedule E k)"

definition setSysenter :: "layout \<Rightarrow> addr \<Rightarrow> kernel \<Rightarrow> kernel" where
  "setSysenter L system_call_handler_code k =
     (let k = setMSR 0x174 0 KERNEL_CS k;
          k = setMSR 0x175 0 (INITIAL_ESP L) k
      in setMSR 0x176 0 system_call_handler_code k)"

definition setIdt ::
  "layout \<Rightarrow> externals \<Rightarrow> addr \<Rightarrow> addr \<Rightarrow> addr \<Rightarrow> addr \<Rightarrow> tables \<Rightarrow> kernel \<Rightarrow> tables \<times> kernel" where
  "setIdt L E idt_addr clock_handler keyboard_handler system_call_handler_code s k =
     (let s = s\<lparr>idtR := (idtR s)\<lparr>r_base := idt_addr\<rparr>\<rparr>;
          s = s\<lparr>idtR := (idtR s)\<lparr>r_limit := IDT_ENTRIES * 8 - 1\<rparr>\<rparr>;
          s = ext_set_handlers E s;
          s = setInterruptHandler 32 clock_handler 0 s;
          s = setInterruptHandler 33 keyboard_handler 0 s;
          k = setSysenter L system_call_handler_code k
      in (set_idt_reg (idtR s) s, k))"

section \<open>Interrupt handlers\<close>

text \<open>
  What \<^verbatim>\<open>clock_handler\<close> and \<^verbatim>\<open>keyboard_handler\<close> do around the routine: save the registers and
  charge the user's time on the way in, acknowledge the interrupt, charge the kernel's time, restore
  and \<^verbatim>\<open>iret\<close> on the way out.  The pushes and pops of eax around the accounting cancel.  \<^verbatim>\<open>EOI\<close> puts
  the byte for the port into al; the ports themselves have no state here.
\<close>

definition EOI :: "kernel \<Rightarrow> kernel" where
  "EOI k = upd_cpu (\<lambda>c. c\<lparr>eax := (eax c AND 0xFFFFFF00) OR 0x20\<rparr>) k"

definition handler_enter :: "kernel \<Rightarrow> kernel" where
  "handler_enter k =
     (let k = SAVE_ALL k;
          k = push_dword (eax (cpu k)) k;
          k = user_to_system k
      in pop_into (\<lambda>v. eax_update (\<lambda>_. v)) k)"

definition handler_leave :: "kernel \<Rightarrow> kernel" where
  "handler_leave k =
     (let k = push_dword (eax (cpu k)) k;
          k = system_to_user k;
          k = pop_into (\<lambda>v. eax_update (\<lambda>_. v)) k
      in RESTORE_ALL k)"

definition keyboard_handler :: "(nat \<Rightarrow> byte) \<Rightarrow> byte \<Rightarrow> kernel \<Rightarrow> kernel" where
  "keyboard_handler behind c k = handler_leave (keyboard_routine behind c (EOI (handler_enter k)))"

text \<open>
  The clock routine may switch to another task.  The processor then goes on where that one was
  switched out, and the way out of this handler, \<^const>\<open>handler_leave\<close>, runs when the task runs again:
  the state is the one right after the switch.  Without a switch the handler runs to its end.
\<close>

definition schedule_switches :: "sched_policy \<Rightarrow> kernel \<Rightarrow> bool" where
  "schedule_switches pol k = fst (needs_sched pol (update_sched_data pol k))"

definition clock_handler :: "layout \<Rightarrow> externals \<Rightarrow> kernel \<Rightarrow> kernel" where
  "clock_handler L E k =
     (let k = EOI (handler_enter k); k' = clock_routine L E k
      in if schedule_switches (ext_policy E) (before_schedule E k) then k' else handler_leave k')"

end
