(* ===== verification/Boot.thy ===== *)
theory Boot
  imports Traps
begin

text \<open>
  system.c: the sequence that brings the machine from the boot loader to the first
  instruction of user mode, with the register loads of hardware.c it ends in.
\<close>

abbreviation (input) KERNEL_START :: addr where "KERNEL_START \<equiv> 0x10000"
abbreviation (input) PH_USER_START :: addr where "PH_USER_START \<equiv> 0x100000"

record machine =
  kern :: kernel
  tabs :: tables
  sel_cs :: hword
  sel_ss :: hword
  int_mask :: byte

definition upd_kern :: "(kernel \<Rightarrow> kernel) \<Rightarrow> machine \<Rightarrow> machine" where
  "upd_kern f m = m\<lparr>kern := f (kern m)\<rparr>"

definition ascii :: "string \<Rightarrow> byte list" where
  "ascii s = map of_char s"

text \<open>\<^verbatim>\<open>get_eflags\<close> reads the flags through a push and a pop.\<close>

definition get_eflags :: "machine \<Rightarrow> dword \<times> machine" where
  "get_eflags m =
     (let k = push_dword (eflags (cpu (kern m))) (kern m);
          (flags, k) = pop_dword k
      in (flags, m\<lparr>kern := k\<rparr>))"

lemma get_eflags_reads:
  "fst (get_eflags m) = eflags (cpu (kern m))" "cpu (kern (snd (get_eflags m))) = cpu (kern m)"
  "a \<noteq> esp (cpu (kern m)) - 4 \<Longrightarrow> stack (kern (snd (get_eflags m))) a = stack (kern m) a"
  by (simp_all add: get_eflags_def Let_def upd_cpu_def pop_dword_def)

definition set_eflags :: "machine \<Rightarrow> machine" where
  "set_eflags m = upd_kern (upd_cpu (\<lambda>c. c\<lparr>eflags := 0\<rparr>)) m"

definition set_seg_regs :: "hword \<Rightarrow> hword \<Rightarrow> dword \<Rightarrow> machine \<Rightarrow> machine" where
  "set_seg_regs data_sel stack_sel sp m =
     (let sp = sp - 5 * 4;
          m = upd_kern (upd_cpu (\<lambda>c. c\<lparr>sel_ds := data_sel, sel_es := data_sel, sel_fs := data_sel, sel_gs := data_sel\<rparr>)) m;
          m = m\<lparr>sel_ss := stack_sel\<rparr>
      in upd_kern (upd_cpu (\<lambda>c. c\<lparr>esp := sp\<rparr>)) m)"

definition kprint :: "string \<Rightarrow> kernel \<Rightarrow> kernel" where
  "kprint s k = k\<lparr>tty := printk (ascii s) (tty k)\<rparr>"

definition enable_int :: "machine \<Rightarrow> machine" where
  "enable_int m =
     (let m = m\<lparr>int_mask := 0xfc\<rparr>
      in upd_kern (upd_cpu (\<lambda>c. c\<lparr>eflags := eflags c OR 0x200\<rparr>)) m)"

text \<open>
  \<^verbatim>\<open>return_gate\<close> stores the dword at \<^verbatim>\<open>p_rdtr\<close> twelve bytes above the user's stack pointer
  and returns to the user's code and stack.
\<close>

definition return_gate ::
  "hword \<Rightarrow> hword \<Rightarrow> dword \<Rightarrow> hword \<Rightarrow> addr \<Rightarrow> machine \<Rightarrow> machine option" where
  "return_gate dsel ssel sp csel ip m =
     (let tr = translate (mm (kern m))
      in do {
        rdtr \<leftarrow> load_dword tr (ram (mm (kern m))) (KERNEL_START + 8);
        r \<leftarrow> store_dword tr (sp + 12) rdtr (ram (mm (kern m)));
        let m = upd_kern (upd_mm (ram_update (\<lambda>_. r))) m;
            m = upd_kern (upd_cpu (\<lambda>c. c\<lparr>sel_es := dsel, sel_ds := dsel, esp := sp, eip := ip\<rparr>)) m
        in Some (m\<lparr>sel_cs := csel, sel_ss := ssel\<rparr>) })"

text \<open>The addresses of the handlers and of the table of gates, fixed by the linker.\<close>

record boot_layout =
  idt_addr :: addr
  clock_handler_code :: addr
  keyboard_handler_code :: addr
  system_call_handler_code :: addr

definition boot_tables :: "layout \<Rightarrow> externals \<Rightarrow> boot_layout \<Rightarrow> machine \<Rightarrow> machine" where
  "boot_tables L E B m =
     (let m = m\<lparr>tabs := setGdt L (tabs m)\<rparr>;
          (s, k) = setIdt L E (idt_addr B) (clock_handler_code B) (keyboard_handler_code B)
                     (system_call_handler_code B) (tabs m) (kern m);
          m = m\<lparr>tabs := s, kern := k\<rparr>;
          (t, s) = setTSS L (tss (kern m)) (tabs m)
      in m\<lparr>tabs := s, kern := (kern m)\<lparr>tss := t\<rparr>\<rparr>)"

definition boot_mm :: "layout \<Rightarrow> kernel \<Rightarrow> kernel" where
  "boot_mm L k =
     (let (t0, m) = init_mm L (tasks k (task_at L 0)) (mm k)
      in (upd_task (task_at L 0) (\<lambda>_. t0) k)\<lparr>mm := m\<rparr>)"

definition boot_tasks :: "layout \<Rightarrow> externals \<Rightarrow> kernel \<Rightarrow> kernel" where
  "boot_tasks L E k =
     (let k = init_sched L (ext_init_sched_policy E) k;
          k = init_idle L k;
          k = init_task1 L k
      in ext_console_init E k)"

text \<open>\<^verbatim>\<open>copy_data((void *) KERNEL_START + *p_sys_size, usr_main, *p_usr_size)\<close>.\<close>

definition move_user_image :: "kernel \<Rightarrow> kernel option" where
  "move_user_image k =
     (let tr = translate (mm k); r = ram (mm k)
      in do {
        sys_size \<leftarrow> load_dword tr r KERNEL_START;
        usr_size \<leftarrow> load_dword tr r (KERNEL_START + 4);
        r \<leftarrow> copy_data tr (KERNEL_START + sys_size) PH_USER_START (sint usr_size) r;
        Some (upd_mm (ram_update (\<lambda>_. r)) k) })"

definition main :: "layout \<Rightarrow> externals \<Rightarrow> boot_layout \<Rightarrow> machine \<Rightarrow> machine option" where
  "main L E B m =
     (let m = set_eflags m;
          m = set_seg_regs KERNEL_DS KERNEL_DS (protected_tasks L + 4096 * 5) m;
          m = upd_kern (kprint ''Kernel Loaded!    '') m;
          m = boot_tables L E B m;
          m = upd_kern (boot_mm L) m;
          m = upd_kern (boot_tasks L E) m
      in do {
        k \<leftarrow> move_user_image (kern m);
        let m = m\<lparr>kern := k\<rparr>;
            m = upd_kern (kprint ''Entering user mode...'') m;
            m = enable_int m
        in return_gate USER_DS USER_DS USER_ESP USER_CS L_USER_START m })"

section \<open>The idle task\<close>

text \<open>\<^verbatim>\<open>cpu_idle\<close> opens the interrupts and loops: only a trap takes the processor from it.\<close>

partial_function (option) idle_loop :: "kernel \<Rightarrow> kernel option" where
  "idle_loop k = idle_loop k"

definition cpu_idle :: "kernel \<Rightarrow> kernel option" where
  "cpu_idle k = idle_loop (upd_cpu (\<lambda>c. c\<lparr>eflags := eflags c OR 0x200\<rparr>) k)"

lemma cpu_idle_never_returns: "cpu_idle k = None"
proof -
  have "idle_loop x = Some y \<Longrightarrow> False" for x y
    by (rule idle_loop.raw_induct [where P = "\<lambda>_ _. False"])
  then show ?thesis
    unfolding cpu_idle_def by (cases "idle_loop (upd_cpu (\<lambda>c. c\<lparr>eflags := eflags c OR 0x200\<rparr>) k)") blast+
qed

end
