(* ===== verification/ForkMem.thy ===== *)
theory ForkMem
  imports Syscalls
begin

text \<open>
  The memory half of \<^verbatim>\<open>sys_fork\<close>: the frames the child gets or the roll back when there are
  not enough, the pages it shares with its parent, and the copy of the data pages through a
  page mapped for the moment.  Page tables are seen through \<^const>\<open>pt_entry\<close>; a page directory
  is the aligned table whose entry 0 points to the page table.
\<close>

lemma pt_entry_set_ss_pag:
  "page_aligned PT \<Longrightarrow> page_aligned PT' \<Longrightarrow> p < 1024 \<Longrightarrow> p' < 1024 \<Longrightarrow>
   pt_entry (set_ss_pag PT p f m) PT' p' = (if PT' = PT \<and> p' = p then ss_entry f else pt_entry m PT' p')"
  by (rule ps.entry_map)

lemma pt_entry_del_ss_pag:
  "page_aligned PT \<Longrightarrow> page_aligned PT' \<Longrightarrow> p < 1024 \<Longrightarrow> p' < 1024 \<Longrightarrow>
   pt_entry (del_ss_pag PT p m) PT' p' = (if PT' = PT \<and> p' = p then 0 else pt_entry m PT' p')"
  by (rule ps.entry_unmap)

lemma avail_set_ss_pag [simp]: "avail (set_ss_pag PT p f m) = avail m"
  by (rule avail_phys_cong) simp

lemma avail_del_ss_pag [simp]: "avail (del_ss_pag PT p m) = avail m"
  by (rule avail_phys_cong) simp

lemma unat_frame: "f < 1024 \<Longrightarrow> unat ((of_nat f :: dword) AND mask 20) = f"
proof -
  assume f: "f < 1024"
  have "unat ((of_nat f :: dword) AND mask 20) = take_bit 20 (unat (of_nat f :: dword))"
    unfolding take_bit_eq_mask [symmetric] by (rule unsigned_take_bit_eq)
  then show ?thesis
    using f by (simp add: unat_of_nat take_bit_nat_eq_self)
qed

section \<open>The child's frames\<close>

text \<open>The \<open>n\<close> frames a run of allocations hands out.\<close>

definition next_frames :: "nat \<Rightarrow> mm_state \<Rightarrow> nat list" where
  "next_frames n m = take n (sorted_list_of_set (avail m))"

lemma next_frames_Suc:
  assumes "avail m \<noteq> {}"
  shows "next_frames (Suc n) m = Min (avail m) # next_frames n (set_frame (Min (avail m)) USED_FRAME m)"
  using sorted_list_of_set_nonempty [OF finite_avail assms] by (simp add: next_frames_def avail_use)

lemma next_frames_props:
  assumes "n \<le> card (avail m)"
  shows "length (next_frames n m) = n" and "distinct (next_frames n m)"
    and "set (next_frames n m) \<subseteq> avail m"
proof -
  have "length (sorted_list_of_set (avail m)) = card (avail m)"
    by simp
  then show "length (next_frames n m) = n"
    using assms by (simp add: next_frames_def)
  show "distinct (next_frames n m)"
    by (simp add: next_frames_def)
  show "set (next_frames n m) \<subseteq> avail m"
    using set_take_subset [of n "sorted_list_of_set (avail m)"] by (simp add: next_frames_def)
qed

lemma fork_alloc_step:
  assumes "pag < 20" and "avail m \<noteq> {}"
  shows "fork_alloc_from PT pag m = fork_alloc_from PT (pag + 1)
    (set_ss_pag PT (264 + pag) (of_nat (Min (avail m))) (set_frame (Min (avail m)) USED_FRAME m))"
proof -
  have "fst (alloc_frame m) \<noteq> -1"
    by (rule fa.alloc_result_nonneg(1) [OF assms(2)])
  then show ?thesis
    using assms by (subst fork_alloc_from.simps) (simp add: alloc_frame_some)
qed

lemma fork_alloc_ok:
  assumes "pag + n = 20" and "n \<le> card (avail m)" and "page_aligned PT"
  defines "r \<equiv> fork_alloc_from PT pag m"
  shows "fst r" and "avail (snd r) = avail m - set (next_frames n m)"
    and "page_aligned PT' \<Longrightarrow> p < 1024 \<Longrightarrow> pt_entry (snd r) PT' p =
      (if PT' = PT \<and> 264 + pag \<le> p \<and> p < 284
       then ss_entry (of_nat (next_frames n m ! (p - (264 + pag)))) else pt_entry m PT' p)"
    and "ram (snd r) = ram m" and "cr3 (snd r) = cr3 m" and "cr0 (snd r) = cr0 m"
proof -
  have "fst r \<and> avail (snd r) = avail m - set (next_frames n m) \<and>
    (page_aligned PT' \<longrightarrow> p < 1024 \<longrightarrow> pt_entry (snd r) PT' p =
      (if PT' = PT \<and> 264 + pag \<le> p \<and> p < 284
       then ss_entry (of_nat (next_frames n m ! (p - (264 + pag)))) else pt_entry m PT' p)) \<and>
    ram (snd r) = ram m \<and> cr3 (snd r) = cr3 m \<and> cr0 (snd r) = cr0 m"
    using assms(1,2) unfolding r_def
  proof (induction n arbitrary: pag m)
    case 0
    then show ?case
      by (auto simp: fork_alloc_from.simps next_frames_def)
  next
    case (Suc n)
    then have ne: "avail m \<noteq> {}" and lt: "pag < 20"
      by auto
    let ?f = "Min (avail m)"
    let ?m = "set_frame ?f USED_FRAME m"
    let ?m' = "set_ss_pag PT (264 + pag) (of_nat ?f) ?m"
    have av: "avail ?m' = avail m - {?f}"
      by (simp add: avail_use)
    have "n \<le> card (avail ?m')"
      unfolding av using Suc.prems(2) Min_in [OF finite_avail ne] by simp
    note IH = Suc.IH [of "pag + 1" ?m', OF _ this]
    have nf: "next_frames n ?m' = next_frames n ?m"
      by (simp add: next_frames_def)
    note hd_tl = next_frames_Suc [OF ne, of n]
    show ?case
      unfolding fork_alloc_step [OF lt ne] hd_tl
    proof (intro conjI impI)
      assume al: "page_aligned PT'" and p: "p < 1024"
      have "pt_entry (snd (fork_alloc_from PT (pag + 1) ?m')) PT' p =
          (if PT' = PT \<and> 264 + (pag + 1) \<le> p \<and> p < 284
           then ss_entry (of_nat (next_frames n ?m ! (p - (264 + (pag + 1))))) else pt_entry ?m' PT' p)"
        using IH Suc.prems(1) al p nf by simp
      also have "\<dots> = (if PT' = PT \<and> 264 + pag \<le> p \<and> p < 284
           then ss_entry (of_nat ((?f # next_frames n ?m) ! (p - (264 + pag)))) else pt_entry m PT' p)"
        using al p assms(3) lt
        by (auto simp: pt_entry_set_ss_pag nth_Cons' Suc_diff_Suc)
      finally show "pt_entry (snd (fork_alloc_from PT (pag + 1) ?m')) PT' p = \<dots>" .
    qed (use IH Suc.prems(1) av nf in auto)
  qed
  then show "fst r" and "avail (snd r) = avail m - set (next_frames n m)"
    and "page_aligned PT' \<Longrightarrow> p < 1024 \<Longrightarrow> pt_entry (snd r) PT' p =
      (if PT' = PT \<and> 264 + pag \<le> p \<and> p < 284
       then ss_entry (of_nat (next_frames n m ! (p - (264 + pag)))) else pt_entry m PT' p)"
    and "ram (snd r) = ram m" and "cr3 (snd r) = cr3 m" and "cr0 (snd r) = cr0 m"
    by simp_all
qed

section \<open>Running out of frames\<close>

text \<open>
  The roll back frees the frames of the pages mapped so far and clears the entries.  All of
  them come back, because none is frame 256, which \<^verbatim>\<open>free_frame\<close> refuses.
\<close>

lemma fork_undo_page_simps [simp]:
  "ram (fork_undo_page PT i m) = ram m" "cr3 (fork_undo_page PT i m) = cr3 m"
  "cr0 (fork_undo_page PT i m) = cr0 m"
  by (simp_all add: fork_undo_page_def Let_def)

lemma fork_undo_page_entry:
  assumes "page_aligned PT" and "page_aligned PT'" and "i < 20" and "p < 1024"
  shows "pt_entry (fork_undo_page PT i m) PT' p = (if PT' = PT \<and> p = 264 + i then 0 else pt_entry m PT' p)"
  using assms by (simp add: fork_undo_page_def Let_def pt_entry_del_ss_pag)

lemma fork_undo_page_avail:
  assumes "pt_entry m PT (264 + i) = ss_entry (of_nat f)" and "f \<in> returnable"
  shows "avail (fork_undo_page PT i m) = insert f (avail m)"
proof -
  have "f < 1024"
    using assms(2) by (simp add: returnable_def)
  then have "get_frame PT (264 + i) m = of_nat f"
    using assms(1) unat_frame [of f]
    by (intro unsigned_word_eqI [where ?'a = nat]) (simp add: get_frame_entry unat_of_nat)
  then show ?thesis
    using free_frame_avail(1) [OF assms(2)] by (simp add: fork_undo_page_def Let_def)
qed

lemma fork_undo_pages:
  assumes "page_aligned PT" and "n \<le> 20" and "length fs = n" and "set fs \<subseteq> returnable"
    and "\<And>i. i < n \<Longrightarrow> pt_entry m PT (264 + i) = ss_entry (of_nat (fs ! i))"
  defines "m' \<equiv> fold (fork_undo_page PT) [0..<n] m"
  shows "avail m' = avail m \<union> set fs" and "ram m' = ram m" and "cr3 m' = cr3 m" and "cr0 m' = cr0 m"
    and "page_aligned PT' \<Longrightarrow> p < 1024 \<Longrightarrow>
      pt_entry m' PT' p = (if PT' = PT \<and> 264 \<le> p \<and> p < 264 + n then 0 else pt_entry m PT' p)"
proof -
  let ?u = "\<lambda>j. fold (fork_undo_page PT) [0..<j] m"
  have step: "avail (?u j) = avail m \<union> set (take j fs) \<and> ram (?u j) = ram m \<and> cr3 (?u j) = cr3 m \<and>
      cr0 (?u j) = cr0 m \<and> (\<forall>PT' p. page_aligned PT' \<longrightarrow> p < 1024 \<longrightarrow>
      pt_entry (?u j) PT' p = (if PT' = PT \<and> 264 \<le> p \<and> p < 264 + j then 0 else pt_entry m PT' p))"
    if "j \<le> n" for j
    using that
  proof (induction j)
    case (Suc j)
    then have j: "j < n"
      by simp
    have IH: "avail (?u j) = avail m \<union> set (take j fs)" "ram (?u j) = ram m" "cr3 (?u j) = cr3 m"
        "cr0 (?u j) = cr0 m"
      "\<And>PT' p. page_aligned PT' \<Longrightarrow> p < 1024 \<Longrightarrow>
        pt_entry (?u j) PT' p = (if PT' = PT \<and> 264 \<le> p \<and> p < 264 + j then 0 else pt_entry m PT' p)"
      using Suc by simp_all
    have "pt_entry (?u j) PT (264 + j) = ss_entry (of_nat (fs ! j))"
      using IH(5) [of PT "264 + j"] assms(1,2) assms(5) [OF j] j by simp
    moreover have "fs ! j \<in> returnable"
      using assms(3,4) j by auto
    ultimately have "avail (fork_undo_page PT j (?u j)) = insert (fs ! j) (avail (?u j))"
      by (rule fork_undo_page_avail)
    moreover have "pt_entry (fork_undo_page PT j (?u j)) PT' p =
        (if PT' = PT \<and> 264 \<le> p \<and> p < 264 + Suc j then 0 else pt_entry m PT' p)"
      if "page_aligned PT'" "p < 1024" for PT' p
      using fork_undo_page_entry [OF assms(1) that(1) _ that(2), of j "?u j"] IH(5) [OF that] j assms(2)
      by auto
    ultimately show ?case
      using IH j assms(3) by (simp add: take_Suc_conv_app_nth)
  qed auto
  from step [of n] show "avail m' = avail m \<union> set fs" "ram m' = ram m" "cr3 m' = cr3 m" "cr0 m' = cr0 m"
    using assms(3) by (simp_all add: m'_def)
  from step [of n] show "page_aligned PT' \<Longrightarrow> p < 1024 \<Longrightarrow>
      pt_entry m' PT' p = (if PT' = PT \<and> 264 \<le> p \<and> p < 264 + n then 0 else pt_entry m PT' p)"
    by (simp add: m'_def)
qed

text \<open>The loop with its frames so far, up to the failing allocation.\<close>

lemma fork_alloc_fails:
  assumes "pag + card (avail m) < 20" and "page_aligned PT" and "length fs = pag"
    and "set fs \<subseteq> returnable" and "avail m \<subseteq> returnable"
    and "\<And>i. i < pag \<Longrightarrow> pt_entry m PT (264 + i) = ss_entry (of_nat (fs ! i))"
  defines "r \<equiv> fork_alloc_from PT pag m"
  shows "\<not> fst r \<and> avail (snd r) = avail m \<union> set fs \<and> ram (snd r) = ram m \<and> cr3 (snd r) = cr3 m \<and>
    cr0 (snd r) = cr0 m \<and> (page_aligned PT' \<longrightarrow> p < 1024 \<longrightarrow> (PT' = PT \<longrightarrow> \<not> (264 \<le> p \<and> p < 284)) \<longrightarrow>
    pt_entry (snd r) PT' p = pt_entry m PT' p)"
  using assms(1,3-6) unfolding r_def
proof (induction "card (avail m)" arbitrary: pag m fs)
  case 0
  then have e: "avail m = {}"
    by simp
  have "fork_alloc_from PT pag m = (False, fold (fork_undo_page PT) [0..<pag] m)"
    using 0 by (subst fork_alloc_from.simps) (simp add: alloc_frame_none [OF e])
  then show ?case
    using fork_undo_pages(1-4) [OF assms(2), of pag fs m]
      fork_undo_pages(5) [OF assms(2), of pag fs m PT' p] 0
    by auto
next
  case (Suc n)
  then have ne: "avail m \<noteq> {}" and lt: "pag < 20"
    by auto
  let ?f = "Min (avail m)"
  let ?m' = "set_ss_pag PT (264 + pag) (of_nat ?f) (set_frame ?f USED_FRAME m)"
  have f: "?f \<in> avail m"
    using Min_in [OF finite_avail ne] .
  have av: "avail ?m' = avail m - {?f}"
    by (simp add: avail_use)
  have c: "n = card (avail ?m')"
    unfolding av using Suc.hyps(2) f by simp
  have ent: "pt_entry ?m' PT (264 + i) = ss_entry (of_nat ((fs @ [?f]) ! i))" if "i < pag + 1" for i
    using that lt assms(2) Suc.prems(2) Suc.prems(5) [of i]
    by (auto simp: pt_entry_set_ss_pag nth_append)
  have IH: "\<not> fst (fork_alloc_from PT (pag + 1) ?m') \<and>
      avail (snd (fork_alloc_from PT (pag + 1) ?m')) = avail ?m' \<union> set (fs @ [?f]) \<and>
      ram (snd (fork_alloc_from PT (pag + 1) ?m')) = ram ?m' \<and>
      cr3 (snd (fork_alloc_from PT (pag + 1) ?m')) = cr3 ?m' \<and>
      cr0 (snd (fork_alloc_from PT (pag + 1) ?m')) = cr0 ?m' \<and>
      (page_aligned PT' \<longrightarrow> p < 1024 \<longrightarrow> (PT' = PT \<longrightarrow> \<not> (264 \<le> p \<and> p < 284)) \<longrightarrow>
        pt_entry (snd (fork_alloc_from PT (pag + 1) ?m')) PT' p = pt_entry ?m' PT' p)"
    using Suc.prems Suc.hyps(2) c f av ent by (intro Suc.hyps(1)) auto
  have "avail ?m' \<union> set (fs @ [?f]) = avail m \<union> set fs"
    using f av by auto
  moreover have "pt_entry ?m' PT' p = pt_entry m PT' p"
    if "page_aligned PT'" "p < 1024" "PT' = PT \<longrightarrow> \<not> (264 \<le> p \<and> p < 284)"
    using that lt assms(2) by (auto simp: pt_entry_set_ss_pag)
  ultimately show ?case
    unfolding fork_alloc_step [OF lt ne] using IH by simp
qed

section \<open>Shared pages\<close>

text \<open>Copying entries of one table into another one, as \<^verbatim>\<open>set_ss_pag(PT, p, get_frame(PT0, p))\<close>.\<close>

lemma share_loop:
  assumes "page_aligned PT" "page_aligned PT0" "PT0 \<noteq> PT" "b + n \<le> 1024" "page_aligned PT'" "p < 1024"
  shows "pt_entry (fold (\<lambda>k m. set_ss_pag PT (b + k) (get_frame PT0 (b + k) m) m) [0..<n] m) PT' p =
    (if PT' = PT \<and> b \<le> p \<and> p < b + n then ss_entry (get_frame PT0 p m) else pt_entry m PT' p)"
  using assms(4-)
proof (induction n arbitrary: PT' p)
  case (Suc n)
  let ?m = "fold (\<lambda>k m. set_ss_pag PT (b + k) (get_frame PT0 (b + k) m) m) [0..<n] m"
  have "get_frame PT0 (b + n) ?m = get_frame PT0 (b + n) m"
    using Suc.IH [of PT0 "b + n"] Suc.prems assms(2,3) by (simp add: get_frame_entry)
  then show ?case
    using Suc assms(1) by (auto simp: pt_entry_set_ss_pag less_Suc_eq_le)
qed auto

lemma share_loop_simps:
  "ram (fold (\<lambda>k m. set_ss_pag PT (f k) (g k m) m) is m) = ram m \<and>
   cr3 (fold (\<lambda>k m. set_ss_pag PT (f k) (g k m) m) is m) = cr3 m \<and>
   cr0 (fold (\<lambda>k m. set_ss_pag PT (f k) (g k m) m) is m) = cr0 m \<and>
   avail (fold (\<lambda>k m. set_ss_pag PT (f k) (g k m) m) is m) = avail m \<and>
   phys_mem (fold (\<lambda>k m. set_ss_pag PT (f k) (g k m) m) is m) = phys_mem m"
  by (induction "is" arbitrary: m) simp_all

lemma fork_share_pages_simps [simp]:
  "ram (fork_share_pages P C m) = ram m" "cr3 (fork_share_pages P C m) = cr3 m"
  "cr0 (fork_share_pages P C m) = cr0 m" "avail (fork_share_pages P C m) = avail m"
  "phys_mem (fork_share_pages P C m) = phys_mem m"
  by (simp_all add: fork_share_pages_def Let_def share_loop_simps)

lemma fork_share_pages_entry:
  assumes "page_aligned P" "page_aligned C" "P \<noteq> C" "page_aligned PT'" "p < 1024"
  shows "pt_entry (fork_share_pages P C m) PT' p =
    (if PT' = C \<and> p < 264 then ss_entry (get_frame P p m) else pt_entry m PT' p)"
proof -
  let ?m1 = "fold (\<lambda>k m. set_ss_pag C (0 + k) (get_frame P (0 + k) m) m) [0..<256] m"
  have one: "fold (\<lambda>pag m. set_ss_pag C pag (get_frame P pag m) m) [0..<256] m = ?m1"
    by simp
  have e1: "pt_entry ?m1 PT'' q = (if PT'' = C \<and> q < 256 then ss_entry (get_frame P q m) else pt_entry m PT'' q)"
    if "page_aligned PT''" "q < 1024" for PT'' q
    using share_loop [OF assms(2,1,3), of 0 256 PT'' q m] that by simp
  have "get_frame P p ?m1 = get_frame P p m"
    using e1 [OF assms(1,5)] assms(3) by (simp add: get_frame_entry)
  moreover have "pt_entry (fork_share_pages P C m) PT' p =
      (if PT' = C \<and> 256 \<le> p \<and> p < 264 then ss_entry (get_frame P p ?m1) else pt_entry ?m1 PT' p)"
    unfolding fork_share_pages_def Let_def one
    using share_loop [OF assms(2,1,3), of 256 8 PT' p ?m1] assms(4,5) by simp
  ultimately show ?thesis
    using e1 [OF assms(4,5)] by auto
qed

section \<open>The copy of the data pages\<close>

lemma get_frame_bound: "unat (get_frame PT p m) < 2 ^ 20"
proof -
  have "pte_pbase_addr e = pte_pbase_addr e AND mask 20" for e
    unfolding pte_pbase_addr_def bits_get_def by (rule bit_word_eqI) (auto simp: bit_simps)
  then have "get_frame PT p m = take_bit 20 (get_frame PT p m)"
    by (simp add: get_frame_def take_bit_eq_mask)
  then have "unat (get_frame PT p m) = take_bit 20 (unat (get_frame PT p m))"
    by (metis unsigned_take_bit_eq)
  then show ?thesis
    using take_bit_nat_less_exp [of 20 "unat (get_frame PT p m)"] by simp
qed

definition frame_of :: "mm_state \<Rightarrow> addr \<Rightarrow> nat \<Rightarrow> nat" where
  "frame_of m PT p = unat (get_frame PT p m)"

lemma frame_of_bound: "frame_of m PT p < 1048576"
  using get_frame_bound [of PT p m] by (simp add: frame_of_def)

lemma frame_of_cong: "pt_entry m' PT p = pt_entry m PT p \<Longrightarrow> frame_of m' PT p = frame_of m PT p"
  by (simp add: frame_of_def get_frame_entry)

lemma mapped_page:
  assumes "space m D PT" and "p < 1024" and "pte_present (pt_entry m PT p) = 1"
  shows "mapped (translate m) (page_addr p 0) 4096 (page_addr (frame_of m PT p))"
  using assms translate_page [OF assms(1,2)]
  by (simp add: mapped_def byte_at_page_addr frame_of_def)

lemma apart_frames:
  assumes "f < 2 ^ 20" "g < 2 ^ 20" "f \<noteq> g"
  shows "apart (page_addr f) (page_addr g) 4096"
  using assms by (auto simp: apart_def page_addr_inj inj_on_def)

text \<open>
  One page: the child's frame receives the bytes of the parent's page, the entry used for the
  copy is clear again, and nothing else changes.
\<close>

lemma fork_copy_page_ok:
  assumes sp: "space m D P" and al: "page_aligned P" "page_aligned C" "P \<noteq> C" and D: "D \<noteq> P"
    and pag: "pag < 1004" and pr: "pte_present (pt_entry m P pag) = 1"
    and ne: "frame_of m P pag \<noteq> frame_of m C pag"
  shows "\<exists>m'. fork_copy_page P C pag m = Some m' \<and>
    ram m' = blit (page_addr (frame_of m P pag)) (page_addr (frame_of m C pag)) 4096 (ram m) \<and>
    phys_mem m' = phys_mem m \<and> cr3 m' = cr3 m \<and> cr0 m' = cr0 m \<and>
    (\<forall>PT' p. page_aligned PT' \<longrightarrow> p < 1024 \<longrightarrow>
       pt_entry m' PT' p = (if PT' = P \<and> p = pag + 20 then 0 else pt_entry m PT' p))"
proof -
  let ?m1 = "set_ss_pag P (pag + 20) (get_frame C pag m) m"
  have Dal: "page_aligned D"
    using sp by (simp add: space_def)
  have e: "pt_entry ?m1 PT' p = (if PT' = P \<and> p = pag + 20 then ss_entry (get_frame C pag m) else pt_entry m PT' p)"
    if "page_aligned PT'" "p < 1024" for PT' p
    using that al pag by (simp add: pt_entry_set_ss_pag)
  have "pte ?m1 D = pte m D"
    using e [OF Dal, of 0] D by (simp add: pt_entry_def)
  then have sp1: "space ?m1 D P"
    using sp by (simp add: space_def)
  have "pt_entry ?m1 P pag = pt_entry m P pag"
    using e [OF al(1), of pag] pag by simp
  then have S: "mapped (translate ?m1) (page_addr pag 0) 4096 (page_addr (frame_of m P pag))"
    using mapped_page [OF sp1, of pag] pag pr by (simp add: frame_of_def get_frame_entry)
  have new: "pt_entry ?m1 P (pag + 20) = ss_entry (get_frame C pag m)"
    using e [OF al(1), of "pag + 20"] pag by simp
  have "get_frame C pag m AND mask 20 = get_frame C pag m"
    using get_frame_bound [of C pag m] unfolding take_bit_eq_mask [symmetric]
    by (intro unsigned_word_eqI [where ?'a = nat])
      (simp add: unsigned_take_bit_eq take_bit_nat_eq_self)
  then have "frame_of ?m1 P (pag + 20) = frame_of m C pag"
    using new by (simp add: frame_of_def get_frame_entry [of P "pag + 20"])
  then have T: "mapped (translate ?m1) (page_addr (pag + 20) 0) 4096 (page_addr (frame_of m C pag))"
    using mapped_page [OF sp1, of "pag + 20"] pag new by simp
  have "copy_data (translate ?m1) (page_addr pag 0) (page_addr (pag + 20) 0) (int 4096) (ram ?m1) =
      Some (blit (page_addr (frame_of m P pag)) (page_addr (frame_of m C pag)) 4096 (ram ?m1))"
    by (rule copy_data_blit [OF S T apart_frames]) (use ne in \<open>simp_all add: frame_of_bound\<close>)
  then have run: "fork_copy_page P C pag m = Some (del_ss_pag P (pag + 20)
      (?m1\<lparr>ram := blit (page_addr (frame_of m P pag)) (page_addr (frame_of m C pag)) 4096 (ram m)\<rparr>))"
    by (simp add: fork_copy_page_def Let_def page_addr_def)
  have "pt_entry (del_ss_pag P (pag + 20) (?m1\<lparr>ram := r\<rparr>)) PT' p =
      (if PT' = P \<and> p = pag + 20 then 0 else pt_entry m PT' p)"
    if "page_aligned PT'" "p < 1024" for PT' p r
  proof -
    have "pt_entry (?m1\<lparr>ram := r\<rparr>) = pt_entry ?m1"
      by (simp add: pt_entry_def fun_eq_iff)
    then show ?thesis
      using that al pag e [OF that] by (simp add: pt_entry_del_ss_pag)
  qed
  with run show ?thesis by auto
qed

text \<open>The whole loop.\<close>

definition copied :: "mm_state \<Rightarrow> mm_state \<Rightarrow> addr \<Rightarrow> addr \<Rightarrow> nat set \<Rightarrow> bool" where
  "copied m m' P C pags \<longleftrightarrow>
     (\<forall>pag \<in> pags. \<forall>k < 4096. ram m' (page_addr (frame_of m C pag) k) = ram m (page_addr (frame_of m P pag) k)) \<and>
     (\<forall>a. (\<forall>pag \<in> pags. \<forall>k < 4096. a \<noteq> page_addr (frame_of m C pag) k) \<longrightarrow> ram m' a = ram m a)"

lemma copied_step:
  assumes r1: "ram m1 = blit (page_addr (frame_of m P pag)) (page_addr (frame_of m C pag)) 4096 (ram m)"
    and c: "copied m1 m' P C pags" and new: "pag \<notin> pags"
    and eqs: "\<And>q. q \<in> insert pag pags \<Longrightarrow> frame_of m1 P q = frame_of m P q"
      "\<And>q. q \<in> insert pag pags \<Longrightarrow> frame_of m1 C q = frame_of m C q"
    and ne: "\<And>q q'. q \<in> insert pag pags \<Longrightarrow> q' \<in> insert pag pags \<Longrightarrow> frame_of m P q \<noteq> frame_of m C q'"
    and inj: "inj_on (frame_of m C) (insert pag pags)"
  shows "copied m m' P C (insert pag pags)"
proof -
  have ap: "apart (page_addr (frame_of m P pag)) (page_addr (frame_of m C pag)) 4096"
    using ne [of pag pag] frame_of_bound by (intro apart_frames) simp_all
  have dst: "ram m1 (page_addr (frame_of m C pag) k) = ram m (page_addr (frame_of m P pag) k)" if "k < 4096" for k
    unfolding r1 by (rule blit_dst [OF ap that])
  have other: "ram m1 a = ram m a" if "\<And>k. k < 4096 \<Longrightarrow> a \<noteq> page_addr (frame_of m C pag) k" for a
    unfolding r1 by (rule blit_other) (use that in auto)
  have frames: "page_addr f k \<noteq> page_addr g j" if "f \<noteq> g" "f < 1048576" "g < 1048576" "k < 4096" "j < 4096" for f g k j
    using that by (simp add: page_addr_inj)
  show ?thesis
    unfolding copied_def
  proof (intro conjI ballI allI impI)
    fix q k :: nat
    assume q: "q \<in> insert pag pags" and k: "k < 4096"
    show "ram m' (page_addr (frame_of m C q) k) = ram m (page_addr (frame_of m P q) k)"
    proof (cases "q = pag")
      case True
      have "page_addr (frame_of m C pag) k \<noteq> page_addr (frame_of m1 C q') j" if "q' \<in> pags" "j < 4096" for q' j
      proof -
        have "frame_of m C pag \<noteq> frame_of m C q'"
          using inj that(1) new by (auto simp: inj_on_def)
        then show ?thesis
          using frames k that eqs(2) [of q'] frame_of_bound by simp
      qed
      then have "ram m' (page_addr (frame_of m C pag) k) = ram m1 (page_addr (frame_of m C pag) k)"
        using c by (simp add: copied_def)
      with True dst [OF k] show ?thesis by simp
    next
      case False
      then have q': "q \<in> pags"
        using q by simp
      have "ram m' (page_addr (frame_of m C q) k) = ram m1 (page_addr (frame_of m P q) k)"
        using c q' k eqs [of q] by (auto simp: copied_def)
      also have "\<dots> = ram m (page_addr (frame_of m P q) k)"
        using frames [of "frame_of m P q" "frame_of m C pag"] ne [of q pag] q k frame_of_bound
        by (intro other) simp
      finally show ?thesis .
    qed
  next
    fix a :: addr
    assume a: "\<forall>q \<in> insert pag pags. \<forall>k < 4096. a \<noteq> page_addr (frame_of m C q) k"
    then have "ram m' a = ram m1 a"
      using c eqs(2) by (auto simp: copied_def)
    also have "\<dots> = ram m a"
      using a by (intro other) simp
    finally show "ram m' a = ram m a" .
  qed
qed

lemma fork_copy_pages_ok:
  assumes "space m D P" and "page_aligned P" "page_aligned C" "P \<noteq> C" and "D \<noteq> P"
    and "distinct pags" and "set pags \<subseteq> {264..<284}"
    and "\<And>q. q \<in> set pags \<Longrightarrow> pte_present (pt_entry m P q) = 1"
    and "\<And>q q'. q \<in> set pags \<Longrightarrow> q' \<in> set pags \<Longrightarrow> frame_of m P q \<noteq> frame_of m C q'"
    and "inj_on (frame_of m C) (set pags)"
  shows "\<exists>m'. fork_copy_pages P C pags m = Some m' \<and> copied m m' P C (set pags) \<and>
    phys_mem m' = phys_mem m \<and> cr3 m' = cr3 m \<and> cr0 m' = cr0 m \<and>
    (\<forall>PT' p. page_aligned PT' \<longrightarrow> p < 1024 \<longrightarrow>
       pt_entry m' PT' p = (if PT' = P \<and> p \<in> (\<lambda>q. q + 20) ` set pags then 0 else pt_entry m PT' p))"
  using assms
proof (induction pags arbitrary: m)
  case Nil
  then show ?case
    by (auto simp: copied_def)
next
  case (Cons pag pags)
  have pag: "264 \<le> pag" "pag < 284" "pag < 1004"
    using Cons.prems(7) by auto
  obtain m1 where m1: "fork_copy_page P C pag m = Some m1"
      "ram m1 = blit (page_addr (frame_of m P pag)) (page_addr (frame_of m C pag)) 4096 (ram m)"
      "phys_mem m1 = phys_mem m" "cr3 m1 = cr3 m" "cr0 m1 = cr0 m"
    and e1: "\<And>PT' p. page_aligned PT' \<Longrightarrow> p < 1024 \<Longrightarrow>
       pt_entry m1 PT' p = (if PT' = P \<and> p = pag + 20 then 0 else pt_entry m PT' p)"
    using fork_copy_page_ok [OF Cons.prems(1-5) pag(3)] Cons.prems(8,9) by auto
  have same: "pt_entry m1 PT' q = pt_entry m PT' q" if "page_aligned PT'" "q < 284" for PT' q
    using e1 [OF that(1), of q] that(2) pag by auto
  have fr: "frame_of m1 P q = frame_of m P q" "frame_of m1 C q = frame_of m C q" if "q < 284" for q
    using same [OF Cons.prems(2) that] same [OF Cons.prems(3) that] by (auto intro: frame_of_cong)
  have lt: "q < 284" if "q \<in> set (pag # pags)" for q
    using that Cons.prems(7) by auto
  have Dal: "page_aligned D"
    using Cons.prems(1) by (simp add: space_def)
  have "pte m1 D = pte m D"
    using e1 [OF Dal, of 0] Cons.prems(5) by (simp add: pt_entry_def)
  then have sp1: "space m1 D P"
    using Cons.prems(1) m1 by (simp add: space_def)
  have "\<exists>m'. fork_copy_pages P C pags m1 = Some m' \<and> copied m1 m' P C (set pags) \<and>
    phys_mem m' = phys_mem m1 \<and> cr3 m' = cr3 m1 \<and> cr0 m' = cr0 m1 \<and>
    (\<forall>PT' p. page_aligned PT' \<longrightarrow> p < 1024 \<longrightarrow>
       pt_entry m' PT' p = (if PT' = P \<and> p \<in> (\<lambda>q. q + 20) ` set pags then 0 else pt_entry m1 PT' p))"
  proof (rule Cons.IH [OF sp1 Cons.prems(2-5)])
    show "distinct pags" "set pags \<subseteq> {264..<284}"
      using Cons.prems(6,7) by auto
    show "pte_present (pt_entry m1 P q) = 1" if "q \<in> set pags" for q
      using Cons.prems(8) [of q] same [OF Cons.prems(2), of q] lt [of q] that by simp
    show "frame_of m1 P q \<noteq> frame_of m1 C q'" if "q \<in> set pags" "q' \<in> set pags" for q q'
      using Cons.prems(9) [of q q'] fr lt [of q] lt [of q'] that by simp
    show "inj_on (frame_of m1 C) (set pags)"
      using Cons.prems(10) fr lt by (auto simp: inj_on_def)
  qed
  then obtain m' where m': "fork_copy_pages P C pags m1 = Some m'" "copied m1 m' P C (set pags)"
      "phys_mem m' = phys_mem m1" "cr3 m' = cr3 m1" "cr0 m' = cr0 m1"
    and e': "\<And>PT' p. page_aligned PT' \<Longrightarrow> p < 1024 \<Longrightarrow>
       pt_entry m' PT' p = (if PT' = P \<and> p \<in> (\<lambda>q. q + 20) ` set pags then 0 else pt_entry m1 PT' p)"
    by auto
  have "copied m m' P C (insert pag (set pags))"
  proof (rule copied_step [OF m1(2) m'(2)])
    show "pag \<notin> set pags"
      using Cons.prems(6) by simp
    show "frame_of m1 P q = frame_of m P q" "frame_of m1 C q = frame_of m C q"
      if "q \<in> insert pag (set pags)" for q
      using fr lt that by simp_all
  qed (use Cons.prems(9,10) in simp_all)
  then show ?case
    using m1 m' e1 e' by auto
qed

end
