(* ===== verification/Rows.thy ===== *)
theory Rows
  imports AddrSpace
begin

text \<open>
  The two arrays of page directories and page tables: their rows are aligned, pairwise
  distinct pages, and \<^verbatim>\<open>init_dir_pages\<close> points the first entry of each directory to the table
  of the same index.
\<close>

lemma unat_row:
  assumes "unat base + 10 * 4096 < 0x100000" and "i < 10"
  shows "unat (base + 4096 * of_nat i :: dword) = unat base + 4096 * i"
proof -
  have "unat (base + of_nat (4096 * i) :: dword) = unat base + 4096 * i"
    by (rule unat_add_small) (use assms in simp)
  then show ?thesis by simp
qed

lemma dir_bound: "layout_ok L \<Longrightarrow> unat (dir_pages L) + 10 * 4096 < 0x100000"
  and pt_bound: "layout_ok L \<Longrightarrow> unat (pagusr_table L) + 10 * 4096 < 0x100000"
  and dirs_tables_apart: "layout_ok L \<Longrightarrow>
    unat (dir_pages L) + 10 * 4096 \<le> unat (pagusr_table L) \<or>
    unat (pagusr_table L) + 10 * 4096 \<le> unat (dir_pages L)"
  and dir_aligned: "layout_ok L \<Longrightarrow> page_aligned (dir_pages L)"
  and pt_aligned: "layout_ok L \<Longrightarrow> page_aligned (pagusr_table L)"
  by (simp_all add: layout_ok_def)

lemma unat_dir_row: "layout_ok L \<Longrightarrow> i < 10 \<Longrightarrow> unat (dir_row L i) = unat (dir_pages L) + 4096 * i"
  unfolding dir_row_def by (rule unat_row [OF dir_bound])

lemma unat_pt_row: "layout_ok L \<Longrightarrow> i < 10 \<Longrightarrow> unat (pt_row L i) = unat (pagusr_table L) + 4096 * i"
  unfolding pt_row_def by (rule unat_row [OF pt_bound])

lemma dir_row_aligned: "layout_ok L \<Longrightarrow> i < 10 \<Longrightarrow> page_aligned (dir_row L i)"
  using dir_aligned [of L] by (simp add: page_aligned_nat unat_dir_row)

lemma pt_row_aligned: "layout_ok L \<Longrightarrow> i < 10 \<Longrightarrow> page_aligned (pt_row L i)"
  using pt_aligned [of L] by (simp add: page_aligned_nat unat_pt_row)

lemma dir_row_inj: "layout_ok L \<Longrightarrow> i < 10 \<Longrightarrow> j < 10 \<Longrightarrow> dir_row L i = dir_row L j \<longleftrightarrow> i = j"
  by (metis unat_dir_row add_left_cancel mult_left_cancel zero_neq_numeral)

lemma pt_row_inj: "layout_ok L \<Longrightarrow> i < 10 \<Longrightarrow> j < 10 \<Longrightarrow> pt_row L i = pt_row L j \<longleftrightarrow> i = j"
  by (metis unat_pt_row add_left_cancel mult_left_cancel zero_neq_numeral)

lemma dir_row_not_pt_row:
  assumes "layout_ok L" "i < 10" "j < 10"
  shows "dir_row L i \<noteq> pt_row L j"
proof
  assume "dir_row L i = pt_row L j"
  then have "unat (dir_pages L) + 4096 * i = unat (pagusr_table L) + 4096 * j"
    using assms by (metis unat_dir_row unat_pt_row)
  then show False
    using dirs_tables_apart [OF assms(1)] assms(2,3) by linarith
qed

text \<open>
  The first entry of each directory is present, open to the user for writing, and points to the
  table of its row.
\<close>

definition table_rows :: "layout \<Rightarrow> mm_state \<Rightarrow> bool" where
  "table_rows L m \<longleftrightarrow> (\<forall>i < 10. pte_present (pt_entry m (dir_row L i) 0) = 1 \<and>
     pte_user (pt_entry m (dir_row L i) 0) = 1 \<and> pte_rw (pt_entry m (dir_row L i) 0) = 1 \<and>
     push_bit 12 (pte_pbase_addr (pt_entry m (dir_row L i) 0)) = pt_row L i)"

lemma table_rows_cong:
  assumes "table_rows L m" and "\<And>i. i < 10 \<Longrightarrow> pt_entry m' (dir_row L i) 0 = pt_entry m (dir_row L i) 0"
  shows "table_rows L m'"
  using assms by (simp add: table_rows_def)

lemma get_PT_row:
  assumes "table_rows L m" "i < 10" "dir_pages_baseAddr t = dir_row L i"
  shows "get_PT t (pte m) = pt_row L i"
  using assms by (simp add: get_PT_def table_rows_def pt_entry_def)

lemma space_row:
  assumes "layout_ok L" "table_rows L m" "i < 10" "cr3 m = dir_row L i" "bit (cr0 m) 31"
  shows "space m (dir_row L i) (pt_row L i)"
  using assms dir_row_aligned [OF assms(1,3)] by (simp add: space_def table_rows_def pt_entry_def)

text \<open>\<^verbatim>\<open>init_dir_pages\<close> establishes it.\<close>

lemma init_dir_entry_eq:
  "init_dir_entry L i m = pte_write (dir_row L i) (\<lambda>_. ss_entry (drop_bit 12 (pt_row L i))) m"
  by (rule mm_state_eqI) (simp_all add: init_dir_entry_def Let_def ss_entry_def)

lemma row_base:
  assumes "layout_ok L" "i < 10"
  shows "push_bit 12 (drop_bit 12 (pt_row L i) AND mask 20) = pt_row L i"
proof -
  have "pt_row L i AND mask 12 = 0"
    using pt_row_aligned [OF assms] by (simp add: page_aligned_def mask_eq_exp_minus_1)
  then have low: "\<not> bit (pt_row L i) n" if "n < 12" for n
    using that bit_and_iff [of "pt_row L i" "mask 12" n] by (simp add: bit_mask_iff)
  have "12 \<le> n" if "bit (pt_row L i) n" for n
    using low that not_less by blast
  then show ?thesis
    by (intro bit_word_eqI) (auto simp: bit_simps)
qed

lemma init_dir_pages_rows:
  assumes "layout_ok L"
  shows "table_rows L (init_dir_pages L m)"
proof -
  have "pt_entry (fold (init_dir_entry L) [0..<n] m) (dir_row L i) 0 =
      ss_entry (drop_bit 12 (pt_row L i))" if "i < n" "n \<le> 10" for n i
    using that
  proof (induction n)
    case (Suc n)
    then show ?case
      using dir_row_inj [OF assms, of i n]
      by (auto simp: init_dir_entry_eq pt_entry_def less_Suc_eq)
  qed simp
  then show ?thesis
    using row_base [OF assms] by (simp add: table_rows_def init_dir_pages_def)
qed

end
