(* ===== verification/Switch.thy ===== *)
theory Switch
  imports Sched
begin

text \<open>
  What the context switch of kernel-utils.S and \<^verbatim>\<open>inner_task_switch\<close> do: the frame a task
  leaves on its stack, and that switching back to it restores its registers and continues
  it at the return address of its own call.
\<close>

lemmas kernel_upd_defs =
  upd_task_def upd_cpu_def upd_lists_def upd_mm_def stack_write_def push_dword_def pop_dword_def

text \<open>\<open>on_stack k A n\<close>: the stack pointer is in the stack page of task \<open>A\<close> with room for \<open>n\<close> bytes.\<close>

definition on_stack :: "kernel \<Rightarrow> addr \<Rightarrow> nat \<Rightarrow> bool" where
  "on_stack k A n \<longleftrightarrow> page_aligned A \<and>
     n \<le> unat (esp (cpu k) - A) \<and> unat (esp (cpu k) - A) < 4096"

abbreviation stack_page :: "addr \<Rightarrow> addr" where
  "stack_page a \<equiv> a AND 0xfffff000"

lemma on_stack_less: "on_stack k A n \<Longrightarrow> m \<le> n \<Longrightarrow> on_stack k A m"
  by (simp add: on_stack_def)

lemma on_stack_page:
  assumes "on_stack k A n" and "m \<le> n"
  shows "stack_page (esp (cpu k) - of_nat m) = A"
proof -
  let ?off = "esp (cpu k) - A - of_nat m"
  have A: "page_aligned A" and o: "n \<le> unat (esp (cpu k) - A)" "unat (esp (cpu k) - A) < 4096"
    using assms(1) by (simp_all add: on_stack_def)
  have "(of_nat m :: addr) \<le> esp (cpu k) - A"
    using o assms(2) by (simp add: word_le_nat_alt unat_of_nat)
  then have "unat ?off = unat (esp (cpu k) - A) - unat (of_nat m :: addr)"
    by (rule unat_sub)
  then have "unat ?off < 4096"
    using o by simp
  from page_offset(1) [OF A this] show ?thesis
    by (simp add: algebra_simps)
qed

lemma current_on_stack: "on_stack k A n \<Longrightarrow> 12 \<le> n \<Longrightarrow> current k = A"
  using on_stack_page [of k A n 12] by (simp add: current_def)

text \<open>The state when \<^verbatim>\<open>task_switch\<close> has pushed its frame and called.\<close>

definition switch_call :: "layout \<Rightarrow> addr \<Rightarrow> kernel \<Rightarrow> kernel" where
  "switch_call L new k =
     (let e = esp (cpu k); c = cpu k
      in k\<lparr>stack := (stack k)(e - 4 := ebp c, e - 8 := esi c, e - 12 := edi c, e - 16 := ebx c,
             e - 20 := new, e - 24 := task_switch_ret_code L),
           cpu := c\<lparr>ebp := e - 4, esp := e - 24\<rparr>\<rparr>)"

lemma task_switch_pushes:
  "push_dword (task_switch_ret_code L) (push_dword new (push_dword (ebx (cpu k))
      (push_dword (edi (cpu k)) (push_dword (esi (cpu k))
        (upd_cpu (\<lambda>c. c\<lparr>ebp := esp c\<rparr>) (push_dword (ebp (cpu k)) k)))))) = switch_call L new k"
  by (simp add: kernel_upd_defs switch_call_def Let_def)

lemma task_switch_call:
  "task_switch L new k =
    (let k' = inner_task_switch new (switch_call L new k)
     in if eip (cpu k') = task_switch_ret_code L then task_switch_epilogue k' else k')"
  by (simp add: task_switch_def Let_def task_switch_pushes)

text \<open>\<^verbatim>\<open>inner_task_switch\<close> saves the frame pointer and takes over the stack of the new task.\<close>

definition switch_to :: "addr \<Rightarrow> addr \<Rightarrow> kernel \<Rightarrow> kernel" where
  "switch_to A new k =
     (let e = esp (cpu k) - 4; s = register_esp (tasks k new); st = (stack k)(e := ebp (cpu k))
      in k\<lparr>tasks := (tasks k)(A := (tasks k A)\<lparr>register_esp := e\<rparr>), stack := st,
           mm := set_cr3 (dir_pages_baseAddr (tasks k new)) (mm k),
           cpu := (cpu k)\<lparr>esp := s + 8, ebp := st s, eip := st (s + 4)\<rparr>,
           tss := (tss k)\<lparr>tss_esp0 := new + 4096\<rparr>,
           msr := (msr k)(0x175 := (0, new + 4096))\<rparr>)"

lemma inner_task_switch_eq:
  assumes "on_stack k A 16"
  shows "inner_task_switch new k = switch_to A new k"
proof -
  have "esp (cpu k) - 16 AND 0xfffff000 = A"
    using on_stack_page [OF assms, of 16] by simp
  then show ?thesis
    by (simp add: inner_task_switch_def switch_stack_def kernel_upd_defs Let_def switch_to_def
        setMSR_def get_DIR_def stack_slot_def dword_at_def current_def)
qed

lemma on_stack_call: "on_stack k A 40 \<Longrightarrow> on_stack (switch_call L new k) A 16"
proof -
  assume a: "on_stack k A 40"
  have "unat (esp (cpu k) - A - 24) = unat (esp (cpu k) - A) - 24"
    using a by (subst unat_sub) (simp_all add: on_stack_def word_le_nat_alt)
  then have "unat (esp (cpu k) - 24 - A) = unat (esp (cpu k) - A) - 24"
    by (simp add: algebra_simps)
  then show ?thesis
    using a unfolding on_stack_def switch_call_def Let_def by simp linarith
qed

text \<open>The state in which the processor leaves task \<open>A\<close>, before a resumed task pops its frame.\<close>

definition switched :: "layout \<Rightarrow> addr \<Rightarrow> addr \<Rightarrow> kernel \<Rightarrow> kernel" where
  "switched L A new k = switch_to A new (switch_call L new k)"

lemma task_switch_eq:
  assumes "on_stack k A 40"
  shows "task_switch L new k =
    (let k' = switched L A new k
     in if eip (cpu k') = task_switch_ret_code L then task_switch_epilogue k' else k')"
  by (simp add: task_switch_call switched_def inner_task_switch_eq [OF on_stack_call [OF assms]])

section \<open>The frame a task leaves, and its way back\<close>

text \<open>
  \<open>saved L k A c ra\<close>: task \<open>A\<close> was switched out with registers \<open>c\<close> and return address \<open>ra\<close>,
  and its stack still holds the frame.
\<close>

definition saved :: "layout \<Rightarrow> kernel \<Rightarrow> addr \<Rightarrow> cpu \<Rightarrow> dword \<Rightarrow> bool" where
  "saved L k A c ra \<longleftrightarrow>
     register_esp (tasks k A) = esp c - 28 \<and>
     stack k (esp c - 28) = esp c - 4 \<and> stack k (esp c - 24) = task_switch_ret_code L \<and>
     stack k (esp c - 16) = ebx c \<and> stack k (esp c - 12) = edi c \<and>
     stack k (esp c - 8) = esi c \<and> stack k (esp c - 4) = ebp c \<and> stack k (esp c) = ra"

lemma epilogue_simps [simp, kernel_frame]:
  "lists (task_switch_epilogue k) = lists k" "tasks (task_switch_epilogue k) = tasks k"
  "stack (task_switch_epilogue k) = stack k" "mm (task_switch_epilogue k) = mm k"
  "tty (task_switch_epilogue k) = tty k" "tss (task_switch_epilogue k) = tss k"
  "msr (task_switch_epilogue k) = msr k" "idle_task (task_switch_epilogue k) = idle_task k"
  "remaining_quantum (task_switch_epilogue k) = remaining_quantum k"
  "global_PID (task_switch_epilogue k) = global_PID k"
  "zeos_ticks (task_switch_epilogue k) = zeos_ticks k"
  "tsc (task_switch_epilogue k) = tsc k" "tsc_reads (task_switch_epilogue k) = tsc_reads k"
  by (simp_all add: task_switch_epilogue_def Let_def case_prod_beta)

lemma switched_stack:
  "stack (switched L A new k) =
    (stack k)(esp (cpu k) - 4 := ebp (cpu k), esp (cpu k) - 8 := esi (cpu k),
      esp (cpu k) - 12 := edi (cpu k), esp (cpu k) - 16 := ebx (cpu k), esp (cpu k) - 20 := new,
      esp (cpu k) - 24 := task_switch_ret_code L, esp (cpu k) - 28 := esp (cpu k) - 4)"
  by (simp add: switched_def switch_to_def switch_call_def Let_def)

text \<open>A switch writes only to the stack page of the task that runs.\<close>

lemma switched_stack_other:
  assumes "on_stack k A 40" and "stack_page a \<noteq> A"
  shows "stack (switched L A new k) a = stack k a"
proof -
  have "a \<noteq> esp (cpu k) - of_nat m" if "m \<le> 40" for m
    using on_stack_page [OF assms(1) that] assms(2) by auto
  from this [of 4] this [of 8] this [of 12] this [of 16] this [of 20] this [of 24] this [of 28]
  show ?thesis
    by (simp add: switched_stack)
qed

lemma task_switch_simps:
  assumes "on_stack k A 40"
  shows "stack (task_switch L new k) = stack (switched L A new k)"
    and "tasks (task_switch L new k) =
      (tasks k)(A := (tasks k A)\<lparr>register_esp := esp (cpu k) - 28\<rparr>)"
    and "mm (task_switch L new k) = set_cr3 (dir_pages_baseAddr (tasks k new)) (mm k)"
    and "tss (task_switch L new k) = (tss k)\<lparr>tss_esp0 := new + 4096\<rparr>"
    and "msr (task_switch L new k) = (msr k)(0x175 := (0, new + 4096))"
    and "lists (task_switch L new k) = lists k" and "tty (task_switch L new k) = tty k"
    and "idle_task (task_switch L new k) = idle_task k"
    and "remaining_quantum (task_switch L new k) = remaining_quantum k"
    and "global_PID (task_switch L new k) = global_PID k"
    and "zeos_ticks (task_switch L new k) = zeos_ticks k"
    and "tsc (task_switch L new k) = tsc k" and "tsc_reads (task_switch L new k) = tsc_reads k"
  by (simp_all add: task_switch_eq [OF assms] Let_def switched_def switch_to_def switch_call_def)

lemma task_switch_saves:
  assumes "on_stack k A 40"
  shows "saved L (task_switch L new k) A (cpu k) (stack k (esp (cpu k)))"
proof -
  have neq: "esp (cpu k) - x = esp (cpu k) - y \<longleftrightarrow> x = y" for x y
    by simp
  show ?thesis
    by (simp add: saved_def task_switch_simps [OF assms] switched_stack neq)
qed

text \<open>Registers a call must preserve, with the stack pointer and the return address used up.\<close>

definition resumes :: "cpu \<Rightarrow> cpu \<Rightarrow> dword \<Rightarrow> bool" where
  "resumes r c ra \<longleftrightarrow> esp r = esp c + 4 \<and> eip r = ra \<and> ebp r = ebp c \<and>
     ebx r = ebx c \<and> esi r = esi c \<and> edi r = edi c"

lemma task_switch_restores:
  assumes sv: "saved L k A c ra" and on: "on_stack k C 40" and ne: "C \<noteq> A"
    and page: "\<And>m. m \<le> 40 \<Longrightarrow> stack_page (esp c - of_nat m) = A"
  shows "resumes (cpu (task_switch L A k)) c ra"
proof -
  let ?s = "switched L C A k"
  have st: "stack ?s (esp c - of_nat m) = stack k (esp c - of_nat m)" if "m \<le> 40" for m
    using switched_stack_other [OF on] page [OF that] ne by simp
  note slots = st [of 0] st [of 4] st [of 8] st [of 12] st [of 16] st [of 24] st [of 28]
  have regs: "register_esp (tasks k A) = esp c - 28"
    using sv by (simp add: saved_def)
  have sw: "cpu ?s = (cpu (switch_call L A k))\<lparr>esp := esp c - 20, ebp := stack ?s (esp c - 28),
      eip := stack ?s (esp c - 24)\<rparr>"
    using regs by (simp add: switched_def switch_to_def Let_def switch_call_def)
  have "eip (cpu ?s) = task_switch_ret_code L"
    using sw slots sv by (simp add: saved_def)
  then have "task_switch L A k = task_switch_epilogue ?s"
    by (simp add: task_switch_eq [OF on] Let_def)
  then show ?thesis
    using slots sv sw
    by (simp add: task_switch_epilogue_def Let_def case_prod_beta saved_def resumes_def)
qed

text \<open>
  Switching away and back: whatever the other tasks did in between, as long as nobody wrote
  to the stack page of \<open>A\<close> or to its saved stack pointer, \<open>A\<close> continues at its return address
  with its registers.
\<close>

definition untouched :: "addr \<Rightarrow> kernel \<Rightarrow> kernel \<Rightarrow> bool" where
  "untouched A k k' \<longleftrightarrow> register_esp (tasks k' A) = register_esp (tasks k A) \<and>
     (\<forall>a. stack_page a = A \<longrightarrow> stack k' a = stack k a)"

lemma saved_untouched:
  assumes "saved L k A c ra" and "untouched A k k'"
    and page: "\<And>m. m \<le> 40 \<Longrightarrow> stack_page (esp c - of_nat m) = A"
  shows "saved L k' A c ra"
  using assms(1,2) page [of 0] page [of 4] page [of 8] page [of 12] page [of 16] page [of 24]
    page [of 28]
  by (simp add: saved_def untouched_def)

lemma switch_away_and_back:
  assumes on: "on_stack k A 40" and un: "untouched A (task_switch L B k) k'"
    and on': "on_stack k' C 40" and ne: "C \<noteq> A"
  shows "resumes (cpu (task_switch L A k')) (cpu k) (stack k (esp (cpu k)))"
proof -
  have page: "stack_page (esp (cpu k) - of_nat m) = A" if "m \<le> 40" for m
    by (rule on_stack_page [OF on that])
  show ?thesis
    by (rule task_switch_restores [OF saved_untouched [OF task_switch_saves [OF on] un page] on' ne page])
qed

text \<open>
  A task that never ran: \<^verbatim>\<open>init_idle\<close> and \<^verbatim>\<open>sys_fork\<close> leave a frame pointer and a code label at
  the saved stack pointer; the switch pops the one and jumps to the other.
\<close>

definition fresh_start :: "layout \<Rightarrow> kernel \<Rightarrow> addr \<Rightarrow> dword \<Rightarrow> addr \<Rightarrow> bool" where
  "fresh_start L k t bp code \<longleftrightarrow>
     stack k (register_esp (tasks k t)) = bp \<and> stack k (register_esp (tasks k t) + 4) = code \<and>
     stack_page (register_esp (tasks k t)) = t \<and> stack_page (register_esp (tasks k t) + 4) = t \<and>
     code \<noteq> task_switch_ret_code L"

lemma task_switch_starts:
  assumes fr: "fresh_start L k t bp code" and on: "on_stack k C 40" and ne: "C \<noteq> t"
  shows "esp (cpu (task_switch L t k)) = register_esp (tasks k t) + 8"
    and "eip (cpu (task_switch L t k)) = code" and "ebp (cpu (task_switch L t k)) = bp"
proof -
  let ?e = "register_esp (tasks k t)"
  have "stack (switched L C t k) ?e = bp" "stack (switched L C t k) (?e + 4) = code"
    using fr ne switched_stack_other [OF on] by (simp_all add: fresh_start_def)
  then have c: "esp (cpu (switched L C t k)) = ?e + 8" "eip (cpu (switched L C t k)) = code"
    "ebp (cpu (switched L C t k)) = bp"
    by (simp_all add: switched_def switch_to_def switch_call_def Let_def)
  moreover have "code \<noteq> task_switch_ret_code L"
    using fr by (simp add: fresh_start_def)
  ultimately have "task_switch L t k = switched L C t k"
    by (simp add: task_switch_eq [OF on] Let_def)
  with c show "esp (cpu (task_switch L t k)) = ?e + 8" "eip (cpu (task_switch L t k)) = code"
    "ebp (cpu (task_switch L t k)) = bp"
    by simp_all
qed

end
