(* ===== verification/Scheduling.thy ===== *)
theory Scheduling
  imports Switch
begin

text \<open>
  What the round robin policy of sched.c does to the queues, the states, the quantum and the
  statistics, and its refinement of an abstract scheduler: a running task and a list of ready
  tasks.
\<close>

section \<open>Statistics\<close>

definition charge :: "((dword \<Rightarrow> dword) \<Rightarrow> stats \<Rightarrow> stats) \<Rightarrow> dword \<Rightarrow> stats \<Rightarrow> stats" where
  "charge v_update now s =
     elapsed_total_ticks_update (\<lambda>_. now) (v_update (\<lambda>v. v + (now - elapsed_total_ticks s)) s)"

definition now_ticks :: "kernel \<Rightarrow> dword" where
  "now_ticks k = get_ticks (tsc k (tsc_reads k))"

lemma update_stats_eq:
  "update_stats v t k =
     upd_task t (p_stats_update (charge v (now_ticks k))) (k\<lparr>tsc_reads := tsc_reads k + 1\<rparr>)"
  by (simp add: update_stats_def read_ticks_def upd_task_def charge_def now_ticks_def Let_def fun_eq_iff)

lemma update_stats_simps [simp, kernel_frame]:
  "lists (update_stats v t k) = lists k" "stack (update_stats v t k) = stack k"
  "mm (update_stats v t k) = mm k" "tty (update_stats v t k) = tty k"
  "cpu (update_stats v t k) = cpu k" "tss (update_stats v t k) = tss k"
  "msr (update_stats v t k) = msr k" "idle_task (update_stats v t k) = idle_task k"
  "remaining_quantum (update_stats v t k) = remaining_quantum k"
  "global_PID (update_stats v t k) = global_PID k" "zeos_ticks (update_stats v t k) = zeos_ticks k"
  "tsc (update_stats v t k) = tsc k" "tsc_reads (update_stats v t k) = tsc_reads k + 1"
  "current (update_stats v t k) = current k"
  by (simp_all add: update_stats_eq current_def)

lemma update_stats_task [simp, kernel_frame]:
  "PID (tasks (update_stats v t k) x) = PID (tasks k x)"
  "dir_pages_baseAddr (tasks (update_stats v t k) x) = dir_pages_baseAddr (tasks k x)"
  "register_esp (tasks (update_stats v t k) x) = register_esp (tasks k x)"
  "state (tasks (update_stats v t k) x) = state (tasks k x)"
  "total_quantum (tasks (update_stats v t k) x) = total_quantum (tasks k x)"
  "p_stats (tasks (update_stats v t k) x) =
     (if x = t then charge v (now_ticks k) (p_stats (tasks k t)) else p_stats (tasks k x))"
  by (simp_all add: update_stats_eq)

definition fresh_stats :: "dword \<Rightarrow> dword \<Rightarrow> stats" where
  "fresh_stats now later = \<lparr>user_ticks = 0, system_ticks = 0, blocked_ticks = 0, ready_ticks = 0,
     elapsed_total_ticks = now, total_trans = 0, remaining_ticks = later\<rparr>"

lemma fresh_stats_fields:
  "remaining_ticks_update (\<lambda>_. b) \<circ> total_trans_update (\<lambda>_. 0) \<circ>
     elapsed_total_ticks_update (\<lambda>_. a) \<circ> ready_ticks_update (\<lambda>_. 0) \<circ>
     blocked_ticks_update (\<lambda>_. 0) \<circ> system_ticks_update (\<lambda>_. 0) \<circ> user_ticks_update (\<lambda>_. 0)
   = (\<lambda>_. fresh_stats a b)"
  by (rule ext, rule stats.equality) (simp_all add: fresh_stats_def)

lemma init_stats_eq:
  "init_stats t k =
     upd_task t (p_stats_update (\<lambda>_. fresh_stats (now_ticks k) (get_ticks (tsc k (tsc_reads k + 1)))))
       (k\<lparr>tsc_reads := tsc_reads k + 2\<rparr>)"
  by (simp add: init_stats_def read_ticks_def upd_task_def now_ticks_def Let_def fresh_stats_fields)

lemma init_stats_simps [simp, kernel_frame]:
  "lists (init_stats t k) = lists k" "stack (init_stats t k) = stack k" "mm (init_stats t k) = mm k"
  "tty (init_stats t k) = tty k" "cpu (init_stats t k) = cpu k" "tss (init_stats t k) = tss k"
  "msr (init_stats t k) = msr k" "idle_task (init_stats t k) = idle_task k"
  "remaining_quantum (init_stats t k) = remaining_quantum k"
  "global_PID (init_stats t k) = global_PID k" "zeos_ticks (init_stats t k) = zeos_ticks k"
  "tsc (init_stats t k) = tsc k" "current (init_stats t k) = current k"
  "PID (tasks (init_stats t k) x) = PID (tasks k x)"
  "dir_pages_baseAddr (tasks (init_stats t k) x) = dir_pages_baseAddr (tasks k x)"
  "register_esp (tasks (init_stats t k) x) = register_esp (tasks k x)"
  "state (tasks (init_stats t k) x) = state (tasks k x)"
  "total_quantum (tasks (init_stats t k) x) = total_quantum (tasks k x)"
  by (simp_all add: init_stats_eq current_def)

lemma on_stack_cong: "esp (cpu k') = esp (cpu k) \<Longrightarrow> on_stack k' A n = on_stack k A n"
  by (simp add: on_stack_def)

lemma current_cong: "esp (cpu k') = esp (cpu k) \<Longrightarrow> current k' = current k"
  by (simp add: current_def)

section \<open>Queues of tasks\<close>

text \<open>
  \<open>queues L k Q\<close>: the list heads in the domain of \<open>Q\<close> are disjoint circular lists of nodes of
  tasks of the task array, in the order \<open>Q\<close> says.
\<close>

definition task_set :: "layout \<Rightarrow> addr set" where
  "task_set L = task_at L ` {..<10}"

definition nodes :: "(addr \<rightharpoonup> addr list) \<Rightarrow> addr \<rightharpoonup> addr list" where
  "nodes Q q = map_option (map list_of) (Q q)"

definition queued :: "(addr \<rightharpoonup> addr list) \<Rightarrow> addr set" where
  "queued Q = (\<Union>ts \<in> ran Q. set ts)"

definition queues :: "layout \<Rightarrow> kernel \<Rightarrow> (addr \<rightharpoonup> addr list) \<Rightarrow> bool" where
  "queues L k Q \<longleftrightarrow> layout_ok L \<and> family cdl (lists k) (nodes Q) \<and> queued Q \<subseteq> task_set L \<and>
     (\<forall>q \<in> dom Q. q \<notin> list_of ` task_set L)"

lemma nodes_upd: "nodes (Q(q \<mapsto> ts)) = (nodes Q)(q \<mapsto> map list_of ts)"
  by (simp add: nodes_def fun_eq_iff)

lemma nodes_empty [simp]: "nodes Map.empty = Map.empty"
  by (rule ext) (simp add: nodes_def)

lemma nodes_some: "Q q = Some ts \<Longrightarrow> nodes Q q = Some (map list_of ts)"
  by (simp add: nodes_def)

lemma task_set_aligned: "layout_ok L \<Longrightarrow> t \<in> task_set L \<Longrightarrow> page_aligned t"
  by (auto simp: task_set_def task_at_aligned)

lemma node_task [simp]: "layout_ok L \<Longrightarrow> t \<in> task_set L \<Longrightarrow> list_head_to_task_struct (list_of t) = t"
  by (simp add: task_set_aligned)

lemma queued_mem: "t \<in> queued Q \<longleftrightarrow> (\<exists>q ts. Q q = Some ts \<and> t \<in> set ts)"
  by (auto simp: queued_def ran_def)

lemma queuedI: "Q q = Some ts \<Longrightarrow> t \<in> set ts \<Longrightarrow> t \<in> queued Q"
  by (auto simp: queued_mem)

lemma queued_task: "queues L k Q \<Longrightarrow> t \<in> queued Q \<Longrightarrow> t \<in> task_set L"
  by (auto simp: queues_def)

lemma family_nodes_queued:
  assumes "\<forall>q \<in> dom Q. q \<notin> list_of ` task_set L" and "t \<in> task_set L"
  shows "list_of t \<in> family_nodes (nodes Q) \<longleftrightarrow> t \<in> queued Q"
proof
  assume "list_of t \<in> family_nodes (nodes Q)"
  then obtain q xs where xs: "nodes Q q = Some xs" "list_of t \<in> set (q # xs)"
    unfolding family_nodes_mem by blast
  then obtain ts where ts: "Q q = Some ts" "xs = map list_of ts"
    by (auto simp: nodes_def)
  have "list_of t \<noteq> q"
    using assms ts(1) by blast
  then have "t \<in> set ts"
    using xs(2) ts(2) by auto
  then show "t \<in> queued Q"
    using ts(1) by (auto simp: queued_mem)
next
  assume "t \<in> queued Q"
  then obtain q ts where "Q q = Some ts" "t \<in> set ts"
    by (auto simp: queued_mem)
  then show "list_of t \<in> family_nodes (nodes Q)"
    unfolding family_nodes_mem
    by (intro exI [of _ q] exI [of _ "map list_of ts"]) (auto simp: nodes_def)
qed

lemma queued_distinct:
  assumes "queues L k Q" and "Q q = Some ts"
  shows "distinct ts" and "Q q' = Some ts' \<Longrightarrow> q' \<noteq> q \<Longrightarrow> set ts \<inter> set ts' = {}"
proof -
  have f: "family cdl (lists k) (nodes Q)"
    using assms(1) by (simp add: queues_def)
  have "distinct (q # map list_of ts)"
    by (rule lq.repr_distinct [OF family_repr [OF f nodes_some [of Q q, OF assms(2)]]])
  then show "distinct ts"
    by (simp add: distinct_map)
  show "set ts \<inter> set ts' = {}" if "Q q' = Some ts'" "q' \<noteq> q"
    using family_disjoint [OF f nodes_some [of Q q, OF assms(2)] nodes_some [of Q q', OF that(1)]] that(2) by auto
qed

lemma queues_enq:
  assumes qs: "queues L k Q" and q: "Q q = Some ts" and t: "t \<in> task_set L" "t \<notin> queued Q"
  shows "queues L (upd_lists (list_add_tail (list_of t) q) k) (Q(q \<mapsto> ts @ [t]))"
proof -
  have heads: "\<forall>q \<in> dom Q. q \<notin> list_of ` task_set L"
    using qs by (simp add: queues_def)
  have "list_of t \<notin> family_nodes (nodes Q)"
    using family_nodes_queued [OF heads t(1)] t(2) by simp
  then have "family cdl (list_add_tail (list_of t) q (lists k)) (nodes (Q(q \<mapsto> ts @ [t])))"
    using lq.family_enq [of "lists k" "nodes Q" q "map list_of ts" "list_of t"] qs
      nodes_some [of Q q, OF q]
    by (simp add: queues_def nodes_upd)
  moreover have "queued (Q(q \<mapsto> ts @ [t])) \<subseteq> insert t (queued Q)"
    using q by (auto simp: queued_mem split: if_splits)
  ultimately show ?thesis
    using qs t(1) q by (auto simp: queues_def)
qed

lemma queues_del:
  assumes qs: "queues L k Q" and q: "Q q = Some (us @ t # vs)"
  shows "queues L (upd_lists (list_del (list_of t)) k) (Q(q \<mapsto> us @ vs))"
proof -
  have "family cdl (list_del (list_of t) (lists k)) (nodes (Q(q \<mapsto> us @ vs)))"
    using lq.family_del [of "lists k" "nodes Q" q "map list_of us" "list_of t" "map list_of vs"]
      nodes_some [of Q q, OF q] qs
    by (simp add: queues_def nodes_upd)
  moreover have "queued (Q(q \<mapsto> us @ vs)) \<subseteq> queued Q"
    using q by (fastforce simp: queued_mem split: if_splits)
  ultimately show ?thesis
    using qs q by (auto simp: queues_def)
qed

lemma queues_front:
  assumes qs: "queues L k Q" and q: "Q q = Some (t # ts)"
  shows "list_first q (lists k) = list_of t"
    and "list_head_to_task_struct (list_first q (lists k)) = t"
    and "queues L (upd_lists (list_del (list_first q (lists k))) k) (Q(q \<mapsto> ts))"
proof -
  show f: "list_first q (lists k) = list_of t"
    using lq.family_deq(1) [of "lists k" "nodes Q" q "list_of t" "map list_of ts"] qs nodes_some [of Q q, OF q]
    by (simp add: queues_def)
  have "t \<in> queued Q"
    using q by (intro queuedI) auto
  then have "t \<in> task_set L" and "layout_ok L"
    using qs by (auto simp: queues_def)
  then show "list_head_to_task_struct (list_first q (lists k)) = t"
    by (simp add: f)
  show "queues L (upd_lists (list_del (list_first q (lists k))) k) (Q(q \<mapsto> ts))"
    using queues_del [OF qs, of q "[]" t ts] q by (simp add: f)
qed

lemma queues_empty: "queues L k Q \<Longrightarrow> Q q = Some ts \<Longrightarrow> list_empty q (lists k) \<longleftrightarrow> ts = []"
  using lq.family_isempty [of "lists k" "nodes Q" q "map list_of ts"] nodes_some [of Q q ts]
  by (simp add: queues_def)

lemma queues_cong: "lists k' = lists k \<Longrightarrow> queues L k' Q = queues L k Q"
  by (simp add: queues_def)

section \<open>The choice of the next task\<close>

definition next_of :: "addr \<Rightarrow> addr list \<Rightarrow> addr" where
  "next_of idle R = (case R of [] \<Rightarrow> idle | t # _ \<Rightarrow> t)"

lemma pick_next_rr_queues:
  assumes qs: "queues L k Q" and q: "Q (readyqueue L) = Some R"
  shows "fst (pick_next_rr L k) = next_of (idle_task k) R"
    and "queues L (snd (pick_next_rr L k)) (Q(readyqueue L \<mapsto> tl R))"
proof -
  note e = queues_empty [OF qs q]
  show "fst (pick_next_rr L k) = next_of (idle_task k) R"
    and "queues L (snd (pick_next_rr L k)) (Q(readyqueue L \<mapsto> tl R))"
  proof (atomize (full), cases R)
    case Nil
    then have "Q(readyqueue L \<mapsto> tl R) = Q"
      using q by auto
    with Nil show "fst (pick_next_rr L k) = next_of (idle_task k) R \<and>
        queues L (snd (pick_next_rr L k)) (Q(readyqueue L \<mapsto> tl R))"
      using qs e by (simp add: pick_next_rr_def next_of_def)
  next
    case (Cons t ts)
    then show "fst (pick_next_rr L k) = next_of (idle_task k) R \<and>
        queues L (snd (pick_next_rr L k)) (Q(readyqueue L \<mapsto> tl R))"
      using e queues_front [OF qs, of "readyqueue L" t ts] q
      by (simp add: pick_next_rr_def next_of_def Let_def)
  qed
qed

lemma pick_next_rr_simps [simp]:
  "tasks (snd (pick_next_rr L k)) = tasks k" "stack (snd (pick_next_rr L k)) = stack k"
  "mm (snd (pick_next_rr L k)) = mm k" "tty (snd (pick_next_rr L k)) = tty k"
  "cpu (snd (pick_next_rr L k)) = cpu k" "tss (snd (pick_next_rr L k)) = tss k"
  "msr (snd (pick_next_rr L k)) = msr k" "idle_task (snd (pick_next_rr L k)) = idle_task k"
  "remaining_quantum (snd (pick_next_rr L k)) = remaining_quantum k"
  "global_PID (snd (pick_next_rr L k)) = global_PID k"
  "zeos_ticks (snd (pick_next_rr L k)) = zeos_ticks k"
  "tsc (snd (pick_next_rr L k)) = tsc k" "tsc_reads (snd (pick_next_rr L k)) = tsc_reads k"
  by (simp_all add: pick_next_rr_def Let_def)

text \<open>The state in which \<^verbatim>\<open>sched_next_rr\<close> calls \<^verbatim>\<open>task_switch\<close>.\<close>

definition next_task :: "layout \<Rightarrow> kernel \<Rightarrow> addr" where
  "next_task L k = fst (pick_next_rr L k)"

definition prepare_next :: "layout \<Rightarrow> kernel \<Rightarrow> kernel" where
  "prepare_next L k =
     (let (t, k) = pick_next_rr L k;
          k = upd_task t (state_update (\<lambda>_. ST_RUN)) k;
          k = k\<lparr>remaining_quantum := get_quantum t k\<rparr>;
          k = update_stats system_ticks_update (current k) k;
          k = update_stats ready_ticks_update t k
      in upd_task t (p_stats_update (total_trans_update (\<lambda>n. n + 1))) k)"

lemma sched_next_rr_switch: "sched_next_rr L k = task_switch L (next_task L k) (prepare_next L k)"
  by (simp add: sched_next_rr_def prepare_next_def next_task_def Let_def case_prod_beta)

lemma prepare_next_simps [simp]:
  "lists (prepare_next L k) = lists (snd (pick_next_rr L k))"
  "stack (prepare_next L k) = stack k" "mm (prepare_next L k) = mm k"
  "tty (prepare_next L k) = tty k" "cpu (prepare_next L k) = cpu k"
  "tss (prepare_next L k) = tss k" "msr (prepare_next L k) = msr k"
  "idle_task (prepare_next L k) = idle_task k" "global_PID (prepare_next L k) = global_PID k"
  "zeos_ticks (prepare_next L k) = zeos_ticks k" "tsc (prepare_next L k) = tsc k"
  "remaining_quantum (prepare_next L k) = total_quantum (tasks k (next_task L k))"
  "PID (tasks (prepare_next L k) x) = PID (tasks k x)"
  "dir_pages_baseAddr (tasks (prepare_next L k) x) = dir_pages_baseAddr (tasks k x)"
  "register_esp (tasks (prepare_next L k) x) = register_esp (tasks k x)"
  "total_quantum (tasks (prepare_next L k) x) = total_quantum (tasks k x)"
  "state (tasks (prepare_next L k) x) = (if x = next_task L k then ST_RUN else state (tasks k x))"
  by (simp_all add: prepare_next_def next_task_def Let_def case_prod_beta get_quantum_def)

text \<open>
  The accounting: the task that leaves is charged system time up to the first clock reading,
  the task that enters is charged ready time up to the second one and one transition.
\<close>

lemma prepare_next_stats:
  assumes "on_stack k A 12" and "next_task L k \<noteq> A"
  shows "p_stats (tasks (prepare_next L k) x) =
    (if x = A then charge system_ticks_update (now_ticks k) (p_stats (tasks k A))
     else if x = next_task L k
     then total_trans_update (\<lambda>n. n + 1)
            (charge ready_ticks_update (get_ticks (tsc k (tsc_reads k + 1))) (p_stats (tasks k x)))
     else p_stats (tasks k x))"
proof -
  have "current (upd_task t f k'\<lparr>remaining_quantum := n\<rparr>) = A" if "cpu k' = cpu k" for t f k' n
    using current_on_stack [OF assms(1)] that by (simp add: current_def)
  then show ?thesis
    using assms(2)
    by (auto simp: prepare_next_def next_task_def Let_def case_prod_beta now_ticks_def)
qed

section \<open>The abstract scheduler\<close>

text \<open>
  A running task, the ready tasks in order, and the ticks the running task has left.  Yielding
  and the clock tick are the two events.
\<close>

type_synonym rr_state = "addr \<times> addr list \<times> nat"

fun rr_switch :: "(addr \<Rightarrow> nat) \<Rightarrow> rr_state \<Rightarrow> rr_state" where
  "rr_switch quantum (A, R, n) = (let B = hd (R @ [A]) in (B, tl (R @ [A]), quantum B))"

fun rr_tick :: "(addr \<Rightarrow> nat) \<Rightarrow> rr_state \<Rightarrow> rr_state" where
  "rr_tick quantum (A, R, n) =
     (if n \<noteq> 1 then (A, R, n - 1)
      else if R = [] then (A, R, quantum A) else rr_switch quantum (A, R, 0))"

lemma rr_tick_run: "m < n \<Longrightarrow> (rr_tick quantum ^^ m) (A, R, n) = (A, R, n - m)"
  by (induction m) auto

lemma funpow_steps: "(f ^^ (n + m)) x = (f ^^ m) ((f ^^ n) x)"
  by (simp add: add.commute [of n m] funpow_add)

text \<open>A task keeps the processor for exactly its quantum.\<close>

lemma rr_tick_quantum:
  assumes "0 < n" and "R \<noteq> []"
  shows "(rr_tick quantum ^^ n) (A, R, n) = (hd R, tl R @ [A], quantum (hd R))"
proof -
  obtain m where n: "n = Suc m"
    using assms(1) by (cases n) auto
  have "(rr_tick quantum ^^ m) (A, R, n) = (A, R, 1)"
    using rr_tick_run [of m n] n by simp
  then show ?thesis
    using assms(2) unfolding n by (cases R) (simp_all add: Let_def)
qed

text \<open>
  In one turn each ready task runs for its quantum, in the order of the queue, and the state
  is the first one again.
\<close>

lemma rr_turn_prefix:
  assumes "\<And>t. t \<in> set (A # R) \<Longrightarrow> 0 < quantum t" and "R = us @ B # vs"
  shows "(rr_tick quantum ^^ sum_list (map quantum (A # us))) (A, R, quantum A)
    = (B, vs @ A # us, quantum B)"
  using assms
proof (induction us arbitrary: B vs rule: rev_induct)
  case Nil
  then show ?case
    using rr_tick_quantum [of "quantum A" "B # vs" quantum A] by simp
next
  case (snoc u us)
  have R: "R = us @ u # (B # vs)"
    using snoc.prems(2) by simp
  have "sum_list (map quantum (A # us @ [u])) = sum_list (map quantum (A # us)) + quantum u"
    by simp
  then have "(rr_tick quantum ^^ sum_list (map quantum (A # us @ [u]))) (A, R, quantum A)
      = (rr_tick quantum ^^ quantum u) ((rr_tick quantum ^^ sum_list (map quantum (A # us))) (A, R, quantum A))"
    by (simp only: funpow_steps)
  also have "\<dots> = (rr_tick quantum ^^ quantum u) (u, B # vs @ A # us, quantum u)"
    using snoc.IH [OF snoc.prems(1) R] by simp
  also have "\<dots> = (B, (vs @ A # us) @ [u], quantum B)"
    using rr_tick_quantum [of "quantum u" "B # vs @ A # us" quantum u] snoc.prems(1) [of u] R by simp
  finally show ?case by simp
qed

lemma rr_full_turn:
  assumes "\<And>t. t \<in> set (A # R) \<Longrightarrow> 0 < quantum t"
  shows "(rr_tick quantum ^^ sum_list (map quantum (A # R))) (A, R, quantum A) = (A, R, quantum A)"
proof (cases R rule: rev_cases)
  case Nil
  have "(rr_tick quantum ^^ (quantum A - 1)) (A, [], quantum A) = (A, [], 1)"
    using rr_tick_run [of "quantum A - 1" "quantum A"] assms [of A] by simp
  moreover have "quantum A = Suc (quantum A - 1)"
    using assms [of A] by simp
  ultimately have "(rr_tick quantum ^^ quantum A) (A, [], quantum A) = (A, [], quantum A)"
    by (metis funpow.simps(2) comp_apply rr_tick.simps)
  then show ?thesis
    using Nil by simp
next
  case (snoc us B)
  have "sum_list (map quantum (A # R)) = sum_list (map quantum (A # us)) + quantum B"
    using snoc by simp
  then have "(rr_tick quantum ^^ sum_list (map quantum (A # R))) (A, R, quantum A)
      = (rr_tick quantum ^^ quantum B) ((rr_tick quantum ^^ sum_list (map quantum (A # us))) (A, R, quantum A))"
    by (simp only: funpow_steps)
  also have "\<dots> = (rr_tick quantum ^^ quantum B) (B, A # us, quantum B)"
    using rr_turn_prefix [of A R quantum us B "[]"] assms snoc by simp
  also have "\<dots> = (A, R, quantum A)"
    using rr_tick_quantum [of "quantum B" "A # us" quantum B] assms [of B] snoc by simp
  finally show ?thesis .
qed

section \<open>The contract of a scheduling policy\<close>

text \<open>
  \<^verbatim>\<open>schedule\<close> reaches the policy through function pointers only.  The locale states what it
  needs of them: each is simulated by an operation of an abstract scheduler \<open>'a\<close>, and all
  but \<^verbatim>\<open>sched_next\<close> leave the stack pointer alone.
\<close>

locale policy_contract =
  fixes L :: layout and pol :: sched_policy
    and rel :: "kernel \<Rightarrow> 'a \<Rightarrow> bool" and running :: "'a \<Rightarrow> addr"
    and a_data :: "'a \<Rightarrow> 'a" and a_needs :: "'a \<Rightarrow> bool \<times> 'a"
    and a_requeue :: "'a \<Rightarrow> 'a" and a_next :: "'a \<Rightarrow> 'a" and can_requeue :: "'a \<Rightarrow> bool"
  assumes data_sim: "rel k a \<Longrightarrow> rel (update_sched_data pol k) (a_data a)"
    and data_esp: "esp (cpu (update_sched_data pol k)) = esp (cpu k)"
    and data_running: "running (a_data a) = running a"
    and needs_sim: "rel k a \<Longrightarrow> on_stack k (running a) 40 \<Longrightarrow>
      fst (needs_sched pol k) = fst (a_needs a) \<and> rel (snd (needs_sched pol k)) (snd (a_needs a))"
    and needs_esp: "esp (cpu (snd (needs_sched pol k))) = esp (cpu k)"
    and needs_running: "running (snd (a_needs a)) = running a"
    and requeue_sim: "rel k a \<Longrightarrow> can_requeue a \<Longrightarrow>
      rel (update_process_state pol (running a) (readyqueue L) k) (a_requeue a)"
    and requeue_esp: "esp (cpu (update_process_state pol t q k)) = esp (cpu k)"
    and requeue_running: "running (a_requeue a) = running a"
    and can_data: "can_requeue (a_data a) = can_requeue a"
    and can_needs: "can_requeue (snd (a_needs a)) = can_requeue a"
    and next_sim: "rel k a \<Longrightarrow> on_stack k (running a) 40 \<Longrightarrow> rel (sched_next pol k) (a_next a)"
begin

definition a_schedule :: "'a \<Rightarrow> 'a" where
  "a_schedule a =
     (let (needs, a) = a_needs (a_data a) in if needs then a_next (a_requeue a) else a)"

lemma schedule_sim:
  assumes "rel k a" and "on_stack k (running a) 40" and "can_requeue a"
  shows "rel (schedule L pol k) (a_schedule a)"
proof -
  let ?k1 = "update_sched_data pol k" and ?a1 = "a_data a"
  let ?k2 = "snd (needs_sched pol ?k1)" and ?a2 = "snd (a_needs ?a1)"
  let ?k3 = "update_process_state pol (running a) (readyqueue L) ?k2"
  have r1: "rel ?k1 ?a1"
    using assms(1) by (rule data_sim)
  have e: "on_stack ?k1 (running a) 40" "on_stack ?k2 (running a) 40" "on_stack ?k3 (running a) 40"
    using assms(2) by (simp_all add: on_stack_def data_esp needs_esp requeue_esp)
  have n: "fst (needs_sched pol ?k1) = fst (a_needs ?a1)" and r2: "rel ?k2 ?a2"
    using needs_sim [OF r1] e(1) by (simp_all add: data_running)
  have run: "running ?a2 = running a"
    by (simp add: needs_running data_running)
  have "rel ?k3 (a_requeue ?a2)"
    using requeue_sim [OF r2] run assms(3) by (simp add: can_data can_needs)
  then have "rel (sched_next pol ?k3) (a_next (a_requeue ?a2))"
    using e(3) by (intro next_sim) (simp_all add: requeue_running run)
  moreover have "current ?k2 = running a"
    using e(2) by (rule current_on_stack) simp
  ultimately show ?thesis
    using r2 n by (simp add: schedule_def a_schedule_def Let_def case_prod_beta)
qed

end

section \<open>Round robin fulfils the contract\<close>

text \<open>
  \<open>rr_rel L Q k (A, R, n)\<close>: the ready queue holds \<open>R\<close>, the other queues are as in \<open>Q\<close>, \<open>A\<close> is
  the task on the processor, whose stack the processor takes on the next trap, \<open>n\<close> its
  remaining quantum.  Between the requeue and the switch
  \<open>A\<close> is in \<open>R\<close> as well.
\<close>

definition elsewhere :: "layout \<Rightarrow> (addr \<rightharpoonup> addr list) \<Rightarrow> addr \<Rightarrow> bool" where
  "elsewhere L Q t \<longleftrightarrow> (\<exists>q ts. q \<noteq> readyqueue L \<and> Q q = Some ts \<and> t \<in> set ts)"

fun rr_rel :: "layout \<Rightarrow> (addr \<rightharpoonup> addr list) \<Rightarrow> (addr \<Rightarrow> nat) \<Rightarrow> addr \<Rightarrow> kernel \<Rightarrow> rr_state \<Rightarrow> bool" where
  "rr_rel L Q quantum idle k (A, R, n) \<longleftrightarrow>
     queues L k (Q(readyqueue L \<mapsto> R)) \<and> A \<in> task_set L \<and> idle \<in> task_set L \<and>
     \<not> elsewhere L Q A \<and> \<not> elsewhere L Q idle \<and>
     (\<forall>t \<in> task_set L. t \<in> set R \<longrightarrow> state (tasks k t) = ST_READY) \<and>
     (A \<notin> set R \<longrightarrow> state (tasks k A) = ST_RUN) \<and>
     (\<forall>t. unat (total_quantum (tasks k t)) = quantum t) \<and>
     idle_task k = idle \<and> tss_esp0 (tss k) = A + 4096 \<and> unat (remaining_quantum k) = n"

fun rr_data :: "rr_state \<Rightarrow> rr_state" where
  "rr_data (A, R, n) = (A, R, if n = 0 then 2 ^ 32 - 1 else n - 1)"

fun rr_needs :: "(addr \<Rightarrow> nat) \<Rightarrow> rr_state \<Rightarrow> bool \<times> rr_state" where
  "rr_needs quantum (A, R, n) =
     (n = 0 \<and> R \<noteq> [], (A, R, if n = 0 \<and> R = [] then quantum A else n))"

fun rr_requeue :: "rr_state \<Rightarrow> rr_state" where
  "rr_requeue (A, R, n) = (A, R @ [A], n)"

fun rr_next :: "(addr \<Rightarrow> nat) \<Rightarrow> addr \<Rightarrow> rr_state \<Rightarrow> rr_state" where
  "rr_next quantum idle (A, R, n) = (let B = next_of idle R in (B, tl R, quantum B))"

fun rr_can :: "rr_state \<Rightarrow> bool" where
  "rr_can (A, R, n) \<longleftrightarrow> A \<notin> set R"

lemma unat_pred32: "unat (w - 1 :: 32 word) = (if unat w = 0 then 2 ^ 32 - 1 else unat w - 1)"
proof (cases "w = 0")
  case True
  then show ?thesis
    by (simp add: unat_minus_1_32)
next
  case False
  then have "1 \<le> unat w"
    by (simp add: Suc_leI unat_gt_0)
  then have "(1 :: 32 word) \<le> w"
    by (simp add: word_le_nat_alt)
  then show ?thesis
    using False by (simp add: unat_sub unsigned_eq_0_iff)
qed

lemma rr_data_sim: "rr_rel L Q qu i k a \<Longrightarrow> rr_rel L Q qu i (update_sched_data_rr k) (rr_data a)"
  by (cases a) (auto simp: update_sched_data_rr_def unat_pred32 queues_def)

lemma rr_needs_sim:
  assumes "rr_rel L Q qu i k a" and "on_stack k (fst a) 40"
  shows "fst (needs_sched_rr L k) = fst (rr_needs qu a) \<and>
    rr_rel L Q qu i (snd (needs_sched_rr L k)) (snd (rr_needs qu a))"
proof (cases a)
  case (fields A R n)
  have qs: "queues L k (Q(readyqueue L \<mapsto> R))"
    using assms(1) fields by simp
  have "list_empty (readyqueue L) (lists k) \<longleftrightarrow> R = []"
    using queues_empty [OF qs] by simp
  moreover have "remaining_quantum k = 0 \<longleftrightarrow> n = 0"
    using assms(1) fields by (auto simp: unsigned_eq_0_iff)
  moreover have "current k = A"
    using assms(2) fields by (simp add: current_on_stack)
  ultimately show ?thesis
    using assms(1) fields by (auto simp: needs_sched_rr_def get_quantum_def queues_def)
qed

text \<open>A running task that gives up the processor goes to the end of the queue.\<close>

lemma update_process_state_rr_ready:
  assumes "layout_ok L" and "state (tasks k A) = ST_RUN"
  shows "update_process_state_rr L A (readyqueue L) k =
    upd_task A (state_update (\<lambda>_. ST_READY))
      (update_stats system_ticks_update A (upd_lists (list_add_tail (list_of A) (readyqueue L)) k))"
proof -
  have "readyqueue L \<noteq> NULL"
    using assms(1) by (rule head_not_null) (simp add: queue_head_def)
  with assms(2) show ?thesis
    by (simp add: update_process_state_rr_def)
qed

lemma not_queued:
  "\<not> elsewhere L Q t \<Longrightarrow> t \<notin> set R \<Longrightarrow> t \<notin> queued (Q(readyqueue L \<mapsto> R))"
  by (auto simp: elsewhere_def queued_mem split: if_splits)

lemma rr_requeue_sim:
  assumes "rr_rel L Q qu i k a" and "rr_can a"
  shows "rr_rel L Q qu i (update_process_state_rr L (fst a) (readyqueue L) k) (rr_requeue a)"
proof (cases a)
  case (fields A R n)
  have qs: "queues L k (Q(readyqueue L \<mapsto> R))" and A: "A \<in> task_set L" and run: "state (tasks k A) = ST_RUN"
    using assms fields by simp_all
  have out: "A \<notin> queued (Q(readyqueue L \<mapsto> R))"
    using assms fields by (intro not_queued) simp_all
  have "layout_ok L"
    using qs by (simp add: queues_def)
  note eq = update_process_state_rr_ready [OF this run]
  have "queues L (upd_lists (list_add_tail (list_of A) (readyqueue L)) k) (Q(readyqueue L \<mapsto> R @ [A]))"
    using queues_enq [OF qs _ A out, of "readyqueue L" R] by simp
  then have "queues L (update_process_state_rr L A (readyqueue L) k) (Q(readyqueue L \<mapsto> R @ [A]))"
    by (simp add: eq queues_def)
  then show ?thesis
    using assms fields by (auto simp: eq)
qed

lemma next_of_task:
  assumes "queues L k (Q(readyqueue L \<mapsto> R))" and "i \<in> task_set L"
  shows "next_of i R \<in> task_set L"
proof (cases R)
  case (Cons t ts)
  then have "t \<in> queued (Q(readyqueue L \<mapsto> R))"
    by (intro queuedI [of _ "readyqueue L" R]) simp_all
  with Cons show ?thesis
    using queued_task [OF assms(1)] by (simp add: next_of_def)
qed (use assms in \<open>simp add: next_of_def\<close>)

lemma next_of_not_tl: "distinct R \<Longrightarrow> next_of i R \<notin> set (tl R)"
  by (cases R) (auto simp: next_of_def)

lemma rr_next_sim:
  assumes rel: "rr_rel L Q qu i k a" and on: "on_stack k (fst a) 40"
  shows "rr_rel L Q qu i (sched_next_rr L k) (rr_next qu i a)"
proof (cases a)
  case (fields A R n)
  let ?B = "next_of i R" and ?p = "prepare_next L k"
  have qs: "queues L k (Q(readyqueue L \<mapsto> R))" and idl: "idle_task k = i"
    and el: "\<not> elsewhere L Q i" and it: "i \<in> task_set L"
    using rel fields by simp_all
  have pick: "next_task L k = ?B" and
    q': "queues L (snd (pick_next_rr L k)) (Q(readyqueue L \<mapsto> tl R))"
    using pick_next_rr_queues [OF qs, of R] idl by (simp_all add: next_task_def)
  have on': "on_stack ?p A 40"
    using on fields by (simp add: on_stack_def)
  have eq: "sched_next_rr L k = task_switch L ?B ?p"
    by (simp add: sched_next_rr_switch pick)
  note sw = task_switch_simps [OF on', of L ?B]
  have Q': "queues L (sched_next_rr L k) (Q(readyqueue L \<mapsto> tl R))"
    using q' by (simp add: eq queues_def sw)
  have dist: "distinct R"
    using queued_distinct(1) [OF qs, of "readyqueue L"] by simp
  have notB: "\<not> elsewhere L Q ?B"
  proof (cases R)
    case (Cons t ts)
    have "set R \<inter> set us = {}" if "Q q = Some us" "q \<noteq> readyqueue L" for q us
      using queued_distinct(2) [OF qs, of "readyqueue L" R q us] that by simp
    then show ?thesis
      using Cons by (auto simp: elsewhere_def next_of_def)
  qed (use el in \<open>simp add: next_of_def\<close>)
  have st: "state (tasks (sched_next_rr L k) t) = (if t = ?B then ST_RUN else state (tasks k t))" for t
    by (simp add: eq sw pick)
  have tq: "total_quantum (tasks (sched_next_rr L k) t) = total_quantum (tasks k t)" for t
    by (simp add: eq sw)
  have rq: "remaining_quantum (sched_next_rr L k) = total_quantum (tasks k ?B)"
    by (simp add: eq sw pick)
  have "idle_task (sched_next_rr L k) = i" "tss_esp0 (tss (sched_next_rr L k)) = ?B + 4096"
    by (simp_all add: eq sw idl)
  moreover have "state (tasks (sched_next_rr L k) t) = ST_READY" if "t \<in> task_set L" "t \<in> set (tl R)" for t
  proof -
    have "t \<noteq> ?B"
      using that next_of_not_tl [OF dist] by blast
    moreover have "t \<in> set R"
      using that(2) by (cases R) auto
    ultimately show ?thesis
      using rel fields that(1) by (simp add: st)
  qed
  ultimately show ?thesis
    using rel fields Q' notB next_of_task [OF qs it] by (simp add: st tq rq Let_def)
qed

interpretation rr: policy_contract L "rr_policy L" "rr_rel L Q quantum idle" fst rr_data
  "rr_needs quantum" rr_requeue "rr_next quantum idle" rr_can for L Q quantum idle
proof unfold_locales
  fix k :: kernel and a :: rr_state and t q :: addr
  show "rr_rel L Q quantum idle (update_sched_data (rr_policy L) k) (rr_data a)"
    if "rr_rel L Q quantum idle k a"
    using rr_data_sim [OF that] by (simp add: rr_policy_def)
  show "esp (cpu (update_sched_data (rr_policy L) k)) = esp (cpu k)"
    by (simp add: rr_policy_def update_sched_data_rr_def)
  show "fst (rr_data a) = fst a" "fst (snd (rr_needs quantum a)) = fst a" "fst (rr_requeue a) = fst a"
    "rr_can (rr_data a) = rr_can a" "rr_can (snd (rr_needs quantum a)) = rr_can a"
    by (cases a; simp)+
  show "fst (needs_sched (rr_policy L) k) = fst (rr_needs quantum a) \<and>
      rr_rel L Q quantum idle (snd (needs_sched (rr_policy L) k)) (snd (rr_needs quantum a))"
    if "rr_rel L Q quantum idle k a" "on_stack k (fst a) 40"
    using rr_needs_sim [OF that] by (simp add: rr_policy_def)
  show "esp (cpu (snd (needs_sched (rr_policy L) k))) = esp (cpu k)"
    by (simp add: rr_policy_def needs_sched_rr_def)
  show "rr_rel L Q quantum idle (update_process_state (rr_policy L) (fst a) (readyqueue L) k)
      (rr_requeue a)" if "rr_rel L Q quantum idle k a" "rr_can a"
    using rr_requeue_sim [OF that] by (simp add: rr_policy_def)
  show "esp (cpu (update_process_state (rr_policy L) t q k)) = esp (cpu k)"
    by (simp add: rr_policy_def update_process_state_rr_def Let_def)
  show "rr_rel L Q quantum idle (sched_next (rr_policy L) k) (rr_next quantum idle a)"
    if "rr_rel L Q quantum idle k a" "on_stack k (fst a) 40"
    using rr_next_sim [OF that] by (simp add: rr_policy_def)
qed

end
