(* ===== verification/Fork.thy ===== *)
theory Fork
  imports ForkMem Rows Scheduling
begin

text \<open>
  \<^verbatim>\<open>sys_fork\<close> as a whole: when it succeeds, what the child's task structure, stack, address
  space and place in the queues are; when it fails, that queues and frames are as before.
\<close>

section \<open>Frames of the call\<close>

lemma frame_enter_simps [simp]:
  "lists (frame_enter k) = lists k" "tasks (frame_enter k) = tasks k" "mm (frame_enter k) = mm k"
  "tty (frame_enter k) = tty k" "tss (frame_enter k) = tss k" "msr (frame_enter k) = msr k"
  "idle_task (frame_enter k) = idle_task k" "remaining_quantum (frame_enter k) = remaining_quantum k"
  "global_PID (frame_enter k) = global_PID k" "zeos_ticks (frame_enter k) = zeos_ticks k"
  "tsc (frame_enter k) = tsc k" "tsc_reads (frame_enter k) = tsc_reads k"
  "stack (frame_enter k) = (stack k)(esp (cpu k) - 4 := ebp (cpu k))"
  "cpu (frame_enter k) = (cpu k)\<lparr>esp := esp (cpu k) - 4, ebp := esp (cpu k) - 4\<rparr>"
  by (simp_all add: frame_enter_def Let_def)

lemma frame_leave_simps [simp]:
  "lists (frame_leave k) = lists k" "tasks (frame_leave k) = tasks k" "mm (frame_leave k) = mm k"
  "stack (frame_leave k) = stack k" "idle_task (frame_leave k) = idle_task k"
  "remaining_quantum (frame_leave k) = remaining_quantum k" "global_PID (frame_leave k) = global_PID k"
  "tty (frame_leave k) = tty k" "tss (frame_leave k) = tss k" "msr (frame_leave k) = msr k"
  "cpu (frame_leave k) = (cpu k)\<lparr>esp := ebp (cpu k) + 4, ebp := stack k (ebp (cpu k))\<rparr>"
  by (simp_all add: frame_leave_def Let_def case_prod_beta)

section \<open>Queues and the copied list node\<close>

text \<open>The copy overwrites the node of a task that is in no queue; no queue sees it.\<close>

lemma queues_node_cong:
  assumes qs: "queues L k Q" and same: "\<And>n. n \<noteq> list_of t \<Longrightarrow> lists k' n = lists k n"
    and t: "t \<in> task_set L" "t \<notin> queued Q"
  shows "queues L k' Q"
proof -
  have heads: "\<forall>q \<in> dom Q. q \<notin> list_of ` task_set L" and f: "family cdl (lists k) (nodes Q)"
    using qs by (simp_all add: queues_def)
  have new: "list_of t \<notin> family_nodes (nodes Q)"
    using family_nodes_queued [OF heads t(1)] t(2) by simp
  have "cdl (lists k') q xs" if q: "nodes Q q = Some xs" for q xs
  proof (rule cdl_cong [OF family_repr [OF f q]])
    fix n
    assume "n \<in> set (q # xs)"
    then have "n \<in> family_nodes (nodes Q)"
      using q by (rule family_nodesI [rotated])
    then show "lists k' n = lists k n"
      using new by (intro same) auto
  qed
  then have "family cdl (lists k') (nodes Q)"
    using f unfolding family_def by simp
  then show ?thesis
    using qs by (simp add: queues_def)
qed

lemma copy_task_union_simps [simp]:
  "mm (copy_task_union s d k) = mm k" "cpu (copy_task_union s d k) = cpu k"
  "tty (copy_task_union s d k) = tty k" "tss (copy_task_union s d k) = tss k"
  "msr (copy_task_union s d k) = msr k" "idle_task (copy_task_union s d k) = idle_task k"
  "remaining_quantum (copy_task_union s d k) = remaining_quantum k"
  "global_PID (copy_task_union s d k) = global_PID k"
  "tsc (copy_task_union s d k) = tsc k" "tsc_reads (copy_task_union s d k) = tsc_reads k"
  "tasks (copy_task_union s d k) = (tasks k)(d := tasks k s)"
  "lists (copy_task_union s d k) = (lists k)(list_of d := lists k (list_of s))"
  by (simp_all add: copy_task_union_def)

lemma copy_task_union_stack:
  assumes "page_aligned d" and "unat off < 4096"
  shows "stack (copy_task_union s d k) (d + off) = stack k (s + off)"
  using page_offset(1) [OF assms] by (simp add: copy_task_union_def add.commute)

lemma copy_task_union_stack_other:
  "stack_page a \<noteq> d \<Longrightarrow> stack (copy_task_union s d k) a = stack k a"
  by (simp add: copy_task_union_def)

section \<open>The last part\<close>

text \<open>The child is made to start in \<^verbatim>\<open>ret_from_fork\<close>, with the frame pointer of the caller.\<close>

definition child_ebp :: "kernel \<Rightarrow> addr \<Rightarrow> addr \<Rightarrow> dword" where
  "child_ebp k A t = ebp (cpu k) - A + t"

lemma fork_finish_effect:
  fixes L :: layout and t :: addr
  assumes A: "current k = A"
  defines "k' \<equiv> snd (fork_finish L t k)" and "e \<equiv> child_ebp k A t"
  shows "fst (fork_finish L t k) = global_PID k + 1" and "global_PID k' = global_PID k + 1"
    and "lists k' = list_add_tail (list_of t) (readyqueue L) (lists k)"
    and "stack k' = (stack k)(e := ret_from_fork_code L, e - 4 := stack k e)"
    and "PID (tasks k' x) = (if x = t then global_PID k + 1 else PID (tasks k x))"
    and "state (tasks k' x) = (if x = t then ST_READY else state (tasks k x))"
    and "register_esp (tasks k' x) = (if x = t then e - 4 else register_esp (tasks k x))"
    and "dir_pages_baseAddr (tasks k' x) = dir_pages_baseAddr (tasks k x)"
    and "total_quantum (tasks k' x) = total_quantum (tasks k x)"
    and "x \<noteq> t \<Longrightarrow> p_stats (tasks k' x) = p_stats (tasks k x)"
    and "mm k' = mm k" and "cpu k' = cpu k" and "idle_task k' = idle_task k"
    and "remaining_quantum k' = remaining_quantum k" and "tty k' = tty k" and "tss k' = tss k"
proof -
  have cur: "(esp (cpu k) - 12) AND 0xfffff000 = A"
    using A by (simp add: current_def)
  show "fst (fork_finish L t k) = global_PID k + 1" and "global_PID k' = global_PID k + 1"
    and "lists k' = list_add_tail (list_of t) (readyqueue L) (lists k)"
    and "stack k' = (stack k)(e := ret_from_fork_code L, e - 4 := stack k e)"
    and "PID (tasks k' x) = (if x = t then global_PID k + 1 else PID (tasks k x))"
    and "state (tasks k' x) = (if x = t then ST_READY else state (tasks k x))"
    and "register_esp (tasks k' x) = (if x = t then e - 4 else register_esp (tasks k x))"
    and "dir_pages_baseAddr (tasks k' x) = dir_pages_baseAddr (tasks k x)"
    and "total_quantum (tasks k' x) = total_quantum (tasks k x)"
    and "x \<noteq> t \<Longrightarrow> p_stats (tasks k' x) = p_stats (tasks k x)"
    and "mm k' = mm k" and "cpu k' = cpu k" and "idle_task k' = idle_task k"
    and "remaining_quantum k' = remaining_quantum k" and "tty k' = tty k" and "tss k' = tss k"
    unfolding k'_def e_def
    by (simp_all add: fork_finish_def Let_def current_def cur child_ebp_def init_stats_eq)
qed

section \<open>Memory\<close>

text \<open>
  \<open>forked m m' P C\<close>: what the memory \<open>m'\<close> after the call has, with the parent's page table at
  \<open>P\<close> and the child's at \<open>C\<close>.
\<close>

definition forked :: "mm_state \<Rightarrow> mm_state \<Rightarrow> addr \<Rightarrow> addr \<Rightarrow> bool" where
  "forked m m' P C \<longleftrightarrow>
     avail m' = avail m - set (next_frames 20 m) \<and> cr3 m' = cr3 m \<and> cr0 m' = cr0 m \<and>
     (\<forall>p < 264. pt_entry m' C p = ss_entry (get_frame P p m)) \<and>
     (\<forall>p \<in> {264..<284}. pt_entry m' C p = ss_entry (of_nat (next_frames 20 m ! (p - 264)))) \<and>
     (\<forall>p \<in> {284..<1024}. pt_entry m' C p = pt_entry m C p) \<and>
     (\<forall>PT p. page_aligned PT \<longrightarrow> PT \<noteq> C \<longrightarrow> p < 1024 \<longrightarrow>
        pt_entry m' PT p = (if PT = P \<and> p \<in> {284..<304} then 0 else pt_entry m PT p)) \<and>
     (\<forall>p \<in> {264..<284}. \<forall>k < 4096.
        ram m' (page_addr (next_frames 20 m ! (p - 264)) k) = ram m (page_addr (frame_of m P p) k)) \<and>
     (\<forall>a. (\<forall>f \<in> set (next_frames 20 m). \<forall>k < 4096. a \<noteq> page_addr f k) \<longrightarrow> ram m' a = ram m a)"

definition data_pages_ok :: "mm_state \<Rightarrow> addr \<Rightarrow> bool" where
  "data_pages_ok m P \<longleftrightarrow> (\<forall>p \<in> {264..<284}. pte_present (pt_entry m P p) = 1 \<and> frame_of m P p \<notin> avail m)"

lemma next_frames_bound: "20 \<le> card (avail m) \<Longrightarrow> i < 20 \<Longrightarrow> next_frames 20 m ! i < 1024"
proof -
  assume "20 \<le> card (avail m)" "i < 20"
  then have "next_frames 20 m ! i \<in> avail m"
    using next_frames_props [of 20 m] nth_mem [of i "next_frames 20 m"] by auto
  then show ?thesis
    by (simp add: avail_def)
qed

lemma fork_memory:
  assumes sp: "space m D P" and al: "page_aligned P" "page_aligned C" "P \<noteq> C" and D: "D \<noteq> P" "D \<noteq> C"
    and en: "20 \<le> card (avail m)" and dp: "data_pages_ok m P"
  defines "r \<equiv> fork_alloc_from C 0 m"
  shows "fst r" and "\<exists>m'. fork_copy_pages P C [264..<284] (fork_share_pages P C (snd r)) = Some m' \<and> forked m m' P C"
proof -
  let ?fs = "next_frames 20 m" and ?m5 = "fork_share_pages P C (snd r)"
  have Dal: "page_aligned D"
    using sp by (simp add: space_def)
  have al0: "0 + 20 = (20 :: nat)"
    by simp
  note a = fork_alloc_ok [OF al0 en al(2), folded r_def]
  show ok: "fst r"
    by (rule a(1))
  have e4: "pt_entry (snd r) PT' p =
      (if PT' = C \<and> 264 \<le> p \<and> p < 284 then ss_entry (of_nat (?fs ! (p - 264))) else pt_entry m PT' p)"
    if "page_aligned PT'" "p < 1024" for PT' p
    using a(3) [OF that] by simp
  have "get_frame P p (snd r) = get_frame P p m" if "p < 1024" for p
    using e4 [OF al(1) that] al(3) by (simp add: get_frame_entry)
  then have e5: "pt_entry ?m5 PT' p =
      (if PT' = C \<and> p < 264 then ss_entry (get_frame P p m)
       else if PT' = C \<and> p < 284 then ss_entry (of_nat (?fs ! (p - 264))) else pt_entry m PT' p)"
    if "page_aligned PT'" "p < 1024" for PT' p
    using fork_share_pages_entry [OF al that, of "snd r"] e4 [OF that] that(2) by auto
  have len: "length ?fs = 20" and dist: "distinct ?fs" and sub: "set ?fs \<subseteq> avail m"
    using next_frames_props [OF en] by simp_all
  have fC: "frame_of ?m5 C p = ?fs ! (p - 264)" if "p \<in> {264..<284}" for p
  proof -
    have "?fs ! (p - 264) < 1024"
      using that by (intro next_frames_bound [OF en]) auto
    then show ?thesis
      using e5 [OF al(2), of p] that by (simp add: frame_of_def get_frame_entry unat_frame)
  qed
  have fP: "frame_of ?m5 P p = frame_of m P p" if "p < 1024" for p
    using e5 [OF al(1) that] al(3) by (intro frame_of_cong) simp
  have eD: "pte ?m5 D = pte m D"
    using e5 [OF Dal, of 0] D by (simp add: pt_entry_def)
  have "cr3 (snd r) = cr3 m" "cr0 (snd r) = cr0 m" "ram (snd r) = ram m"
    using a(4-6) by simp_all
  then have sp5: "space ?m5 D P"
    using sp eD by (simp add: space_def)
  have mem: "?fs ! (p - 264) \<in> set ?fs" if "p \<in> {264..<284}" for p
    using that len by (intro nth_mem) auto
  have img: "(\<lambda>q. q + 20) ` {264..<284} = {284..<304 :: nat}"
    by (simp add: image_add_atLeastLessThan')
  obtain m' where m': "fork_copy_pages P C [264..<284] ?m5 = Some m'"
      "copied ?m5 m' P C {264..<284}" "phys_mem m' = phys_mem ?m5" "cr3 m' = cr3 ?m5" "cr0 m' = cr0 ?m5"
    and e6: "\<And>PT' p. page_aligned PT' \<Longrightarrow> p < 1024 \<Longrightarrow>
       pt_entry m' PT' p = (if PT' = P \<and> p \<in> {284..<304} then 0 else pt_entry ?m5 PT' p)"
  proof -
    have "\<exists>m'. fork_copy_pages P C [264..<284] ?m5 = Some m' \<and> copied ?m5 m' P C (set [264..<284]) \<and>
      phys_mem m' = phys_mem ?m5 \<and> cr3 m' = cr3 ?m5 \<and> cr0 m' = cr0 ?m5 \<and>
      (\<forall>PT' p. page_aligned PT' \<longrightarrow> p < 1024 \<longrightarrow>
         pt_entry m' PT' p = (if PT' = P \<and> p \<in> (\<lambda>q. q + 20) ` set [264..<284] then 0 else pt_entry ?m5 PT' p))"
    proof (rule fork_copy_pages_ok [OF sp5 al D(1)], simp_all only: set_upt)
      show "pte_present (pt_entry ?m5 P q) = 1" if "q \<in> {264..<284}" for q
        using dp e5 [OF al(1), of q] al(3) that by (auto simp: data_pages_ok_def)
      show "frame_of ?m5 P q \<noteq> frame_of ?m5 C q'" if "q \<in> {264..<284}" "q' \<in> {264..<284}" for q q'
      proof -
        have "frame_of m P q \<notin> avail m"
          using dp that(1) by (simp add: data_pages_ok_def)
        moreover have "?fs ! (q' - 264) \<in> avail m"
          using mem [OF that(2)] sub by blast
        ultimately show ?thesis
          using fC [OF that(2)] fP [of q] that(1) by auto
      qed
      show "inj_on (frame_of ?m5 C) {264..<284}"
        using fC dist len by (auto simp: inj_on_def nth_eq_iff_index_eq)
    qed simp_all
    then show ?thesis
      unfolding set_upt img using that by blast
  qed
  have "avail m' = avail ?m5"
    using m'(3) by (rule avail_phys_cong)
  then have av: "avail m' = avail m - set ?fs"
    using a(2) by simp
  have eqC: "(\<forall>p \<in> {264..<284}. P' (?fs ! (p - 264))) \<longleftrightarrow> (\<forall>f \<in> set ?fs. P' f)" for P'
  proof -
    have "set ?fs = (\<lambda>p. ?fs ! (p - 264)) ` {264..<284}"
    proof (intro subset_antisym subsetI)
      fix f assume "f \<in> set ?fs"
      then obtain i where "i < 20" "f = ?fs ! i"
        using len by (metis in_set_conv_nth)
      then show "f \<in> (\<lambda>p. ?fs ! (p - 264)) ` {264..<284}"
        by (intro image_eqI [of _ _ "264 + i"]) auto
    qed (use mem in auto)
    then show ?thesis by auto
  qed
  have "forked m m' P C"
    unfolding forked_def
  proof (intro conjI)
    show "\<forall>p \<in> {264..<284}. \<forall>k < 4096. ram m' (page_addr (?fs ! (p - 264)) k) = ram m (page_addr (frame_of m P p) k)"
      using m'(2) fC fP a(4) by (simp add: copied_def)
    show "\<forall>a. (\<forall>f \<in> set ?fs. \<forall>k < 4096. a \<noteq> page_addr f k) \<longrightarrow> ram m' a = ram m a"
    proof (intro allI impI)
      fix x :: addr
      assume "\<forall>f \<in> set ?fs. \<forall>k < 4096. x \<noteq> page_addr f k"
      then have "\<forall>p \<in> {264..<284}. \<forall>k < 4096. x \<noteq> page_addr (?fs ! (p - 264)) k"
        using eqC [of "\<lambda>f. \<forall>k < 4096. x \<noteq> page_addr f k"] by blast
      then show "ram m' x = ram m x"
        using m'(2) fC a(4) by (simp add: copied_def)
    qed
  qed (use av m' a(5,6) e5 e6 al(2,3) in auto)
  with m'(1) show "\<exists>m'. fork_copy_pages P C [264..<284] ?m5 = Some m' \<and> forked m m' P C"
    by blast
qed

section \<open>The call\<close>

text \<open>What \<^verbatim>\<open>sys_fork\<close> relies on: the state in which task \<open>j\<close> is in the kernel.\<close>

definition running :: "layout \<Rightarrow> kernel \<Rightarrow> nat \<Rightarrow> bool" where
  "running L k j \<longleftrightarrow> layout_ok L \<and> j < 10 \<and> table_rows L (mm k) \<and>
     dir_pages_baseAddr (tasks k (task_at L j)) = dir_row L j \<and> cr3 (mm k) = dir_row L j \<and>
     bit (cr0 (mm k)) 31 \<and> data_pages_ok (mm k) (pt_row L j)"

definition fork_setup :: "layout \<Rightarrow> addr \<Rightarrow> addr \<Rightarrow> kernel \<Rightarrow> kernel" where
  "fork_setup L A t k = upd_task t (\<lambda>s. snd (allocate_DIR L t s))
     (copy_task_union A t (upd_lists (list_del (list_of t)) k))"

lemma fork_setup_simps [simp]:
  "mm (fork_setup L A t k) = mm k" "cpu (fork_setup L A t k) = cpu k"
  "global_PID (fork_setup L A t k) = global_PID k" "idle_task (fork_setup L A t k) = idle_task k"
  "remaining_quantum (fork_setup L A t k) = remaining_quantum k" "tty (fork_setup L A t k) = tty k"
  "tss (fork_setup L A t k) = tss k"
  "stack (fork_setup L A t k) = stack (copy_task_union A t (upd_lists (list_del (list_of t)) k))"
  "lists (fork_setup L A t k) = (list_del (list_of t) (lists k))(list_of t := list_del (list_of t) (lists k) (list_of A))"
  by (simp_all add: fork_setup_def)

lemma fork_setup_tasks:
  assumes "layout_ok L" "i < 10"
  shows "tasks (fork_setup L A (task_at L i) k) = (tasks k)(task_at L i := (tasks k A)\<lparr>dir_pages_baseAddr := dir_row L i\<rparr>)"
  using assms by (simp add: fork_setup_def allocate_DIR_task dir_row_def)

lemma set_cr3_same: "cr3 m = D \<Longrightarrow> set_cr3 D m = m"
  by (simp add: set_cr3_def)

lemma fork_alloc_rows:
  assumes "layout_ok L" "table_rows L m" "i < 10" "20 \<le> card (avail m)"
  shows "table_rows L (snd (fork_alloc_from (pt_row L i) 0 m))"
  using fork_alloc_ok(3) [of 0 20 m "pt_row L i"] assms dir_row_not_pt_row [OF assms(1)]
  by (intro table_rows_cong [OF assms(2)]) (simp add: pt_row_aligned dir_row_aligned)

lemma sys_fork_body_success:
  assumes qs: "queues L k Q" and free: "Q (freequeue L) = Some (task_at L i # F)" and i: "i < 10"
    and run: "running L k j" and ij: "i \<noteq> j" and cur: "\<And>k'. esp (cpu k') = esp (cpu k) \<Longrightarrow> current k' = task_at L j"
    and en: "20 \<le> card (avail (mm k))"
  shows "\<exists>m'. forked (mm k) m' (pt_row L j) (pt_row L i) \<and>
    sys_fork_body L k = Some (fork_finish L (task_at L i) (fork_setup L (task_at L j) (task_at L i) k\<lparr>mm := m'\<rparr>))"
proof -
  let ?t = "task_at L i" and ?A = "task_at L j"
  let ?C = "pt_row L i" and ?P = "pt_row L j" and ?D = "dir_row L j" and ?m = "mm k"
  let ?k3 = "fork_setup L ?A ?t k"
  have l: "layout_ok L" and j: "j < 10" and rows: "table_rows L ?m" and dir: "dir_pages_baseAddr (tasks k ?A) = ?D"
    and c3: "cr3 ?m = ?D" and pg: "bit (cr0 ?m) 31" and dp: "data_pages_ok ?m ?P"
    using run by (simp_all add: running_def)
  have tA: "?t \<noteq> ?A"
    using task_at_inj [OF l, of i j] i j ij by simp
  note row = dir_row_not_pt_row [OF l j] pt_row_inj [OF l j i] pt_row_aligned [OF l]
  have sp: "space ?m ?D ?P"
    using space_row [OF l rows j c3 pg] .
  define r where "r = fork_alloc_from ?C 0 ?m"
  have ok: "fst r" and ex: "\<exists>m'. fork_copy_pages ?P ?C [264..<284] (fork_share_pages ?P ?C (snd r)) = Some m' \<and>
      forked ?m m' ?P ?C"
    unfolding r_def using row i j ij
    by (intro fork_memory [OF sp _ _ _ _ _ en dp]; simp)+
  then obtain m' where m': "fork_copy_pages ?P ?C [264..<284] (fork_share_pages ?P ?C (snd r)) = Some m'"
      "forked ?m m' ?P ?C"
    by blast
  have "table_rows L (snd r)"
    unfolding r_def by (rule fork_alloc_rows [OF l rows i en])
  then have PTp: "get_PT (tasks k ?A) (pte (snd r)) = ?P"
    by (rule get_PT_row [OF _ j dir])
  have PTc: "get_PT ((tasks k ?A)\<lparr>dir_pages_baseAddr := dir_row L i\<rparr>) (pte ?m) = ?C"
    by (rule get_PT_row [OF rows i]) simp
  have first: "list_first (freequeue L) (lists k) = list_of ?t" "list_head_to_task_struct (list_of ?t) = ?t"
    using queues_front(1) [OF qs free] task_at_aligned [OF l, of i] i by simp_all
  have "\<not> list_empty (freequeue L) (lists k)"
    using queues_empty [OF qs free] by simp
  moreover have "cr3 m' = ?D"
    using m'(2) c3 by (simp add: forked_def)
  moreover have curs: "current (copy_task_union x y (upd_lists f k)) = ?A" "current (k'\<lparr>mm := z\<rparr>) = ?A"
      "current (upd_lists f k) = ?A"
      if "cpu k' = cpu k" for x y f k' z
    using that by (simp_all add: cur)
  have k3: "upd_task ?t (\<lambda>s. snd (allocate_DIR L ?t s))
      (copy_task_union ?A ?t (upd_lists (list_del (list_of ?t)) k)) = ?k3"
    by (simp add: fork_setup_def)
  have tk: "tasks ?k3 ?t = (tasks k ?A)\<lparr>dir_pages_baseAddr := dir_row L i\<rparr>" "tasks ?k3 ?A = tasks k ?A"
    using tA by (simp_all add: fork_setup_tasks [OF l i])
  obtain b m4 where r: "r = (b, m4)"
    by (cases r)
  have upd: "upd_mm f (k'\<lparr>mm := z\<rparr>) = k'\<lparr>mm := f z\<rparr>" for f k' z
    by (simp add: upd_mm_def)
  have alloc: "fork_alloc_from ?C 0 ?m = (True, m4)"
    using ok r by (simp add: r_def)
  have copy: "fork_copy_pages ?P ?C [264..<284] (fork_share_pages ?P ?C m4) = Some m'"
    using m'(1) r by simp
  have "sys_fork_body L k = Some (fork_finish L ?t (?k3\<lparr>mm := m'\<rparr>))"
    unfolding sys_fork_body_def first Let_def
    using calculation PTp r
    by (simp add: curs cur k3 tk PTc alloc copy get_DIR_def dir set_cr3_same upd del: upt_rec_numeral upt_conv_Cons)
  with m'(2) show ?thesis by blast
qed

text \<open>
  The preconditions of a successful call: the frees queue starts with task \<open>i\<close>, task \<open>j\<close> runs
  in the kernel with its return address on its stack, and twenty frames are available.
\<close>

definition can_fork :: "layout \<Rightarrow> kernel \<Rightarrow> (addr \<rightharpoonup> addr list) \<Rightarrow> nat \<Rightarrow> nat \<Rightarrow> addr list \<Rightarrow> addr list \<Rightarrow> bool" where
  "can_fork L k Q i j F R \<longleftrightarrow> queues L k Q \<and> Q (freequeue L) = Some (task_at L i # F) \<and>
     Q (readyqueue L) = Some R \<and> i < 10 \<and> running L k j \<and> task_at L j \<notin> queued Q \<and>
     on_stack k (task_at L j) 40"

text \<open>The same place in the stack of task \<open>t\<close> as \<open>a\<close> in the stack of \<open>A\<close>.\<close>

definition mirror :: "addr \<Rightarrow> addr \<Rightarrow> addr \<Rightarrow> addr" where
  "mirror A t a = t + (a - A)"

definition fork_child :: "layout \<Rightarrow> kernel \<Rightarrow> kernel \<Rightarrow> addr \<Rightarrow> addr \<Rightarrow> bool" where
  "fork_child L k k' A t \<longleftrightarrow>
     PID (tasks k' t) = global_PID k + 1 \<and> state (tasks k' t) = ST_READY \<and>
     total_quantum (tasks k' t) = total_quantum (tasks k A) \<and>
     register_esp (tasks k' t) = mirror A t (esp (cpu k)) - 8 \<and>
     stack k' (mirror A t (esp (cpu k)) - 8) = ebp (cpu k) \<and>
     stack k' (mirror A t (esp (cpu k)) - 4) = ret_from_fork_code L \<and>
     (\<forall>off. esp (cpu k) - A \<le> off \<longrightarrow> off < 4096 \<longrightarrow> stack k' (t + off) = stack k (A + off))"

lemma can_fork_other:
  assumes "can_fork L k Q i j F R"
  shows "i \<noteq> j" and "task_at L i \<noteq> task_at L j" and "layout_ok L" and "freequeue L \<noteq> readyqueue L"
proof -
  have l: "layout_ok L" and ij: "i < 10" "j < 10"
    using assms by (simp_all add: can_fork_def running_def)
  have "task_at L i \<in> queued Q"
    using assms by (intro queuedI [of Q "freequeue L"]) (auto simp: can_fork_def)
  then show "task_at L i \<noteq> task_at L j"
    using assms by (auto simp: can_fork_def)
  then show "i \<noteq> j" by auto
  show "layout_ok L" by (rule l)
  show "freequeue L \<noteq> readyqueue L"
    using l by (simp add: layout_ok_def)
qed

lemma enter_current:
  assumes "on_stack k A 40" and "esp (cpu k') = esp (cpu (frame_enter k))"
  shows "current k' = A"
  using on_stack_page [OF assms(1), of 16] assms(2) by (simp add: current_def)

lemma fork_queues:
  assumes cf: "can_fork L k Q i j F R"
  shows "queues L (upd_lists (list_add_tail (list_of (task_at L i)) (readyqueue L))
      (fork_setup L A (task_at L i) (frame_enter k)))
    (Q(freequeue L \<mapsto> F, readyqueue L \<mapsto> R @ [task_at L i]))"
proof -
  let ?t = "task_at L i" and ?Q = "Q(freequeue L \<mapsto> F)"
  have qs: "queues L k Q" and free: "Q (freequeue L) = Some (?t # F)" and rd: "Q (readyqueue L) = Some R"
    and i: "i < 10"
    using cf by (simp_all add: can_fork_def)
  note ne = can_fork_other [OF cf]
  have t: "?t \<in> task_set L"
    using i by (auto simp: task_set_def)
  have q1: "queues L (upd_lists (list_del (list_of ?t)) k) ?Q"
    using queues_del [OF qs, of "freequeue L" "[]" ?t F] free by simp
  have "?t \<notin> set F"
    using queued_distinct(1) [OF qs free] by simp
  moreover have "?t \<notin> set us" if "Q q = Some us" "q \<noteq> freequeue L" for q us
    using queued_distinct(2) [OF qs free that] by simp
  ultimately have out: "?t \<notin> queued ?Q"
    by (auto simp: queued_mem split: if_splits)
  have q2: "queues L (fork_setup L A ?t (frame_enter k)) ?Q"
    by (rule queues_node_cong [OF q1 _ t out]) simp
  show ?thesis
    using queues_enq [OF q2, of "readyqueue L" R ?t] rd ne(4) t out by simp
qed

lemma fork_child_stack:
  assumes on: "on_stack k A 40" and t: "page_aligned t" "t \<noteq> A"
  defines "e \<equiv> mirror A t (esp (cpu k))"
  defines "st \<equiv> stack (copy_task_union A t (frame_enter k))"
  shows "st (e - 4) = ebp (cpu k)"
    and "esp (cpu k) - A \<le> off \<Longrightarrow> off < 4096 \<Longrightarrow> st (t + off) = stack k (A + off)"
    and "esp (cpu k) - A \<le> off \<Longrightarrow> off < 4096 \<Longrightarrow> t + off \<noteq> e - 4 \<and> t + off \<noteq> e - 8"
    and "stack_page (e - 4) = t" and "stack_page (e - 8) = t"
    and "stack_page a \<noteq> t \<Longrightarrow> st a = (if a = esp (cpu k) - 4 then ebp (cpu k) else stack k a)"
proof -
  let ?o = "esp (cpu k) - A"
  have o: "40 \<le> unat ?o" "unat ?o < 4096"
    using on by (simp_all add: on_stack_def)
  have sub: "unat (?o - of_nat n) = unat ?o - n" if "n \<le> 40" for n
  proof -
    have "(of_nat n :: addr) \<le> ?o"
      using o that by (simp add: word_le_nat_alt unat_of_nat)
    then show ?thesis
      using that by (simp add: unat_sub unat_of_nat)
  qed
  have o4: "unat (?o - 4) = unat ?o - 4" and o8: "unat (?o - 8) = unat ?o - 8"
    using sub [of 4] sub [of 8] by simp_all
  have e4: "e - 4 = t + (?o - 4)" and e8: "e - 8 = t + (?o - 8)"
    by (simp_all add: e_def mirror_def)
  have lt4: "unat (?o - 4) < 4096" and lt8: "unat (?o - 8) < 4096"
    using o o4 o8 by simp_all
  show "stack_page (e - 4) = t"
    unfolding e4 by (rule page_offset(1) [OF t(1) lt4])
  show "stack_page (e - 8) = t"
    unfolding e8 by (rule page_offset(1) [OF t(1) lt8])
  have "st (e - 4) = stack (frame_enter k) (A + (?o - 4))"
    unfolding st_def e4 by (rule copy_task_union_stack [OF t(1) lt4])
  then show "st (e - 4) = ebp (cpu k)"
    by simp
  show "st (t + off) = stack k (A + off)" if "?o \<le> off" "off < 4096"
  proof -
    have off: "unat off < 4096" and ne: "unat ?o \<le> unat off"
      using that by (simp_all add: word_less_nat_alt word_le_nat_alt)
    have "off \<noteq> ?o - 4"
      using ne o4 o(1) by auto
    then have "A + off \<noteq> esp (cpu k) - 4"
      by (auto simp: algebra_simps)
    moreover have "st (t + off) = stack (frame_enter k) (A + off)"
      unfolding st_def by (rule copy_task_union_stack [OF t(1) off])
    ultimately show ?thesis by simp
  qed
  show "t + off \<noteq> e - 4 \<and> t + off \<noteq> e - 8" if "?o \<le> off" "off < 4096"
  proof -
    have "unat ?o \<le> unat off"
      using that by (simp add: word_le_nat_alt)
    then have "off \<noteq> ?o - 4" "off \<noteq> ?o - 8"
      using o4 o8 o(1) by auto
    then show ?thesis
      unfolding e4 e8 by simp
  qed
  show "st a = (if a = esp (cpu k) - 4 then ebp (cpu k) else stack k a)" if "stack_page a \<noteq> t"
    unfolding st_def by (simp add: copy_task_union_stack_other [OF that])
qed

lemma copy_lists_stack [simp]:
  "stack (copy_task_union s d (upd_lists f k)) = stack (copy_task_union s d k)"
  by (rule ext) (simp add: copy_task_union_def)

lemma sys_fork_success:
  assumes cf: "can_fork L k Q i j F R" and en: "20 \<le> card (avail (mm k))"
  defines "A \<equiv> task_at L j" and "t \<equiv> task_at L i"
  shows "\<exists>k'. sys_fork L k = Some (global_PID k + 1, k') \<and>
    queues L k' (Q(freequeue L \<mapsto> F, readyqueue L \<mapsto> R @ [t])) \<and>
    forked (mm k) (mm k') (pt_row L j) (pt_row L i) \<and> dir_pages_baseAddr (tasks k' t) = dir_row L i \<and>
    fork_child L k k' A t \<and> cpu k' = cpu k \<and> global_PID k' = global_PID k + 1 \<and>
    remaining_quantum k' = remaining_quantum k \<and> idle_task k' = idle_task k \<and> tss k' = tss k \<and>
    (\<forall>x. x \<noteq> t \<longrightarrow> tasks k' x = tasks k x) \<and>
    (\<forall>a. stack_page a \<noteq> t \<longrightarrow> a \<noteq> esp (cpu k) - 4 \<longrightarrow> stack k' a = stack k a)"
proof -
  note ne = can_fork_other [OF cf]
  have qs: "queues L k Q" and free: "Q (freequeue L) = Some (t # F)" and i: "i < 10"
    and run: "running L k j" and on: "on_stack k A 40"
    using cf by (simp_all add: can_fork_def A_def t_def)
  let ?k1 = "frame_enter k"
  have run1: "running L ?k1 j" and qs1: "queues L ?k1 Q"
    using run qs by (simp_all add: running_def queues_def)
  have cur: "current k' = A" if "esp (cpu k') = esp (cpu ?k1)" for k'
    by (rule enter_current [OF on that])
  obtain m' where fm: "forked (mm k) m' (pt_row L j) (pt_row L i)"
    and body: "sys_fork_body L ?k1 = Some (fork_finish L t (fork_setup L A t ?k1\<lparr>mm := m'\<rparr>))"
    using sys_fork_body_success [OF qs1 free [unfolded t_def] i run1 ne(1) cur [unfolded A_def]] en
    by (auto simp: A_def t_def)
  define K where "K = fork_setup L A t ?k1\<lparr>mm := m'\<rparr>"
  define k' where "k' = frame_leave (snd (fork_finish L t K))"
  have cK: "current K = A"
    by (rule cur) (simp add: K_def)
  note fin = fork_finish_effect [OF cK, where L = L and t = t]
  have e: "child_ebp K A t = mirror A t (esp (cpu k)) - 4"
    by (simp add: child_ebp_def K_def mirror_def)
  have tA: "t \<noteq> A" and tal: "page_aligned t"
    using ne task_at_aligned [OF ne(3), of i] i by (simp_all add: A_def t_def)
  note stk = fork_child_stack [OF on tal tA]
  have sK: "stack K = stack (copy_task_union A t ?k1)"
    by (simp add: K_def)
  have st: "stack k' = (stack K)(mirror A t (esp (cpu k)) - 4 := ret_from_fork_code L,
      mirror A t (esp (cpu k)) - 8 := ebp (cpu k))"
    using fin(4) stk(1) by (simp add: k'_def e sK)
  have tK: "tasks K x = (if x = t then (tasks k A)\<lparr>dir_pages_baseAddr := dir_row L i\<rparr> else tasks k x)" for x
    using fork_setup_tasks [OF ne(3) i, of A ?k1] by (simp add: K_def t_def)
  have run': "sys_fork L k = Some (global_PID k + 1, k')"
    using body fin(1) by (simp add: sys_fork_def k'_def K_def apsnd_def map_prod_def case_prod_beta)
  have q': "queues L k' (Q(freequeue L \<mapsto> F, readyqueue L \<mapsto> R @ [t]))"
    using fork_queues [OF cf, of A] fin(3) by (simp add: queues_def k'_def K_def t_def)
  have "stack_page (esp (cpu k) - 4) = A"
    using on_stack_page [OF on, of 4] by simp
  then have pgs: "stack_page (esp (cpu k) - 4) \<noteq> t"
    using tA by simp
  have other: "stack k' a = stack K a" if "stack_page a \<noteq> t" for a
    using that stk(4,5) st by auto
  have "stack k' (esp (cpu k) - 4) = ebp (cpu k)"
    using other [OF pgs] stk(6) [OF pgs] by (simp add: sK)
  then have cpu': "cpu k' = cpu k"
    using fin(12) by (simp add: k'_def K_def)
  have gK: "global_PID K = global_PID k" and mK: "mm K = m'" and iK: "idle_task K = idle_task k"
    and rK: "remaining_quantum K = remaining_quantum k" and sT: "tss K = tss k"
    by (simp_all add: K_def)
  have tasks': "PID (tasks k' t) = global_PID k + 1" "state (tasks k' t) = ST_READY"
    "total_quantum (tasks k' t) = total_quantum (tasks k A)"
    "register_esp (tasks k' t) = mirror A t (esp (cpu k)) - 8"
    "dir_pages_baseAddr (tasks k' t) = dir_row L i"
    using fin(5,6,7,8,9) [of t] tK [of t] by (simp_all add: k'_def gK e)
  have child: "fork_child L k k' A t"
    unfolding fork_child_def
  proof (intro conjI allI impI)
    fix off :: addr
    assume off: "esp (cpu k) - A \<le> off" "off < 4096"
    show "stack k' (t + off) = stack k (A + off)"
      using stk(2,3) [OF off] st by (simp add: sK)
  qed (use tasks' in \<open>simp_all add: st\<close>)
  have same: "tasks k' x = tasks k x" if "x \<noteq> t" for x
    using that fin(5,6,7,8,9) [of x] fin(10) [of x] tK [of x]
    by (intro task_struct.equality) (simp_all add: k'_def)
  have "stack k' a = stack k a" if "stack_page a \<noteq> t" "a \<noteq> esp (cpu k) - 4" for a
    using other [OF that(1)] stk(6) [OF that(1)] that(2) by (simp add: sK)
  moreover have "mm k' = m'" "global_PID k' = global_PID k + 1"
    "remaining_quantum k' = remaining_quantum k" "idle_task k' = idle_task k" "tss k' = tss k"
    using fin(2,11,13,14,16) by (simp_all add: k'_def gK mK iK rK sT)
  ultimately show ?thesis
    using run' q' fm child cpu' same tasks'(5) by (intro exI [of _ k']) simp
qed

section \<open>Failure\<close>

text \<open>Entering and leaving the frame only leaves the pushed frame pointer behind.\<close>

definition below_esp :: "kernel \<Rightarrow> kernel" where
  "below_esp k = stack_write (esp (cpu k) - 4) (ebp (cpu k)) k"

lemma frame_leave_enter: "frame_leave (frame_enter k) = below_esp k"
  by (simp add: frame_leave_def frame_enter_def below_esp_def kernel_upd_defs Let_def)

lemma sys_fork_no_task:
  assumes "queues L k Q" and "Q (freequeue L) = Some []"
  shows "sys_fork L k = Some (- ENOMEM, below_esp k)"
  using queues_empty [OF assms]
  by (simp add: sys_fork_def sys_fork_body_def frame_leave_enter)

lemma fork_memory_fails:
  assumes "card (avail m) < 20" and "avail m \<subseteq> returnable" and "page_aligned C"
  defines "r \<equiv> fork_alloc_from C 0 m"
  shows "\<not> fst r" and "avail (snd r) = avail m" and "ram (snd r) = ram m" and "cr3 (snd r) = cr3 m"
    and "cr0 (snd r) = cr0 m"
    and "page_aligned PT \<Longrightarrow> p < 1024 \<Longrightarrow> (PT = C \<longrightarrow> \<not> (264 \<le> p \<and> p < 284)) \<Longrightarrow>
      pt_entry (snd r) PT p = pt_entry m PT p"
  using fork_alloc_fails [of 0 m C "[]" PT p] assms by (simp_all add: r_def)

lemma sys_fork_no_frames:
  assumes cf: "can_fork L k Q i j F R" and few: "card (avail (mm k)) < 20"
    and ret: "avail (mm k) \<subseteq> returnable"
  defines "A \<equiv> task_at L j" and "t \<equiv> task_at L i"
  shows "\<exists>k'. sys_fork L k = Some (- EAGAIN, k') \<and> queues L k' (Q(freequeue L \<mapsto> F @ [t])) \<and>
    avail (mm k') = avail (mm k) \<and> ram (mm k') = ram (mm k) \<and> cpu k' = cpu k \<and>
    cr3 (mm k') = cr3 (mm k) \<and> global_PID k' = global_PID k \<and>
    (\<forall>PT p. page_aligned PT \<longrightarrow> p < 1024 \<longrightarrow> PT \<noteq> pt_row L i \<longrightarrow> pt_entry (mm k') PT p = pt_entry (mm k) PT p) \<and>
    PID (tasks k' t) = PID (tasks k A) \<and> (\<forall>x. x \<noteq> t \<longrightarrow> tasks k' x = tasks k x)"
proof -
  note ne = can_fork_other [OF cf]
  have qs: "queues L k Q" and free: "Q (freequeue L) = Some (t # F)" and i: "i < 10"
    and run: "running L k j" and on: "on_stack k A 40"
    using cf by (simp_all add: can_fork_def A_def t_def)
  have rows: "table_rows L (mm k)"
    using run by (simp add: running_def)
  let ?k1 = "frame_enter k"
  let ?k3 = "fork_setup L A t ?k1"
  have first: "list_first (freequeue L) (lists k) = list_of t" "list_head_to_task_struct (list_of t) = t"
    using queues_front(1) [OF qs free] task_at_aligned [OF ne(3), of i] i by (simp_all add: t_def)
  have tA: "t \<noteq> A" and tal: "page_aligned t" and tset: "t \<in> task_set L"
    using ne task_at_aligned [OF ne(3), of i] i by (auto simp: A_def t_def task_set_def)
  have cur: "current (upd_lists f ?k1) = A" for f
    by (rule enter_current [OF on]) simp
  have PTc: "get_PT ((tasks k A)\<lparr>dir_pages_baseAddr := dir_row L i\<rparr>) (pte (mm k)) = pt_row L i"
    by (rule get_PT_row [OF rows i]) simp
  have tk: "tasks ?k3 x = (if x = t then (tasks k A)\<lparr>dir_pages_baseAddr := dir_row L i\<rparr> else tasks k x)" for x
    using fork_setup_tasks [OF ne(3) i, of A ?k1] by (simp add: t_def)
  note mf = fork_memory_fails [OF few ret pt_row_aligned [OF ne(3) i]]
  obtain b m4 where r: "fork_alloc_from (pt_row L i) 0 (mm k) = (b, m4)"
    by (cases "fork_alloc_from (pt_row L i) 0 (mm k)")
  have k3: "upd_task t (\<lambda>s. snd (allocate_DIR L t s))
      (copy_task_union A t (upd_lists (list_del (list_of t)) ?k1)) = ?k3"
    by (simp add: fork_setup_def)
  define K where "K = upd_lists (list_add_tail (list_of t) (freequeue L)) (?k3\<lparr>mm := m4\<rparr>)"
  have fe: "list_first (freequeue L) (lists ?k1) = list_of t"
    by (simp add: first)
  have "fork_alloc_from (pt_row L i) 0 (mm k) = (False, m4)"
    using mf(1) r by simp
  then have body: "sys_fork_body L ?k1 = Some (- EAGAIN, K)"
    unfolding sys_fork_body_def fe first Let_def cur k3
    using queues_empty [OF qs free] by (simp add: tk PTc K_def)
  have q1: "queues L (upd_lists (list_del (list_of t)) k) (Q(freequeue L \<mapsto> F))"
    using queues_del [OF qs, of "freequeue L" "[]" t F] free by simp
  have "t \<notin> set F" and "\<And>q us. Q q = Some us \<Longrightarrow> q \<noteq> freequeue L \<Longrightarrow> t \<notin> set us"
    using queued_distinct [OF qs free] by fastforce+
  then have out: "t \<notin> queued (Q(freequeue L \<mapsto> F))"
    by (auto simp: queued_mem split: if_splits)
  have q2: "queues L (?k3\<lparr>mm := m4\<rparr>) (Q(freequeue L \<mapsto> F))"
    by (rule queues_node_cong [OF q1 _ tset out]) simp
  have q3: "queues L K (Q(freequeue L \<mapsto> F @ [t]))"
    using queues_enq [OF q2 _ tset out, of "freequeue L" F] by (simp add: K_def)
  have "stack_page (esp (cpu k) - 4) = A"
    using on_stack_page [OF on, of 4] by simp
  then have pgs: "stack_page (esp (cpu k) - 4) \<noteq> t"
    using tA by simp
  have "stack K (esp (cpu k) - 4) = ebp (cpu k)"
    using fork_child_stack(6) [OF on tal tA pgs] by (simp add: K_def)
  then have cpu: "cpu (frame_leave K) = cpu k"
    by (simp add: K_def)
  have "sys_fork L k = Some (- EAGAIN, frame_leave K)"
    using body by (simp add: sys_fork_def)
  moreover have "queues L (frame_leave K) (Q(freequeue L \<mapsto> F @ [t]))"
    using q3 by (simp add: queues_def)
  moreover have "mm (frame_leave K) = m4" "global_PID (frame_leave K) = global_PID k"
    by (simp_all add: K_def)
  moreover have "tasks (frame_leave K) x = tasks ?k3 x" for x
    by (simp add: K_def)
  ultimately show ?thesis
    using mf r cpu tk by (intro exI [of _ "frame_leave K"]) auto
qed

end
