(* ===== verification/SchedInit.thy ===== *)
theory SchedInit
  imports Scheduling
begin

text \<open>
  The state the initialisation of sched.c reaches: all ten tasks free, then one taken for the
  idle task and one for the first process, which runs.
\<close>

section \<open>The queues\<close>

lemma init_free_task_simps [simp]:
  "lists (init_free_task L i k) = list_add_tail (list_of (task_at L i)) (freequeue L) (lists k)"
  "tasks (init_free_task L i k) = (tasks k)(task_at L i := (tasks k (task_at L i))\<lparr>PID := -1\<rparr>)"
  "mm (init_free_task L i k) = mm k" "cpu (init_free_task L i k) = cpu k"
  "stack (init_free_task L i k) = stack k" "tsc (init_free_task L i k) = tsc k"
  by (simp_all add: init_free_task_def Let_def)

lemma init_free_tasks_lists:
  "lists (fold (init_free_task L) is k) =
     fold (\<lambda>n. list_add_tail n (freequeue L)) (map (\<lambda>i. list_of (task_at L i)) is) (lists k)"
  by (induction "is" arbitrary: k) simp_all

lemma init_free_tasks_simps [simp]:
  "mm (fold (init_free_task L) is k) = mm k" "cpu (fold (init_free_task L) is k) = cpu k"
  "stack (fold (init_free_task L) is k) = stack k" "tsc (fold (init_free_task L) is k) = tsc k"
  by (induction "is" arbitrary: k) simp_all

lemma init_free_tasks_PID:
  "PID (tasks (fold (init_free_task L) is k) t) = (if t \<in> task_at L ` set is then -1 else PID (tasks k t))"
  by (induction "is" arbitrary: k) auto

definition all_tasks :: "layout \<Rightarrow> addr list" where
  "all_tasks L = map (task_at L) [0..<10]"

lemma distinct_all_tasks: "layout_ok L \<Longrightarrow> distinct (all_tasks L)"
  unfolding all_tasks_def distinct_map
  by (auto intro!: inj_onI simp: task_at_inj)

lemma set_all_tasks: "set (all_tasks L) = task_set L"
  by (auto simp: all_tasks_def task_set_def)

lemma head_not_node: "layout_ok L \<Longrightarrow> queue_head L q \<Longrightarrow> q \<notin> list_of ` task_set L"
  using list_of_not_head by (fastforce simp: task_set_def)

lemma family_none: "family repr h Map.empty"
  by (simp add: family_def)

lemma queues_empty_head:
  assumes "layout_ok L" and "queue_head L q"
  shows "queues L (upd_lists (INIT_LIST_HEAD q) k) [q \<mapsto> []]"
proof -
  have "family cdl (INIT_LIST_HEAD q (lists k)) ([q \<mapsto> []])"
    using lq.family_init [OF family_none, of q] by (simp add: family_nodes_def)
  moreover have "nodes [q \<mapsto> []] = [q \<mapsto> []]"
    by (simp add: nodes_upd)
  ultimately show ?thesis
    using head_not_node [OF assms] assms(1) by (simp add: queues_def queued_mem subset_iff)
qed

lemma init_freequeue_queues:
  assumes "layout_ok L"
  shows "queues L (init_freequeue L k) [freequeue L \<mapsto> all_tasks L]"
proof -
  let ?h = "INIT_LIST_HEAD (freequeue L) (lists k)"
  have qh: "queue_head L (freequeue L)"
    by (simp add: queue_head_def)
  have q0: "queues L (upd_lists (INIT_LIST_HEAD (freequeue L)) k) [freequeue L \<mapsto> []]"
    by (rule queues_empty_head [OF assms qh])
  have n0: "nodes [freequeue L \<mapsto> []] = [freequeue L \<mapsto> []]"
    by (simp add: nodes_upd)
  have f0: "family cdl ?h [freequeue L \<mapsto> []]"
    using q0 by (simp add: queues_def n0)
  have "distinct (map list_of (all_tasks L))"
    using distinct_all_tasks [OF assms] by (simp add: distinct_map inj_on_def)
  moreover have "set (map list_of (all_tasks L)) \<inter> family_nodes [freequeue L \<mapsto> []] = {}"
    using head_not_node [OF assms qh] by (auto simp: set_all_tasks family_nodes_def)
  ultimately have "family cdl (fold (\<lambda>n. list_add_tail n (freequeue L)) (map list_of (all_tasks L)) ?h)
      [freequeue L \<mapsto> map list_of (all_tasks L)]"
    using lq.family_enq_all [OF f0, of "freequeue L" "[]"] by simp
  then have "family cdl (lists (init_freequeue L k)) (nodes [freequeue L \<mapsto> all_tasks L])"
    by (simp add: init_freequeue_def Let_def init_free_tasks_lists nodes_upd all_tasks_def comp_def
        del: upt_Suc)
  moreover have "queued [freequeue L \<mapsto> all_tasks L] \<subseteq> task_set L"
    by (auto simp: queued_mem set_all_tasks split: if_splits)
  ultimately show ?thesis
    using assms head_not_node [OF assms qh] by (simp add: queues_def)
qed

lemma queues_new_head:
  assumes qs: "queues L k Q" and qh: "queue_head L q" and new: "Q q = None"
  shows "queues L (upd_lists (INIT_LIST_HEAD q) k) (Q(q \<mapsto> []))"
proof -
  have l: "layout_ok L"
    using qs by (simp add: queues_def)
  have "q \<notin> family_nodes (nodes Q)"
  proof
    assume "q \<in> family_nodes (nodes Q)"
    then obtain p ts where p: "Q p = Some ts" "q = p \<or> q \<in> list_of ` set ts"
      by (auto simp: family_nodes_mem nodes_def)
    moreover have "set ts \<subseteq> task_set L"
      using queued_task [OF qs] p(1) by (auto intro: queuedI)
    ultimately show False
      using new head_not_node [OF l qh] by auto
  qed
  then have "family cdl (INIT_LIST_HEAD q (lists k)) (nodes (Q(q \<mapsto> [])))"
    using lq.family_init [of "lists k" "nodes Q" q] qs by (simp add: queues_def nodes_upd)
  moreover have "queued (Q(q \<mapsto> [])) \<subseteq> task_set L"
    using qs by (fastforce simp: queues_def queued_mem split: if_splits)
  ultimately show ?thesis
    using head_not_node [OF l qh] qs by (auto simp: queues_def)
qed

lemma init_sched_queues:
  assumes "layout_ok L" and "\<And>k. init_policy k = k"
  shows "queues L (init_sched L init_policy k) [freequeue L \<mapsto> all_tasks L, readyqueue L \<mapsto> []]"
proof -
  have "freequeue L \<noteq> readyqueue L"
    using assms(1) by (simp add: layout_ok_def)
  then show ?thesis
    using queues_new_head [OF init_freequeue_queues [OF assms(1)], of "readyqueue L"] assms(2)
    by (simp add: init_sched_def Let_def queue_head_def)
qed

section \<open>The first two tasks\<close>

text \<open>Both routines take the first free task; \<open>t\<close> is that task.\<close>

lemma task_set_page: "layout_ok L \<Longrightarrow> t \<in> task_set L \<Longrightarrow> unat off < 4096 \<Longrightarrow> stack_page (t + off) = t"
  using page_offset(1) [OF task_set_aligned] by blast

lemma init_idle_effect:
  assumes qs: "queues L k Q" and q: "Q (freequeue L) = Some (t # F)"
  shows "queues L (init_idle L k) (Q(freequeue L \<mapsto> F))" and "idle_task (init_idle L k) = t"
    and "PID (tasks (init_idle L k) x) = (if x = t then 0 else PID (tasks k x))"
    and "total_quantum (tasks (init_idle L k) x) = (if x = t then 10 else total_quantum (tasks k x))"
    and "state (tasks (init_idle L k) x) = state (tasks k x)"
    and "dir_pages_baseAddr (tasks (init_idle L k) x) =
      (if x = t then dir_pages L + 4096 * ((t - task_array L) div 4096) else dir_pages_baseAddr (tasks k x))"
    and "mm (init_idle L k) = mm k" and "cpu (init_idle L k) = cpu k"
    and "global_PID (init_idle L k) = global_PID k"
    and "remaining_quantum (init_idle L k) = remaining_quantum k"
    and "register_esp (tasks (init_idle L k) t) = t + 4088"
    and "stack (init_idle L k) = (stack k)(t + 4092 := cpu_idle_code L, t + 4088 := 0)"
  using queues_front [OF qs q]
  by (simp_all add: init_idle_def Let_def queues_def allocate_DIR_def stack_slot_def dword_at_def)

lemma init_idle_starts:
  assumes "queues L k Q" and "Q (freequeue L) = Some (t # F)"
    and "cpu_idle_code L \<noteq> task_switch_ret_code L"
  shows "fresh_start L (init_idle L k) t 0 (cpu_idle_code L)"
proof -
  have "t \<in> task_set L" and l: "layout_ok L"
    using assms(1) queued_task [OF assms(1)] queuedI [of Q, OF assms(2)] by (auto simp: queues_def)
  then have "stack_page (t + 4088) = t" "stack_page (t + 4092) = t"
    by (intro task_set_page; simp)+
  then show ?thesis
    using assms(3) by (simp add: fresh_start_def init_idle_effect [OF assms(1,2)] add.commute [of _ t])
qed

lemma init_task1_effect:
  assumes qs: "queues L k Q" and q: "Q (freequeue L) = Some (t # F)"
  shows "queues L (init_task1 L k) (Q(freequeue L \<mapsto> F))" and "idle_task (init_task1 L k) = idle_task k"
    and "PID (tasks (init_task1 L k) x) = (if x = t then 1 else PID (tasks k x))"
    and "total_quantum (tasks (init_task1 L k) x) = (if x = t then 10 else total_quantum (tasks k x))"
    and "state (tasks (init_task1 L k) x) = (if x = t then ST_RUN else state (tasks k x))"
    and "dir_pages_baseAddr (tasks (init_task1 L k) x) =
      (if x = t then dir_pages L + 4096 * ((t - task_array L) div 4096) else dir_pages_baseAddr (tasks k x))"
    and "remaining_quantum (init_task1 L k) = 10" and "cpu (init_task1 L k) = cpu k"
    and "global_PID (init_task1 L k) = global_PID k"
    and "tss_esp0 (tss (init_task1 L k)) = t + 4096" and "msr (init_task1 L k) 0x175 = (0, t + 4096)"
    and "cr3 (mm (init_task1 L k)) = dir_pages L + 4096 * ((t - task_array L) div 4096)"
  using queues_front [OF qs q]
  by (simp_all add: init_task1_def Let_def queues_def allocate_DIR_def stack_slot_def dword_at_def
      set_cr3_def)

end
