(* ===== verification/BootSpec.thy ===== *)
theory BootSpec
  imports Boot Fork SchedInit
begin

text \<open>
  What the boot sequence establishes: the frame map, the page tables, the address space of
  the first process, and with them the preconditions of the system calls.
\<close>

section \<open>Frames after init\_frames\<close>

lemma set_frames_phys:
  "phys_mem (fold (\<lambda>i. set_frame i b) is m) f = (if f \<in> set is then b else phys_mem m f)"
  by (induction "is" arbitrary: m) auto

lemma set_frames_simps [simp]:
  "pte (fold (\<lambda>i. set_frame i b) is m) = pte m" "ram (fold (\<lambda>i. set_frame i b) is m) = ram m"
  "cr3 (fold (\<lambda>i. set_frame i b) is m) = cr3 m" "cr0 (fold (\<lambda>i. set_frame i b) is m) = cr0 m"
  by (induction "is" arbitrary: m) simp_all

lemma init_frames_simps [simp]:
  "pte (init_frames m) = pte m" "ram (init_frames m) = ram m" "cr3 (init_frames m) = cr3 m"
  "cr0 (init_frames m) = cr0 m" "pt_entry (init_frames m) = pt_entry m"
  by (simp_all add: init_frames_def Let_def pt_entry_def fun_eq_iff del: upt_rec_numeral)

lemma init_frames_phys:
  "f < 1024 \<Longrightarrow> phys_mem (init_frames m) f = (if f < 256 then USED_FRAME else FREE_FRAME)"
  unfolding init_frames_def Let_def set_frames_phys set_upt by simp

lemma init_frames_avail: "avail (init_frames m) = {f. 256 \<le> f \<and> f < 1024 \<and> even f}"
  unfolding avail_def using init_frames_phys [of _ m] by auto

lemma even_frames: "{f. 256 \<le> f \<and> f < 1024 \<and> even f} = (\<lambda>i. 256 + 2 * i) ` {..<384 :: nat}"
proof (intro subset_antisym subsetI)
  fix f :: nat
  assume f: "f \<in> {f. 256 \<le> f \<and> f < 1024 \<and> even f}"
  then obtain g where "f = 2 * g"
    by (auto elim: evenE)
  then show "f \<in> (\<lambda>i. 256 + 2 * i) ` {..<384}"
    using f by (intro image_eqI [of _ _ "g - 128"]) auto
qed auto

lemma sorted_even_frames:
  "sorted_list_of_set {f. 256 \<le> f \<and> f < 1024 \<and> even f} = map (\<lambda>i. 256 + 2 * i) [0..<384]"
proof (rule sorted_distinct_set_unique)
  show "sorted (map (\<lambda>i. 256 + 2 * i) [0..<384 :: nat])"
    by (simp add: sorted_iff_nth_mono del: upt_rec_numeral)
  show "distinct (map (\<lambda>i. 256 + 2 * i) [0..<384 :: nat])"
    by (simp add: distinct_map inj_on_def del: upt_rec_numeral)
  have fin: "finite {f :: nat. 256 \<le> f \<and> f < 1024 \<and> even f}"
    by (rule finite_subset [of _ "{..<1024}"]) auto
  show "set (sorted_list_of_set {f. 256 \<le> f \<and> f < 1024 \<and> even f}) = set (map (\<lambda>i. 256 + 2 * i) [0..<384])"
    unfolding set_sorted_list_of_set [OF fin] set_map set_upt even_frames by (simp add: atLeast0LessThan)
qed simp_all

lemma card_even_frames: "card {f :: nat. 256 \<le> f \<and> f < 1024 \<and> even f} = 384"
  unfolding even_frames by (simp add: card_image inj_on_def)

section \<open>Giving pages to the first process\<close>

text \<open>One round of the loops of \<^verbatim>\<open>set_user_pages\<close>, for an entry made by \<open>E\<close> from the frame.\<close>

definition take_page :: "(dword \<Rightarrow> page_table_entry) \<Rightarrow> addr \<Rightarrow> nat \<Rightarrow> mm_state \<Rightarrow> mm_state" where
  "take_page E PT p m = pte_write (dword_at PT p) (\<lambda>_. E (of_nat (Min (avail m))))
     (set_frame (Min (avail m)) USED_FRAME m)"

definition code_entry :: "dword \<Rightarrow> page_table_entry" where
  "code_entry f = set_present 1 (set_user 1 (set_pbase_addr f 0))"

lemma code_entry_fields [simp]:
  "pte_present (code_entry f) = 1" "pte_rw (code_entry f) = 0" "pte_user (code_entry f) = 1"
  "pte_pbase_addr (code_entry f) = f AND mask 20"
  by (simp_all add: code_entry_def)

lemma set_user_page_take:
  assumes "avail m \<noteq> {}"
  shows "set_user_code_page PT pag m = take_page code_entry PT (256 + pag) m"
    and "set_user_data_page PT pag m = take_page ss_entry PT (264 + pag) m"
  by (rule mm_state_eqI; simp add: set_user_code_page_def set_user_data_page_def take_page_def
      alloc_frame_some [OF assms] code_entry_def ss_entry_def Let_def)+

lemma take_page_simps [simp]:
  "ram (take_page E PT p m) = ram m" "cr3 (take_page E PT p m) = cr3 m" "cr0 (take_page E PT p m) = cr0 m"
  "avail (take_page E PT p m) = avail m - {Min (avail m)}"
  by (simp_all add: take_page_def avail_use)

lemma pt_entry_take_page:
  "page_aligned PT \<Longrightarrow> page_aligned PT' \<Longrightarrow> p < 1024 \<Longrightarrow> p' < 1024 \<Longrightarrow>
   pt_entry (take_page E PT p m) PT' p' =
     (if PT' = PT \<and> p' = p then E (of_nat (Min (avail m))) else pt_entry m PT' p')"
  by (simp add: take_page_def pt_entry_def page_slot_inj)

lemma Min_after_take:
  assumes "n < card A" and "finite (A :: nat set)"
  shows "Min (A - set (take n (sorted_list_of_set A))) = sorted_list_of_set A ! n"
proof -
  let ?xs = "sorted_list_of_set A"
  have n: "n < length ?xs"
    using assms by simp
  have "set ?xs - set (take n ?xs) = set (drop n ?xs)"
    using set_take_disj_set_drop_if_distinct [of ?xs n n]
    by (metis Diff_cancel Un_Diff Un_Diff_cancel2 append_take_drop_id distinct_sorted_list_of_set
        inf_commute order_refl set_append Diff_triv Un_commute Un_empty_right)
  then have "A - set (take n ?xs) = set (drop n ?xs)"
    using assms(2) by simp
  moreover have "drop n ?xs = ?xs ! n # drop (Suc n) ?xs"
    using n by (rule Cons_nth_drop_Suc [symmetric])
  moreover have "sorted (?xs ! n # drop (Suc n) ?xs)"
    using sorted_wrt_drop [OF sorted_list_of_set.sorted_sorted_key_list_of_set, of n A] calculation(2)
    by simp
  ultimately show ?thesis
    by (simp add: Min_insert2)
qed

lemma take_pages:
  fixes E :: "dword \<Rightarrow> page_table_entry"
  assumes "page_aligned PT" and "b + n \<le> 1024" and "n \<le> card (avail m)"
  defines "m' \<equiv> fold (\<lambda>k. take_page E PT (b + k)) [0..<n] m"
  shows "avail m' = avail m - set (next_frames n m)"
    and "ram m' = ram m" and "cr3 m' = cr3 m" and "cr0 m' = cr0 m"
    and "page_aligned PT' \<Longrightarrow> p < 1024 \<Longrightarrow> pt_entry m' PT' p =
      (if PT' = PT \<and> b \<le> p \<and> p < b + n then E (of_nat (next_frames n m ! (p - b))) else pt_entry m PT' p)"
proof -
  let ?xs = "sorted_list_of_set (avail m)"
  let ?f = "\<lambda>n. fold (\<lambda>k. take_page E PT (b + k)) [0..<n] m"
  have step: "avail (?f j) = avail m - set (take j ?xs) \<and> ram (?f j) = ram m \<and> cr3 (?f j) = cr3 m \<and>
      cr0 (?f j) = cr0 m \<and> (\<forall>PT' p. page_aligned PT' \<longrightarrow> p < 1024 \<longrightarrow> pt_entry (?f j) PT' p =
      (if PT' = PT \<and> b \<le> p \<and> p < b + j then E (of_nat (?xs ! (p - b))) else pt_entry m PT' p))"
    if "j \<le> n" for j
    using that
  proof (induction j)
    case (Suc j)
    then have j: "j < card (avail m)" "b + j < 1024"
      using assms(2,3) by auto
    have IH: "avail (?f j) = avail m - set (take j ?xs)" "ram (?f j) = ram m" "cr3 (?f j) = cr3 m"
        "cr0 (?f j) = cr0 m"
      "\<And>PT' p. page_aligned PT' \<Longrightarrow> p < 1024 \<Longrightarrow> pt_entry (?f j) PT' p =
        (if PT' = PT \<and> b \<le> p \<and> p < b + j then E (of_nat (?xs ! (p - b))) else pt_entry m PT' p)"
      using Suc by simp_all
    have mn: "Min (avail (?f j)) = ?xs ! j"
      unfolding IH(1) by (rule Min_after_take [OF j(1) finite_avail])
    have f: "?f (Suc j) = take_page E PT (b + j) (?f j)"
      by simp
    have "avail (?f (Suc j)) = avail (?f j) - {?xs ! j}"
      unfolding f take_page_simps mn ..
    then have av: "avail (?f (Suc j)) = avail m - set (take (Suc j) ?xs)"
      using j(1) by (auto simp: IH(1) take_Suc_conv_app_nth)
    have "pt_entry (?f (Suc j)) PT' p =
        (if PT' = PT \<and> b \<le> p \<and> p < b + Suc j then E (of_nat (?xs ! (p - b))) else pt_entry m PT' p)"
      if "page_aligned PT'" "p < 1024" for PT' p
      unfolding f using that assms(1) j(2) by (auto simp: pt_entry_take_page mn IH(5))
    then show ?case
      using IH(2-4) av f by simp
  qed auto
  show "avail m' = avail m - set (next_frames n m)"
    and "ram m' = ram m" and "cr3 m' = cr3 m" and "cr0 m' = cr0 m"
    using step [of n] by (simp_all add: m'_def next_frames_def)
  show "pt_entry m' PT' p =
      (if PT' = PT \<and> b \<le> p \<and> p < b + n then E (of_nat (next_frames n m ! (p - b))) else pt_entry m PT' p)"
    if "page_aligned PT'" "p < 1024"
    using step [of n] that by (auto simp: m'_def next_frames_def)
qed

text \<open>The loops of \<^verbatim>\<open>set_user_pages\<close> are such rounds as long as frames are available.\<close>

lemma fold_take_cong:
  assumes "\<And>k m'. k < n \<Longrightarrow> avail m' \<noteq> {} \<Longrightarrow> f k m' = take_page E PT (b + k) m'" and "n \<le> card (avail m)"
  shows "fold f [0..<n] m = fold (\<lambda>k. take_page E PT (b + k)) [0..<n] m"
proof -
  have "fold f [0..<j] m = fold (\<lambda>k. take_page E PT (b + k)) [0..<j] m \<and>
      card (avail (fold f [0..<j] m)) + j = card (avail m)" if "j \<le> n" for j
    using that
  proof (induction j)
    case (Suc j)
    let ?m = "fold (\<lambda>k. take_page E PT (b + k)) [0..<j] m"
    note ih = Suc.IH [OF Suc_leD [OF Suc.prems]]
    have IH: "fold f [0..<j] m = ?m" "card (avail ?m) + j = card (avail m)"
      using conjunct1 [OF ih] conjunct2 [OF ih] by (simp_all only:)
    then have c: "0 < card (avail ?m)"
      using Suc.prems assms(2) by linarith
    then have ne: "avail ?m \<noteq> {}"
      by auto
    then have "card (avail (take_page E PT (b + j) ?m)) = card (avail ?m) - 1"
      by simp
    then show ?case
      using assms(1) [of j ?m] Suc.prems ne IH c by simp
  qed simp
  then show ?thesis by simp
qed

definition user_pages :: "addr \<Rightarrow> mm_state \<Rightarrow> mm_state" where
  "user_pages PT m = fold (\<lambda>k. take_page ss_entry PT (264 + k)) [0..<20]
     (fold (\<lambda>k. take_page code_entry PT (256 + k)) [0..<8] m)"

lemma set_user_pages_take:
  assumes "page_aligned (get_PT t (pte m))" and "28 \<le> card (avail m)"
  shows "set_user_pages t m = user_pages (get_PT t (pte m)) m"
proof -
  let ?PT = "get_PT t (pte m)"
  let ?m1 = "fold (\<lambda>k. take_page code_entry ?PT (256 + k)) [0..<8] m"
  have one: "fold (set_user_code_page ?PT) [0..<8] m = ?m1"
    by (rule fold_take_cong) (use set_user_page_take(1) assms(2) in auto)
  have "card (avail ?m1) = card (avail m) - 8"
  proof -
    have "avail ?m1 = avail m - set (next_frames 8 m)"
      by (rule take_pages(1) [OF assms(1)]) (use assms(2) in auto)
    then show ?thesis
      using next_frames_props [of 8 m] assms(2) by (simp add: card_Diff_subset distinct_card)
  qed
  then have two: "fold (set_user_data_page ?PT) [0..<20] ?m1 = fold (\<lambda>k. take_page ss_entry ?PT (264 + k)) [0..<20] ?m1"
    by (intro fold_take_cong) (use set_user_page_take(2) assms(2) in auto)
  show ?thesis
    unfolding set_user_pages_def Let_def user_pages_def one two ..
qed

lemma user_pages_facts:
  assumes "page_aligned PT" and "28 \<le> card (avail m)"
  defines "m' \<equiv> user_pages PT m"
  shows "card (avail m') = card (avail m) - 28" and "avail m' \<subseteq> avail m - {Min (avail m)}"
    and "data_pages_ok m' PT" and "ram m' = ram m" and "cr3 m' = cr3 m" and "cr0 m' = cr0 m"
    and "page_aligned PT' \<Longrightarrow> p < 1024 \<Longrightarrow> PT' \<noteq> PT \<Longrightarrow> pt_entry m' PT' p = pt_entry m PT' p"
    and "p < 8 \<Longrightarrow> pt_entry m' PT (256 + p) = code_entry (of_nat (next_frames 8 m ! p))"
    and "p < 256 \<Longrightarrow> pt_entry m' PT p = pt_entry m PT p"
proof -
  define m1 where "m1 = fold (\<lambda>k. take_page code_entry PT (256 + k)) [0..<8] m"
  have m': "m' = fold (\<lambda>k. take_page ss_entry PT (264 + k)) [0..<20] m1"
    by (simp only: m'_def user_pages_def m1_def)
  have b: "256 + 8 \<le> (1024 :: nat)" "264 + 20 \<le> (1024 :: nat)" and c8: "8 \<le> card (avail m)"
    using assms(2) by auto
  note t1 = take_pages [OF assms(1) b(1) c8, where E = code_entry, folded m1_def]
  have card1: "card (avail m1) = card (avail m) - 8"
    using next_frames_props [OF c8] by (simp add: t1(1) card_Diff_subset distinct_card)
  then have c20: "20 \<le> card (avail m1)"
    using assms(2) by simp
  note t2 = take_pages [OF assms(1) b(2) c20, where E = ss_entry, folded m']
  show "card (avail m') = card (avail m) - 28"
    using next_frames_props [OF c20] card1 by (simp add: t2(1) card_Diff_subset distinct_card)
  have ne: "avail m \<noteq> {}"
    using assms(2) by auto
  have "Min (avail m) \<in> set (next_frames 8 m)"
    using next_frames_Suc [OF ne, of 7] by simp
  then show "avail m' \<subseteq> avail m - {Min (avail m)}"
    using t1(1) t2(1) by auto
  show "ram m' = ram m" "cr3 m' = cr3 m" "cr0 m' = cr0 m"
    using t1(2-4) t2(2-4) by simp_all
  show "pt_entry m' PT' p = pt_entry m PT' p" if "page_aligned PT'" "p < 1024" "PT' \<noteq> PT"
    using t1(5) [OF that(1,2)] t2(5) [OF that(1,2)] that(3) by simp
  show "pt_entry m' PT (256 + p) = code_entry (of_nat (next_frames 8 m ! p))" if "p < 8"
    using t1(5) [OF assms(1), of "256 + p"] t2(5) [OF assms(1), of "256 + p"] that by simp
  show "pt_entry m' PT p = pt_entry m PT p" if "p < 256"
    using t1(5) [OF assms(1), of p] t2(5) [OF assms(1), of p] that by simp
  show "data_pages_ok m' PT"
    unfolding data_pages_ok_def
  proof
    fix p :: nat
    assume p: "p \<in> {264..<284}"
    let ?f = "next_frames 20 m1 ! (p - 264)"
    have "?f \<in> set (next_frames 20 m1)"
      using p next_frames_props(1) [OF c20] by (intro nth_mem) auto
    moreover have "?f < 1024"
      using p by (intro next_frames_bound [OF c20]) auto
    moreover have "pt_entry m' PT p = ss_entry (of_nat ?f)"
      using t2(5) [OF assms(1), of p] p by auto
    ultimately show "pte_present (pt_entry m' PT p) = 1 \<and> frame_of m' PT p \<notin> avail m'"
      using t2(1) by (simp add: frame_of_def get_frame_entry unat_frame)
  qed
qed

end
