(* ===== verification/Exit.thy ===== *)
theory Exit
  imports Fork
begin

text \<open>
  \<^verbatim>\<open>sys_exit\<close>: the frames the process gives back, its return to the free queue, and the
  switch to the next task; before it, what \<^verbatim>\<open>sched_next_rr\<close> does in general.
\<close>

section \<open>Dispatching the next task\<close>

lemma sched_next_rr_effect:
  assumes qs: "queues L k Q" and rd: "Q (readyqueue L) = Some R" and on: "on_stack k A 40"
  defines "B \<equiv> next_of (idle_task k) R" and "k' \<equiv> sched_next_rr L k"
  shows "queues L k' (Q(readyqueue L \<mapsto> tl R))" and "tss_esp0 (tss k') = B + 4096"
    and "mm k' = set_cr3 (dir_pages_baseAddr (tasks k B)) (mm k)"
    and "remaining_quantum k' = total_quantum (tasks k B)"
    and "state (tasks k' x) = (if x = B then ST_RUN else state (tasks k x))"
    and "PID (tasks k' x) = PID (tasks k x)"
    and "dir_pages_baseAddr (tasks k' x) = dir_pages_baseAddr (tasks k x)"
    and "total_quantum (tasks k' x) = total_quantum (tasks k x)"
    and "x \<noteq> A \<Longrightarrow> register_esp (tasks k' x) = register_esp (tasks k x)"
    and "stack_page a \<noteq> A \<Longrightarrow> stack k' a = stack k a"
    and "idle_task k' = idle_task k" and "global_PID k' = global_PID k" and "tty k' = tty k"
    and "zeos_ticks k' = zeos_ticks k"
proof -
  have pick: "next_task L k = B"
    and q': "queues L (snd (pick_next_rr L k)) (Q(readyqueue L \<mapsto> tl R))"
    using pick_next_rr_queues [OF qs rd] by (simp_all add: next_task_def B_def)
  have on': "on_stack (prepare_next L k) A 40"
    using on by (simp add: on_stack_def)
  have eq: "k' = task_switch L B (prepare_next L k)"
    by (simp add: k'_def sched_next_rr_switch pick)
  note sw = task_switch_simps [OF on', of L B, folded eq]
  show "queues L k' (Q(readyqueue L \<mapsto> tl R))"
    using q' by (simp add: queues_def sw)
  show "tss_esp0 (tss k') = B + 4096" and "mm k' = set_cr3 (dir_pages_baseAddr (tasks k B)) (mm k)"
    and "remaining_quantum k' = total_quantum (tasks k B)"
    and "state (tasks k' x) = (if x = B then ST_RUN else state (tasks k x))"
    and "PID (tasks k' x) = PID (tasks k x)"
    and "dir_pages_baseAddr (tasks k' x) = dir_pages_baseAddr (tasks k x)"
    and "total_quantum (tasks k' x) = total_quantum (tasks k x)"
    and "x \<noteq> A \<Longrightarrow> register_esp (tasks k' x) = register_esp (tasks k x)"
    and "idle_task k' = idle_task k" and "global_PID k' = global_PID k" and "tty k' = tty k"
    and "zeos_ticks k' = zeos_ticks k"
    by (simp_all add: sw pick)
  show "stack_page a \<noteq> A \<Longrightarrow> stack k' a = stack k a"
    using switched_stack_other [OF on', of a L B] by (simp add: sw)
qed

section \<open>The data frames of a process\<close>

text \<open>\<open>owns m PT fs\<close>: the twenty data pages of the table are mapped to the frames \<open>fs\<close>.\<close>

definition owns :: "mm_state \<Rightarrow> addr \<Rightarrow> nat list \<Rightarrow> bool" where
  "owns m PT fs \<longleftrightarrow> length fs = 20 \<and> distinct fs \<and> set fs \<subseteq> returnable \<and>
     (\<forall>p < 20. pt_entry m PT (264 + p) = ss_entry (of_nat (fs ! p)))"

lemma owns_frame:
  assumes "owns m PT fs" and "p \<in> {264..<284}"
  shows "frame_of m PT p = fs ! (p - 264)" and "fs ! (p - 264) \<in> set fs"
    and "pte_present (pt_entry m PT p) = 1"
proof -
  show mem: "fs ! (p - 264) \<in> set fs"
    using assms by (auto simp: owns_def)
  have e: "pt_entry m PT p = ss_entry (of_nat (fs ! (p - 264)))"
    using assms by (auto simp: owns_def dest: spec [of _ "p - 264"])
  then show "pte_present (pt_entry m PT p) = 1"
    by simp
  have "fs ! (p - 264) < 1024"
    using mem assms(1) by (auto simp: owns_def returnable_def)
  then show "frame_of m PT p = fs ! (p - 264)"
    using e by (simp add: frame_of_def get_frame_entry unat_frame)
qed

lemma owns_frames:
  assumes "owns m PT fs"
  shows "set fs = frame_of m PT ` {264..<284}"
proof (intro subset_antisym subsetI)
  fix f
  assume "f \<in> set fs"
  then obtain n where "n < 20" "f = fs ! n"
    using assms by (auto simp: owns_def in_set_conv_nth)
  then show "f \<in> frame_of m PT ` {264..<284}"
    using owns_frame(1) [OF assms, of "264 + n"] by (intro image_eqI [of _ _ "264 + n"]) simp_all
qed (use owns_frame [OF assms] in auto)

lemma owns_cong:
  "owns m PT fs \<Longrightarrow> (\<And>p. p \<in> {264..<284} \<Longrightarrow> pt_entry m' PT p = pt_entry m PT p) \<Longrightarrow> owns m' PT fs"
  by (simp add: owns_def)

lemma owns_data_pages_ok:
  "owns m PT fs \<Longrightarrow> set fs \<inter> avail m = {} \<Longrightarrow> data_pages_ok m PT"
  using owns_frame [of m PT fs] unfolding data_pages_ok_def by fastforce

lemma forked_owns:
  assumes "forked m m' P C" and "20 \<le> card (avail m)" and "avail m \<subseteq> returnable"
  shows "owns m' C (next_frames 20 m)"
  using assms next_frames_props [OF assms(2)] by (auto simp: owns_def forked_def)

section \<open>The call\<close>

lemma exit_free_undo: "exit_free_page = fork_undo_page"
  by (simp add: fun_eq_iff exit_free_page_def fork_undo_page_def)

lemma exit_release_effect:
  assumes qs: "queues L k Q" and fq: "Q (freequeue L) = Some F" and on: "on_stack k A 40"
    and A: "A = task_at L j" "j < 10" "A \<notin> queued Q" and rows: "table_rows L (mm k)"
    and dir: "dir_pages_baseAddr (tasks k A) = dir_row L j" and own: "owns (mm k) (pt_row L j) fs"
  defines "k' \<equiv> exit_release L k"
  shows "queues L k' (Q(freequeue L \<mapsto> F @ [A]))" and "avail (mm k') = avail (mm k) \<union> set fs"
    and "page_aligned PT \<Longrightarrow> p < 1024 \<Longrightarrow> pt_entry (mm k') PT p =
      (if PT = pt_row L j \<and> p \<in> {264..<284} then 0 else pt_entry (mm k) PT p)"
    and "ram (mm k') = ram (mm k)" and "cr0 (mm k') = cr0 (mm k)"
    and "tasks k' x = (if x = A then (tasks k A)\<lparr>PID := -1\<rparr> else tasks k x)"
    and "cpu k' = cpu k" and "stack k' = stack k" and "idle_task k' = idle_task k"
    and "global_PID k' = global_PID k" and "tty k' = tty k" and "zeos_ticks k' = zeos_ticks k"
proof -
  have l: "layout_ok L"
    using qs by (simp add: queues_def)
  have cur: "current k'' = A" if "cpu k'' = cpu k" for k''
    using current_on_stack [OF on] that by (simp add: current_def)
  let ?m = "fold (exit_free_page (pt_row L j)) [0..<20] (mm k)"
  have k': "k' = upd_task A (PID_update (\<lambda>_. -1))
      (upd_lists (list_add_tail (list_of A) (freequeue L)) (upd_mm (\<lambda>_. ?m) k))"
    using get_PT_row [OF rows A(2) dir]
    by (simp add: k'_def exit_release_def Let_def cur upd_mm_def upd_lists_def upd_task_def)
  have "20 \<le> (20 :: nat)" "length fs = 20" "set fs \<subseteq> returnable"
    "\<And>i. i < 20 \<Longrightarrow> pt_entry (mm k) (pt_row L j) (264 + i) = ss_entry (of_nat (fs ! i))"
    using own by (simp_all add: owns_def)
  note u = fork_undo_pages [OF pt_row_aligned [OF l A(2)] this, folded exit_free_undo]
  have "queues L (upd_lists (list_add_tail (list_of A) (freequeue L)) k) (Q(freequeue L \<mapsto> F @ [A]))"
    using queues_enq [OF qs fq _ A(3)] A(1,2) by (simp add: task_set_def)
  then show "queues L k' (Q(freequeue L \<mapsto> F @ [A]))"
    by (simp add: k' queues_def)
  show "pt_entry (mm k') PT p = (if PT = pt_row L j \<and> p \<in> {264..<284} then 0 else pt_entry (mm k) PT p)"
    if "page_aligned PT" "p < 1024"
    using u(5) [of PT p] that by (simp add: k')
  show "avail (mm k') = avail (mm k) \<union> set fs" "ram (mm k') = ram (mm k)" "cr0 (mm k') = cr0 (mm k)"
    using u(1,2,4) by (simp_all add: k')
  show "tasks k' x = (if x = A then (tasks k A)\<lparr>PID := -1\<rparr> else tasks k x)" "cpu k' = cpu k"
    "stack k' = stack k" "idle_task k' = idle_task k" "global_PID k' = global_PID k" "tty k' = tty k"
    "zeos_ticks k' = zeos_ticks k"
    by (simp_all add: k')
qed

end
