(* ===== verification/Space.thy ===== *)
theory Space
  imports BootSpec Exit
begin

text \<open>
  The address space of a process as the kernel keeps it: kernel pages mapped to the frame of
  the same number, eight shared code pages, twenty data pages of its own, nothing above.  The
  boot sequence builds it for the first process and \<^verbatim>\<open>sys_fork\<close> for each child.
\<close>

section \<open>Writing a run of entries\<close>

lemma pt_entry_pte_write:
  "page_aligned PT \<Longrightarrow> page_aligned PT' \<Longrightarrow> p < 1024 \<Longrightarrow> p' < 1024 \<Longrightarrow>
   pt_entry (pte_write (dword_at PT p) f m) PT' p' =
     (if PT' = PT \<and> p' = p then f (pt_entry m PT p) else pt_entry m PT' p')"
  by (auto simp: pt_entry_def page_slot_inj)

lemma pt_entry_write_loop:
  assumes "page_aligned PT" "page_aligned PT'" "a \<le> b" "b \<le> 1024" "p < 1024"
  shows "pt_entry (fold (\<lambda>i. pte_write (dword_at PT i) (h i)) [a..<b] m) PT' p =
    (if PT' = PT \<and> a \<le> p \<and> p < b then h p (pt_entry m PT p) else pt_entry m PT' p)"
  using assms(3,4)
proof (induction b)
  case (Suc b)
  show ?case
  proof (cases "a = Suc b")
    case False
    with Suc have ab: "a \<le> b" "b < 1024"
      by auto
    then have "[a..<Suc b] = [a..<b] @ [b]"
      by simp
    then show ?thesis
      using Suc.IH ab assms(1,2,5)
      by (auto simp: pt_entry_pte_write less_Suc_eq simp del: upt_Suc)
  qed auto
qed auto

section \<open>The kernel part of the tables\<close>

definition kernel_entry :: "nat \<Rightarrow> page_table_entry" where
  "kernel_entry i = set_present 1 (set_rw 1 (set_pbase_addr (of_nat i) 0))"

text \<open>The guard pages before and after the task array.\<close>

definition guard_page :: "layout \<Rightarrow> nat \<Rightarrow> bool" where
  "guard_page L p \<longleftrightarrow> p = unat (protected_tasks L) div 4096 \<or>
     p = unat (protected_tasks L) div 4096 + 11"

lemma guard_pages:
  assumes "layout_ok L"
  shows "unat (PH_PAGE (protected_tasks L)) = unat (protected_tasks L) div 4096"
    and "unat (PH_PAGE (protected_tasks L + 4096 * 11)) = unat (protected_tasks L) div 4096 + 11"
    and "guard_page L p \<Longrightarrow> p < 256"
proof -
  have b: "unat (protected_tasks L) + 12 * 4096 < 0x100000"
    by (rule layout_task_bound [OF assms])
  show "unat (PH_PAGE (protected_tasks L)) = unat (protected_tasks L) div 4096"
    by (simp add: PH_PAGE_def unat_page)
  have "unat (protected_tasks L + of_nat 45056) = unat (protected_tasks L) + 45056"
    by (rule unat_add_small) (use b in simp)
  then have "unat (protected_tasks L + 45056) = unat (protected_tasks L) + 11 * 4096"
    by simp
  then show "unat (PH_PAGE (protected_tasks L + 4096 * 11)) = unat (protected_tasks L) div 4096 + 11"
    by (simp add: PH_PAGE_def unat_page)
  show "guard_page L p \<Longrightarrow> p < 256"
    using b by (auto simp: guard_page_def)
qed

lemma init_kernel_page_eq:
  "init_kernel_page L j i m = pte_write (dword_at (pt_row L j) i)
     (\<lambda>e. set_present 1 (set_rw 1 (set_pbase_addr (of_nat i) e))) m"
  by (rule mm_state_eqI) (simp_all add: init_kernel_page_def Let_def)

definition boot_entry :: "layout \<Rightarrow> nat \<Rightarrow> page_table_entry" where
  "boot_entry L p = (let e = if 1 \<le> p \<and> p < 256 then kernel_entry p else 0
     in if guard_page L p then set_present 0 e else e)"

lemma pt_entry_init_table:
  assumes l: "layout_ok L" and j: "j < 10" and PT: "page_aligned PT" and p: "p < 1024"
  shows "pt_entry (init_table L j m) PT p = (if PT = pt_row L j then boot_entry L p else pt_entry m PT p)"
proof -
  note al = pt_row_aligned [OF l j] and g = guard_pages [OF l]
  let ?g = "unat (protected_tasks L) div 4096"
  have gb: "?g < 1024" "?g + 11 < 1024"
    using g(3) [of ?g] g(3) [of "?g + 11"] by (simp_all add: guard_page_def)
  let ?m1 = "fold (\<lambda>i. pte_write (dword_at (pt_row L j) i) (\<lambda>_. 0)) [0..<1024] m"
  let ?m2 = "fold (init_kernel_page L j) [1..<256] ?m1"
  have e1: "pt_entry ?m1 PT p = (if PT = pt_row L j then 0 else pt_entry m PT p)"
    if "page_aligned PT" "p < 1024" for PT p
    using pt_entry_write_loop [OF al that(1) _ _ that(2), of 0 1024 "\<lambda>_ _. 0" m] that(2) by simp
  have e2: "pt_entry ?m2 PT p = (if PT = pt_row L j
      then (if 1 \<le> p \<and> p < 256 then kernel_entry p else 0) else pt_entry m PT p)"
    if "page_aligned PT" "p < 1024" for PT p
    using pt_entry_write_loop [OF al that(1) _ _ that(2), of 1 256
        "\<lambda>i e. set_present 1 (set_rw 1 (set_pbase_addr (of_nat i) e))" ?m1]
      e1 [OF that] e1 [OF al that(2)]
    by (simp add: init_kernel_page_eq [abs_def] kernel_entry_def del: upt_rec_numeral)
  have "init_table L j m = pte_write (dword_at (pt_row L j) (?g + 11)) (set_present 0)
      (pte_write (dword_at (pt_row L j) ?g) (set_present 0) ?m2)"
    using g(1,2) by (simp add: init_table_def protect_page_def Let_def del: upt_rec_numeral)
  then show ?thesis
    using al PT p gb e2
    by (auto simp: pt_entry_pte_write boot_entry_def guard_page_def Let_def simp del: upt_rec_numeral)
qed

lemma pt_entry_init_table_pages:
  assumes l: "layout_ok L" and j: "j < 10" and p: "p < 1024"
  shows "pt_entry (init_table_pages L m) (pt_row L j) p = boot_entry L p"
proof -
  have "pt_entry (fold (init_table L) [0..<n] m) (pt_row L j) p = boot_entry L p" if "j < n" "n \<le> 10" for n
    using that
  proof (induction n)
    case (Suc n)
    then show ?case
      using pt_entry_init_table [OF l _ pt_row_aligned [OF l j] p, of n] pt_row_inj [OF l j, of n]
      by (auto simp: less_Suc_eq)
  qed simp
  from this [of 10] show ?thesis
    using j by (simp add: init_table_pages_def)
qed

lemma pt_entry_boot_mm:
  assumes l: "layout_ok L" and j: "j < 10" and p: "p < 1024"
  shows "pt_entry (mm (boot_mm L k)) (pt_row L j) p = boot_entry L p"
proof -
  have d: "pt_entry (fold (init_dir_entry L) [0..<n] m) (pt_row L j) p = pt_entry m (pt_row L j) p"
    if "n \<le> 10" for n m
    using that
  proof (induction n)
    case (Suc n)
    have "dir_row L n = dword_at (dir_row L n) 0"
      by simp
    then show ?case
      using Suc pt_entry_pte_write [OF dir_row_aligned [OF l, of n] pt_row_aligned [OF l j] _ p, of 0]
        dir_row_not_pt_row [OF l _ j, of n]
      by (simp add: init_dir_entry_eq)
  qed simp
  have same: "pt_entry (set_pe_flag (set_cr3 D m)) = pt_entry m" for D m
    by (simp add: pt_entry_def set_pe_flag_def set_cr3_def fun_eq_iff)
  show ?thesis
    using d [of 10 "init_frames (init_table_pages L (mm k))"] pt_entry_init_table_pages [OF l j p]
    by (simp add: boot_mm_def init_mm_def Let_def case_prod_beta same init_dir_pages_def)
qed

section \<open>The whole space\<close>

text \<open>
  \<open>good_space L m PT code fs\<close>: through the table \<open>PT\<close> the kernel pages but the guards (and page
  0) are the frames of their number, the code pages are the frames \<open>code\<close>, the data pages the
  frames \<open>fs\<close>, and no page above is mapped.
\<close>

definition kernel_page :: "layout \<Rightarrow> nat \<Rightarrow> bool" where
  "kernel_page L p \<longleftrightarrow> 1 \<le> p \<and> p < 256 \<and> \<not> guard_page L p"

definition good_space :: "layout \<Rightarrow> mm_state \<Rightarrow> addr \<Rightarrow> nat list \<Rightarrow> nat list \<Rightarrow> bool" where
  "good_space L m PT code fs \<longleftrightarrow> owns m PT fs \<and>
     (\<forall>p < 256. frame_of m PT p = p \<and> (kernel_page L p \<longrightarrow> pte_present (pt_entry m PT p) = 1)) \<and>
     (\<forall>p < 8. pte_present (pt_entry m PT (256 + p)) = 1 \<and> frame_of m PT (256 + p) = code ! p) \<and>
     (\<forall>p \<in> {284..<1024}. pt_entry m PT p = 0)"

lemma good_space_owns: "good_space L m PT code fs \<Longrightarrow> owns m PT fs"
  by (simp add: good_space_def)

lemma good_space_cong:
  assumes "good_space L m PT code fs" and "\<And>p. p < 1024 \<Longrightarrow> pt_entry m' PT p = pt_entry m PT p"
  shows "good_space L m' PT code fs"
proof -
  have "frame_of m' PT p = frame_of m PT p" if "p < 1024" for p
    using assms(2) [OF that] by (simp add: frame_of_def get_frame_entry)
  then show ?thesis
    using assms by (simp add: good_space_def owns_def)
qed

lemma boot_entry_fields:
  assumes "p < 256"
  shows "unat (pte_pbase_addr (boot_entry L p)) = p" and "kernel_page L p \<Longrightarrow> pte_present (boot_entry L p) = 1"
  using assms unat_frame [of p]
  by (auto simp: boot_entry_def kernel_entry_def kernel_page_def Let_def)

lemma user_pages_space:
  assumes l: "layout_ok L" and al: "page_aligned PT" and en: "28 \<le> card (avail m)" and ret: "avail m - {Min (avail m)} \<subseteq> returnable"
    and ent: "\<And>p. p < 1024 \<Longrightarrow> pt_entry m PT p = boot_entry L p"
  defines "m' \<equiv> user_pages PT m" and "code \<equiv> next_frames 8 m"
  shows "\<exists>fs. good_space L m' PT code fs \<and> set fs \<inter> avail m' = {} \<and> set code \<inter> (set fs \<union> avail m') = {}"
proof -
  define m1 where "m1 = fold (\<lambda>k. take_page code_entry PT (256 + k)) [0..<8] m"
  have m': "m' = fold (\<lambda>k. take_page ss_entry PT (264 + k)) [0..<20] m1"
    by (simp only: m'_def user_pages_def m1_def)
  have b: "256 + 8 \<le> (1024 :: nat)" "264 + 20 \<le> (1024 :: nat)" and c8: "8 \<le> card (avail m)"
    using en by auto
  note t1 = take_pages [OF al b(1) c8, where E = code_entry, folded m1_def code_def]
  note n8 = next_frames_props [OF c8, folded code_def]
  have "card (avail m1) = card (avail m) - 8"
    using n8 by (simp add: t1(1) card_Diff_subset distinct_card)
  then have c20: "20 \<le> card (avail m1)"
    using en by simp
  note t2 = take_pages [OF al b(2) c20, where E = ss_entry, folded m']
  let ?fs = "next_frames 20 m1"
  note n20 = next_frames_props [OF c20]
  have "avail m \<noteq> {}"
    using en by auto
  then have "Min (avail m) \<in> set code"
    using next_frames_Suc [of m 7] by (simp add: code_def)
  then have "set ?fs \<subseteq> returnable"
    using n20(3) t1(1) ret by auto
  moreover have e: "pt_entry m' PT p = (if 264 \<le> p \<and> p < 284 then ss_entry (of_nat (?fs ! (p - 264)))
      else if 256 \<le> p \<and> p < 264 then code_entry (of_nat (code ! (p - 256))) else boot_entry L p)"
    if "p < 1024" for p
    using t2(5) [OF al that] t1(5) [OF al that] ent [OF that] by simp
  ultimately have own: "owns m' PT ?fs"
    using n20(1,2) by (simp add: owns_def)
  have low: "frame_of m' PT p = p" "kernel_page L p \<Longrightarrow> pte_present (pt_entry m' PT p) = 1" if "p < 256" for p
    using e [of p] boot_entry_fields [OF that, of L] that by (simp_all add: frame_of_def get_frame_entry)
  have cd: "pte_present (pt_entry m' PT (256 + p)) = 1" "frame_of m' PT (256 + p) = code ! p" if "p < 8" for p
  proof -
    have "code ! p \<in> avail m"
      using n8 that nth_mem [of p code] by auto
    then have "code ! p < 1024"
      by (simp add: avail_def)
    then show "pte_present (pt_entry m' PT (256 + p)) = 1" "frame_of m' PT (256 + p) = code ! p"
      using e [of "256 + p"] that by (simp_all add: frame_of_def get_frame_entry unat_frame)
  qed
  have "pt_entry m' PT p = 0" if "p \<in> {284..<1024}" for p
    using e [of p] that guard_pages(3) [OF l, of p] by (auto simp: boot_entry_def)
  then have "good_space L m' PT code ?fs"
    using own low cd by (simp add: good_space_def)
  moreover have "set ?fs \<inter> avail m' = {}" "set code \<inter> (set ?fs \<union> avail m') = {}"
    using t2(1) t1(1) n20(3) by auto
  ultimately show ?thesis
    by blast
qed

text \<open>The child of a fork has such a space too, with the same code pages.\<close>

lemma ss_entry_frame: "unat (pte_pbase_addr (ss_entry (get_frame PT p m))) = frame_of m PT p"
  using get_frame_bound [of PT p m]
  by (simp add: frame_of_def flip: take_bit_eq_mask)
    (simp add: unsigned_take_bit_eq take_bit_nat_eq_self)

lemma forked_spaces:
  assumes fk: "forked m m' P C" and en: "20 \<le> card (avail m)" and ret: "avail m \<subseteq> returnable"
    and P: "good_space L m P code fs" "page_aligned P" "P \<noteq> C"
    and C: "\<And>p. p \<in> {284..<1024} \<Longrightarrow> pt_entry m C p = 0"
  shows "good_space L m' C code (next_frames 20 m)" and "good_space L m' P code fs"
    and "page_aligned PT \<Longrightarrow> PT \<noteq> C \<Longrightarrow> p < 1024 \<Longrightarrow> pt_entry m' PT p = pt_entry m PT p"
proof -
  have e: "pt_entry m' PT p = pt_entry m PT p" if "page_aligned PT" "PT \<noteq> C" "p < 1024" for PT p
    using fk P that unfolding forked_def good_space_def by auto
  then show "page_aligned PT \<Longrightarrow> PT \<noteq> C \<Longrightarrow> p < 1024 \<Longrightarrow> pt_entry m' PT p = pt_entry m PT p" .
  show "good_space L m' P code fs"
    by (rule good_space_cong [OF P(1) e [OF P(2,3)]])
  have low: "pt_entry m' C p = ss_entry (get_frame P p m)" if "p < 264" for p
    using fk that by (simp add: forked_def)
  have fr: "frame_of m' C p = frame_of m P p" if "p < 264" for p
    by (simp only: frame_of_def [of m' C p] get_frame_entry [of C] low [OF that] ss_entry_frame)
  have "pt_entry m' C p = 0" if "p \<in> {284..<1024}" for p
    using fk C [OF that] that by (simp add: forked_def)
  then show "good_space L m' C code (next_frames 20 m)"
    using forked_owns [OF fk en ret] P(1) fr low by (simp add: good_space_def)
qed

end
