(* ===== verification/Booted.thy ===== *)
theory Booted
  imports Space
begin

text \<open>
  The state the boot sequence reaches: queues, task structures, frames and the address space
  of the first process.
\<close>

section \<open>The state before user mode\<close>

text \<open>
  What the binary libraries may do during boot: the policy is recorded in its own function
  pointers, and the console set-up touches the console and list nodes of its own.
\<close>

definition quiet_boot :: "layout \<Rightarrow> externals \<Rightarrow> bool" where
  "quiet_boot L E \<longleftrightarrow> (\<forall>k. ext_init_sched_policy E k = k) \<and>
     (\<forall>k. \<exists>h c. ext_console_init E k = k\<lparr>lists := h, tty := c\<rparr> \<and>
        (\<forall>n \<in> {freequeue L, readyqueue L} \<union> list_of ` task_set L. h n = lists k n))"

lemma init_mm_facts:
  fixes t :: task_struct and m :: mm_state
  assumes "layout_ok L"
  defines "m' \<equiv> snd (init_mm L t m)"
  shows "table_rows L m'" and "avail m' = {f. 256 \<le> f \<and> f < 1024 \<and> even f}" and "bit (cr0 m') 31"
    and "cr3 m' = dir_row L 0"
    and "fst (init_mm L t m) = t\<lparr>dir_pages_baseAddr := dir_row L 0\<rparr>"
proof -
  let ?m = "init_frames (init_table_pages L m)"
  have m': "m' = set_pe_flag (set_cr3 (dir_row L 0) (init_dir_pages L ?m))"
    using allocate_DIR_task [OF assms(1), of 0 t]
    by (simp add: m'_def init_mm_def Let_def case_prod_beta get_DIR_def dir_row_def)
  have "phys_mem (fold (init_dir_entry L) is x) = phys_mem x" for "is" x
    by (induction "is" arbitrary: x) (simp_all add: init_dir_entry_eq)
  then have "avail (init_dir_pages L ?m) = avail ?m"
    by (intro avail_phys_cong) (simp only: init_dir_pages_def)
  moreover have "avail m' = avail (init_dir_pages L ?m)"
    unfolding m' by (rule avail_phys_cong) (simp add: set_pe_flag_def set_cr3_def)
  ultimately show "avail m' = {f. 256 \<le> f \<and> f < 1024 \<and> even f}"
    by (simp add: init_frames_avail)
  have "pt_entry m' = pt_entry (init_dir_pages L ?m)"
    by (simp add: m' pt_entry_def set_pe_flag_def set_cr3_def fun_eq_iff)
  then show "table_rows L m'"
    using init_dir_pages_rows [OF assms(1), of ?m] by (simp add: table_rows_def)
  show "bit (cr0 m') 31"
    by (simp add: m' set_pe_flag_def bit_or_iff)
  show "cr3 m' = dir_row L 0"
    by (simp add: m' set_pe_flag_def set_cr3_def)
  show "fst (init_mm L t m) = t\<lparr>dir_pages_baseAddr := dir_row L 0\<rparr>"
    using allocate_DIR_task [OF assms(1), of 0 t]
    by (simp add: init_mm_def Let_def case_prod_beta dir_row_def)
qed

text \<open>
  Tasks 0 and 1 are taken, the others are free, and task 1 runs in a space of its own, whose
  code pages are the first eight frames \<^verbatim>\<open>alloc_frame\<close> hands out.
\<close>

definition boot_code :: "nat list" where
  "boot_code = map (\<lambda>i. 256 + 2 * i) [0..<8]"

definition booted :: "layout \<Rightarrow> kernel \<Rightarrow> bool" where
  "booted L k \<longleftrightarrow>
     queues L k [freequeue L \<mapsto> map (task_at L) [2..<10], readyqueue L \<mapsto> []] \<and> running L k 1 \<and>
     idle_task k = task_at L 0 \<and> state (tasks k (task_at L 1)) = ST_RUN \<and>
     PID (tasks k (task_at L 0)) = 0 \<and> PID (tasks k (task_at L 1)) = 1 \<and>
     (\<forall>i. 2 \<le> i \<longrightarrow> i < 10 \<longrightarrow> PID (tasks k (task_at L i)) = -1) \<and>
     total_quantum (tasks k (task_at L 1)) = 10 \<and> remaining_quantum k = 10 \<and>
     tss_esp0 (tss k) = task_at L 2 \<and> card (avail (mm k)) = 356 \<and> avail (mm k) \<subseteq> returnable \<and>
     dir_pages_baseAddr (tasks k (task_at L 0)) = dir_row L 0 \<and> total_quantum (tasks k (task_at L 0)) = 10 \<and>
     (\<exists>fs. good_space L (mm k) (pt_row L 1) boot_code fs \<and> set fs \<inter> avail (mm k) = {} \<and>
        set boot_code \<inter> (set fs \<union> avail (mm k)) = {}) \<and>
     (\<forall>j < 10. \<forall>p \<in> {284..<1024}. pt_entry (mm k) (pt_row L j) p = 0)"

lemma all_tasks_split: "all_tasks L = task_at L 0 # task_at L 1 # map (task_at L) [2..<10]"
proof -
  have "[0..<10] = 0 # 1 # [2..<10 :: nat]"
    by (simp add: upt_rec [of 0] upt_rec [of "Suc 0"] numeral_2_eq_2 del: upt_rec_numeral)
  then show ?thesis
    by (simp only: all_tasks_def list.map)
qed

lemma task_at_Suc: "task_at L (Suc i) = task_at L i + 4096"
  by (simp add: task_at_def algebra_simps)

lemma task_row:
  assumes "layout_ok L" "i < 10"
  shows "dir_pages L + 4096 * ((task_at L i - task_array L) div 4096) = dir_row L i"
  using arg_cong [OF allocate_DIR_task [OF assms], of "\<lambda>x. dir_pages_baseAddr (snd x)"]
  by (simp add: allocate_DIR_def Let_def dir_row_def)

lemma boot_mm_facts:
  fixes k :: kernel
  assumes "layout_ok L"
  defines "k' \<equiv> boot_mm L k"
  shows "table_rows L (mm k')" and "avail (mm k') = {f. 256 \<le> f \<and> f < 1024 \<and> even f}"
    and "bit (cr0 (mm k')) 31" and "cpu k' = cpu k"
  using init_mm_facts [OF assms(1), where t = "tasks k (task_at L 0)" and m = "mm k"]
  by (simp_all add: k'_def boot_mm_def Let_def case_prod_beta)

lemma init_sched_simps:
  assumes "\<And>k. p k = k"
  shows "mm (init_sched L p k) = mm k" "cpu (init_sched L p k) = cpu k"
    and "PID (tasks (init_sched L p k) t) = (if t \<in> task_set L then -1 else PID (tasks k t))"
  using assms
  by (simp_all add: init_sched_def init_freequeue_def Let_def init_free_tasks_PID task_set_def
      atLeast0LessThan del: upt_rec_numeral)

lemma init_task1_mm: "mm (init_task1 L k) =
  (let c = list_head_to_task_struct (list_first (freequeue L) (lists k)); t = tasks (init_task1 L k) c
   in set_cr3 (dir_pages_baseAddr t) (set_user_pages t (mm k)))"
  by (simp add: init_task1_def Let_def)

lemma boot_tasks_booted:
  assumes l: "layout_ok L" and quiet: "quiet_boot L E"
  shows "booted L (boot_tasks L E (boot_mm L k))"
proof -
  let ?k0 = "boot_mm L k"
  define k1 where "k1 = init_sched L (ext_init_sched_policy E) ?k0"
  define k2 where "k2 = init_idle L k1"
  define k3 where "k3 = init_task1 L k2"
  have pol: "ext_init_sched_policy E x = x" for x
    using quiet by (simp add: quiet_boot_def)
  have fr: "freequeue L \<noteq> readyqueue L"
    using l by (simp add: layout_ok_def)
  let ?t0 = "task_at L 0" and ?t1 = "task_at L 1" and ?F = "map (task_at L) [2..<10]"
  let ?Q1 = "[freequeue L \<mapsto> ?t0 # ?t1 # ?F, readyqueue L \<mapsto> []]"
  have q1: "queues L k1 ?Q1"
    unfolding k1_def using init_sched_queues [OF l pol] by (simp add: all_tasks_split)
  have f1: "?Q1 (freequeue L) = Some (?t0 # ?t1 # ?F)"
    using fr by simp
  note e2 = init_idle_effect [OF q1 f1, folded k2_def]
  have Q2: "?Q1(freequeue L \<mapsto> ?t1 # ?F) = [freequeue L \<mapsto> ?t1 # ?F, readyqueue L \<mapsto> []]"
    using fr by (simp add: fun_upd_twist)
  note q2 = e2(1) [unfolded Q2]
  have f2: "[freequeue L \<mapsto> ?t1 # ?F, readyqueue L \<mapsto> []] (freequeue L) = Some (?t1 # ?F)"
    using fr by simp
  note e3 = init_task1_effect [OF q2 f2, folded k3_def]
  have Q3: "[freequeue L \<mapsto> ?t1 # ?F, readyqueue L \<mapsto> []](freequeue L \<mapsto> ?F)
      = [freequeue L \<mapsto> ?F, readyqueue L \<mapsto> []]"
    using fr by (simp add: fun_upd_twist)
  have d: "task_at L i = task_at L j \<longleftrightarrow> i = j" if "i < 10" "j < 10" for i j
    using task_at_inj [OF l, of i j] that by simp
  have dir: "dir_pages_baseAddr (tasks k3 ?t1) = dir_row L 1"
    using e3(6) [of ?t1] task_row [OF l, of 1] by simp
  have mm2: "mm k2 = mm ?k0"
    using e2(7) by (simp add: k1_def init_sched_simps [OF pol])
  note b = boot_mm_facts [OF l, of k]
  have front: "list_head_to_task_struct (list_first (freequeue L) (lists k2)) = ?t1"
    by (rule queues_front(2) [OF q2 f2])
  have PT: "get_PT (tasks k3 ?t1) (pte (mm k2)) = pt_row L 1"
    unfolding mm2 by (rule get_PT_row [OF b(1) _ dir]) simp
  have al: "page_aligned (pt_row L 1)"
    by (rule pt_row_aligned [OF l]) simp
  have card: "card (avail (mm k2)) = 384"
    by (simp add: mm2 b(2) card_even_frames)
  have mm3: "mm k3 = set_cr3 (dir_row L 1) (user_pages (pt_row L 1) (mm k2))"
    using init_task1_mm [of L k2] set_user_pages_take [of "tasks k3 ?t1" "mm k2"] PT al card
    by (simp add: front dir [unfolded One_nat_def] Let_def flip: k3_def)
  have "28 \<le> card (avail (mm k2))"
    by (simp add: card)
  note u = user_pages_facts [OF al this]
  have same: "pt_entry (set_cr3 D m) = pt_entry m" "avail (set_cr3 D m) = avail m"
    "cr0 (set_cr3 D m) = cr0 m" "cr3 (set_cr3 D m) = D" for D m
    by (simp_all add: pt_entry_def set_cr3_def avail_def fun_eq_iff)
  have "data_pages_ok (mm k3) (pt_row L 1)"
    using u(3) by (simp add: mm3 data_pages_ok_def same frame_of_def get_frame_entry)
  moreover have "table_rows L (mm k3)"
  proof (rule table_rows_cong [OF b(1)])
    fix i :: nat
    assume i: "i < 10"
    show "pt_entry (mm k3) (dir_row L i) 0 = pt_entry (mm ?k0) (dir_row L i) 0"
      using u(7) [OF dir_row_aligned [OF l i], of 0] dir_row_not_pt_row [OF l i, of 1] mm2
      by (simp add: mm3 same)
  qed
  ultimately have run: "running L k3 1"
    using l dir u(6) b(3) mm2 by (simp add: running_def mm3 same)
  have av: "card (avail (mm k3)) = 356"
    using u(1) card by (simp add: mm3 same)
  have min256: "Min {f :: nat. 256 \<le> f \<and> f < 1024 \<and> even f} = 256"
    by (rule Min_eqI) (auto intro: finite_subset [of _ "{..<1024}"])
  then have ret: "avail (mm k3) \<subseteq> returnable"
    using u(2) by (auto simp: mm3 same mm2 b(2) returnable_def)
  have ent: "pt_entry (mm k2) (pt_row L j) p = boot_entry L p" if "j < 10" "p < 1024" for j p
    unfolding mm2 by (rule pt_entry_boot_mm [OF l that])
  have nf: "next_frames 8 (mm k2) = boot_code"
    by (simp add: next_frames_def mm2 b(2) sorted_even_frames boot_code_def take_map del: upt_rec_numeral)
  have "\<exists>fs. good_space L (user_pages (pt_row L 1) (mm k2)) (pt_row L 1) (next_frames 8 (mm k2)) fs \<and>
      set fs \<inter> avail (user_pages (pt_row L 1) (mm k2)) = {} \<and>
      set (next_frames 8 (mm k2)) \<inter> (set fs \<union> avail (user_pages (pt_row L 1) (mm k2))) = {}"
  proof (rule user_pages_space [OF l al \<open>28 \<le> card (avail (mm k2))\<close>])
    show "avail (mm k2) - {Min (avail (mm k2))} \<subseteq> returnable"
      unfolding mm2 b(2) min256 by (auto simp: returnable_def)
  qed (simp add: ent)
  then obtain fs where fs: "good_space L (user_pages (pt_row L 1) (mm k2)) (pt_row L 1) boot_code fs"
      "set fs \<inter> avail (mm k3) = {}" "set boot_code \<inter> (set fs \<union> avail (mm k3)) = {}"
    by (auto simp: mm3 same nf)
  have gs: "good_space L (mm k3) (pt_row L 1) boot_code fs"
    by (rule good_space_cong [OF fs(1)]) (simp add: mm3 same)
  have top: "pt_entry (mm k3) (pt_row L j) p = 0" if "j < 10" "p \<in> {284..<1024}" for j p
  proof (cases "j = 1")
    case True
    then show ?thesis
      using gs that(2) by (simp add: good_space_def)
  next
    case False
    have "\<not> guard_page L p"
      using guard_pages(3) [OF l, of p] that(2) by auto
    then have "pt_entry (mm k2) (pt_row L j) p = 0"
      using ent [OF that(1), of p] that(2) by (auto simp: boot_entry_def)
    then show ?thesis
      using u(7) [OF pt_row_aligned [OF l that(1)], of p] that pt_row_inj [OF l that(1), of 1] False
      by (simp add: mm3 same)
  qed
  have d0: "dir_pages_baseAddr (tasks k3 (task_at L 0)) = dir_row L 0"
    "total_quantum (tasks k3 (task_at L 0)) = 10"
    using e3(4,6) [of ?t0] e2(4,6) [of ?t0] task_row [OF l, of 0] d [of 0 1] by simp_all
  have pid: "PID (tasks k3 (task_at L i)) = (if i = 0 then 0 else if i = 1 then 1 else -1)" if "i < 10" for i
    using e2(3) [of "task_at L i"] e3(3) [of "task_at L i"] that d [of i 0] d [of i 1]
    by (auto simp: k1_def init_sched_simps [OF pol] task_set_def)
  have t2: "tss_esp0 (tss k3) = task_at L 2"
    using e3(10) task_at_Suc [of L 1] by (simp add: numeral_2_eq_2)
  note q3 = e3(1) [unfolded Q3]
  have k3: "booted L k3"
    unfolding booted_def
    using e3(2,4,5,7) e2(2) run av ret pid t2 d0 gs fs(2,3) top by (intro conjI q3) auto
  obtain h c where con: "ext_console_init E k3 = k3\<lparr>lists := h, tty := c\<rparr>"
    and keep: "\<And>n. n \<in> {freequeue L, readyqueue L} \<union> list_of ` task_set L \<Longrightarrow> h n = lists k3 n"
    using quiet unfolding quiet_boot_def by meson
  have bt: "boot_tasks L E ?k0 = k3\<lparr>lists := h, tty := c\<rparr>"
    by (simp add: boot_tasks_def Let_def con flip: k1_def k2_def k3_def)
  have "queues L (k3\<lparr>lists := h, tty := c\<rparr>) [freequeue L \<mapsto> ?F, readyqueue L \<mapsto> []]"
  proof -
    let ?N = "nodes [freequeue L \<mapsto> ?F, readyqueue L \<mapsto> []]"
    have f: "family cdl (lists k3) ?N"
      using q3 by (simp only: queues_def)
    have "n \<in> {freequeue L, readyqueue L} \<union> list_of ` task_set L" if "?N q = Some xs" "n \<in> set (q # xs)" for q xs n
      using that fr by (auto simp: nodes_upd task_set_def split: if_splits)
    then have "cdl h q xs" if "?N q = Some xs" for q xs
      using that keep by (intro cdl_cong [OF family_repr [OF f that]]) blast
    then have "family cdl h ?N"
      using f unfolding family_def by simp
    then show ?thesis
      using q3 by (simp add: queues_def)
  qed
  then show ?thesis
    using k3 by (simp add: bt booted_def running_def)
qed

text \<open>The boot sequence leaves the PID counter at its initial value.\<close>

lemma boot_tasks_global_PID:
  assumes "quiet_boot L E"
  shows "global_PID (boot_tasks L E (boot_mm L k)) = global_PID k"
proof -
  have pol: "ext_init_sched_policy E x = x" for x
    using assms by (simp add: quiet_boot_def)
  have con: "global_PID (ext_console_init E x) = global_PID x" for x
  proof -
    obtain h c where "ext_console_init E x = x\<lparr>lists := h, tty := c\<rparr>"
      using assms unfolding quiet_boot_def by meson
    then show ?thesis by simp
  qed
  have "global_PID (fold (init_free_task L) is x) = global_PID x" for "is" x
    by (induction "is" arbitrary: x) (simp_all add: init_free_task_def Let_def)
  then have "global_PID (init_sched L (ext_init_sched_policy E) x) = global_PID x" for x
    by (simp add: init_sched_def init_freequeue_def Let_def pol del: upt_rec_numeral)
  moreover have "global_PID (init_idle L x) = global_PID x" "global_PID (init_task1 L x) = global_PID x" for x
    by (simp_all add: init_idle_def init_task1_def Let_def)
  moreover have "global_PID (boot_mm L k) = global_PID k"
    by (simp add: boot_mm_def Let_def case_prod_beta)
  ultimately show ?thesis
    by (simp add: boot_tasks_def Let_def con)
qed

end
