(* ===== verification/Example.thy ===== *)
theory Example
  imports Booted
begin

text \<open>
  A concrete machine for the witnesses: addresses as a linker could choose them, libraries
  that do nothing, and the kernel state the boot sequence reaches from zeroed memory, with
  task 1 in the kernel at three places of its stack.
\<close>

definition ex_layout :: layout where
  "ex_layout = \<lparr>protected_tasks = 0x20000, dir_pages = 0x30000, pagusr_table = 0x40000,
     freequeue = 0x1F000, readyqueue = 0x1F010, blocked = 0x1F020, tss_addr = 0x1F100,
     cpu_idle_code = 0x11000, ret_from_fork_code = 0x11100, task_switch_ret_code = 0x11200,
     syscall_ret_code = 0x11300\<rparr>"

definition zero_stats :: stats where
  "zero_stats = fresh_stats 0 0"

definition zero_task :: task_struct where
  "zero_task = \<lparr>PID = 0, dir_pages_baseAddr = 0, register_esp = 0, state = ST_RUN,
     total_quantum = 0, p_stats = zero_stats\<rparr>"

definition zero_cpu :: cpu where
  "zero_cpu = \<lparr>esp = 0, ebp = 0, ebx = 0, esi = 0, edi = 0, eip = 0, eax = 0, ecx = 0, edx = 0,
     eflags = 0, sel_ds = 0, sel_es = 0, sel_fs = 0, sel_gs = 0\<rparr>"

definition zero_tss :: TSS where
  "zero_tss = \<lparr>tss_PreviousTaskLink = 0, tss_esp0 = 0, tss_ss0 = 0, tss_esp1 = 0, tss_ss1 = 0,
     tss_esp2 = 0, tss_ss2 = 0, tss_cr3 = 0, tss_eip = 0, tss_eFlags = 0, tss_eax = 0, tss_ecx = 0,
     tss_edx = 0, tss_ebx = 0, tss_esp = 0, tss_ebp = 0, tss_esi = 0, tss_edi = 0, tss_es = 0,
     tss_cs = 0, tss_ss = 0, tss_ds = 0, tss_fs = 0, tss_gs = 0, tss_LDTSegmentSelector = 0,
     tss_debugTrap = 0, tss_IOMapBaseAddress = 0\<rparr>"

definition zero_console :: console where
  "zero_console = \<lparr>con_x = 0, con_y = 19, video = (\<lambda>_. 0), port_e9 = []\<rparr>"

definition zero_mm :: mm_state where
  "zero_mm = \<lparr>phys_mem = (\<lambda>_. 0), pte = (\<lambda>_. 0), ram = (\<lambda>_. 0), cr3 = 0, cr0 = 0\<rparr>"

definition zero_kernel :: kernel where
  "zero_kernel = \<lparr>lists = (\<lambda>_. \<lparr>lh_next = 0, lh_prev = 0\<rparr>), tasks = (\<lambda>_. zero_task),
     stack = (\<lambda>_. 0), mm = zero_mm, tty = zero_console, cpu = zero_cpu, tss = zero_tss,
     msr = (\<lambda>_. (0, 0)), idle_task = 0, remaining_quantum = 0, global_PID = 1000, zeos_ticks = 0,
     tsc = (\<lambda>n. 109000 * of_nat n), tsc_reads = 0\<rparr>"

definition quiet_externals :: externals where
  "quiet_externals = \<lparr>ext_sys_read = (\<lambda>_ _ _ k. Inr (Some 0, k)),
     ext_set_sched_policy = (\<lambda>_ k. Inr (Some 0, k)), ext_show_clock = (\<lambda>k. k),
     ext_update_read_console = (\<lambda>k. k), ext_set_handlers = (\<lambda>s. s),
     ext_init_sched_policy = (\<lambda>k. k), ext_console_init = (\<lambda>k. k),
     ext_policy = rr_policy ex_layout, write_buffer = (\<lambda>k. current k + 1024)\<rparr>"

definition ex_kernel :: kernel where
  "ex_kernel = upd_cpu (\<lambda>c. c\<lparr>esp := task_at ex_layout 1 + 3000\<rparr>)
     (boot_tasks ex_layout quiet_externals (boot_mm ex_layout zero_kernel))"

lemma ex_layout_ok: "layout_ok ex_layout"
  by (auto simp: layout_ok_def ex_layout_def page_aligned_nat queue_head_def)

lemma ex_quiet: "quiet_boot ex_layout quiet_externals"
  unfolding quiet_boot_def
proof (intro conjI allI)
  fix k :: kernel
  show "\<exists>h c. ext_console_init quiet_externals k = k\<lparr>lists := h, tty := c\<rparr> \<and>
      (\<forall>n \<in> {freequeue ex_layout, readyqueue ex_layout} \<union> list_of ` task_set ex_layout. h n = lists k n)"
    by (rule exI [of _ "lists k"], rule exI [of _ "tty k"]) (simp add: quiet_externals_def)
qed (simp add: quiet_externals_def)

lemma ex_booted: "booted ex_layout ex_kernel"
  using boot_tasks_booted [OF ex_layout_ok ex_quiet, of zero_kernel]
  by (simp add: booted_def ex_kernel_def running_def queues_def)

lemma on_stack_at:
  assumes "layout_ok L" and "i < 10" and "m \<le> n" and "n < 4096" and "esp (cpu k) = task_at L i + of_nat n"
  shows "on_stack k (task_at L i) m"
  using assms task_at_aligned [of L i] by (simp add: on_stack_def unat_of_nat)

lemma ex_on_stack: "on_stack ex_kernel (task_at ex_layout 1) 40"
  by (rule on_stack_at [OF ex_layout_ok, of _ _ 3000]) (simp_all add: ex_kernel_def)

text \<open>In the state after boot the process may fork, and the scheduler's relation holds.\<close>

definition boot_queues :: "layout \<Rightarrow> addr \<rightharpoonup> addr list" where
  "boot_queues L = [freequeue L \<mapsto> map (task_at L) [2..<10], readyqueue L \<mapsto> []]"

lemma booted_task1_free:
  assumes "booted L k"
  shows "task_at L 1 \<notin> queued (boot_queues L)" and "task_at L 0 \<notin> queued (boot_queues L)"
proof -
  have "layout_ok L"
    using assms by (simp add: booted_def running_def)
  then have "task_at L j \<noteq> task_at L i" if "j < 2" "2 \<le> i" "i < 10" for i j
    using that task_at_inj [of L j i] by auto
  then have "task_at L j \<notin> task_at L ` {2..<10}" if "j < 2" for j
    using that by fastforce
  moreover have "queued (boot_queues L) \<subseteq> task_at L ` {2..<10}"
    by (auto simp: queued_mem boot_queues_def split: if_splits simp del: upt_rec_numeral)
  ultimately have out: "task_at L j \<notin> queued (boot_queues L)" if "j < 2" for j
    using that by blast
  show "task_at L 1 \<notin> queued (boot_queues L)" "task_at L 0 \<notin> queued (boot_queues L)"
    by (rule out, simp)+
qed

lemma booted_can_fork:
  assumes b: "booted L k" and on: "on_stack k (task_at L 1) 40"
  shows "can_fork L k (boot_queues L) 2 1 (map (task_at L) [3..<10]) []"
proof -
  have l: "layout_ok L"
    using b by (simp add: booted_def running_def)
  have "[2..<10] = 2 # [3..<10 :: nat]"
    by (simp add: upt_rec [of 2])
  then have "boot_queues L (freequeue L) = Some (task_at L 2 # map (task_at L) [3..<10])"
    using l by (simp add: boot_queues_def layout_ok_def)
  moreover have "boot_queues L (readyqueue L) = Some []"
    by (simp add: boot_queues_def)
  moreover have "queues L k (boot_queues L)" "running L k 1"
    using b by (simp_all add: booted_def boot_queues_def)
  ultimately show ?thesis
    using on booted_task1_free(1) [OF b] unfolding can_fork_def by auto
qed

lemma booted_rr_rel:
  assumes "booted L k"
  shows "rr_rel L (boot_queues L) (\<lambda>t. unat (total_quantum (tasks k t))) (task_at L 0) k (task_at L 1, [], 10)"
proof -
  have "(boot_queues L)(readyqueue L \<mapsto> []) = boot_queues L"
    by (simp add: boot_queues_def)
  moreover have "\<not> elsewhere L (boot_queues L) (task_at L i)" if "i < 2" for i
    using booted_task1_free [OF assms] that by (auto simp: elsewhere_def queued_mem less_2_cases_iff)
  moreover have "task_at L 2 = task_at L 1 + 4096"
    using task_at_Suc [of L 1] by (simp add: numeral_2_eq_2)
  ultimately show ?thesis
    using assms by (auto simp: booted_def boot_queues_def task_set_def)
qed

end
