(* ===== verification/ForkSpec.thy ===== *)
theory ForkSpec
  imports Example
begin

text \<open>
  The properties of \<^verbatim>\<open>sys_fork\<close> and of the context switch, each with an instance on the
  example machine.
\<close>

lemma ex_can_fork:
  "can_fork ex_layout ex_kernel (boot_queues ex_layout) 2 1 (map (task_at ex_layout) [3..<10]) []"
  by (rule booted_can_fork [OF ex_booted ex_on_stack])

lemma ex_frames: "20 \<le> card (avail (mm ex_kernel))"
  using ex_booted by (simp add: booted_def)

lemma forked_frames:
  assumes "forked m m' P C" and "20 \<le> card (avail m)" and "p \<in> {264..<284}"
  shows "frame_of m' C p = next_frames 20 m ! (p - 264)"
proof -
  have "next_frames 20 m ! (p - 264) < 1024"
    using assms(3) by (intro next_frames_bound [OF assms(2)]) auto
  then show ?thesis
    using assms(1,3) by (simp add: forked_def frame_of_def get_frame_entry unat_frame)
qed

lemma forked_frames_set:
  assumes "forked m m' P C" and "20 \<le> card (avail m)"
  shows "set (next_frames 20 m) = frame_of m' C ` {264..<284}" and "inj_on (frame_of m' C) {264..<284}"
proof -
  note fr = forked_frames [OF assms] and nf = next_frames_props [OF assms(2)]
  show "set (next_frames 20 m) = frame_of m' C ` {264..<284}"
  proof (intro subset_antisym subsetI)
    fix f
    assume "f \<in> set (next_frames 20 m)"
    then obtain n where "n < 20" "f = next_frames 20 m ! n"
      using nf(1) by (metis in_set_conv_nth)
    then show "f \<in> frame_of m' C ` {264..<284}"
      using fr [of "264 + n"] by (intro image_eqI [of _ _ "264 + n"]) auto
  next
    fix f
    assume "f \<in> frame_of m' C ` {264..<284}"
    then obtain p where "p \<in> {264..<284}" "f = next_frames 20 m ! (p - 264)"
      using fr by auto
    then show "f \<in> set (next_frames 20 m)"
      using nf(1) by auto
  qed
  show "inj_on (frame_of m' C) {264..<284}"
    using fr nf by (auto simp: inj_on_def nth_eq_iff_index_eq)
qed

text \<open>
  C7: a successful fork gives the child its own memory.  The twenty data and stack pages of the
  child lie in frames that were free before and are taken now, no two of them the same; each
  holds the bytes of the parent's page at the same place, and no byte outside these frames
  changes.  The code and kernel pages of the child are those of the parent.
\<close>

theorem fork_gives_private_copy:
  assumes "can_fork L k Q i j F R" and "20 \<le> card (avail (mm k))"
  shows "\<exists>v k'. sys_fork L k = Some (v, k') \<and>
    (let child = frame_of (mm k') (pt_row L i); parent = frame_of (mm k) (pt_row L j)
     in inj_on child {264..<284} \<and> child ` {264..<284} \<subseteq> avail (mm k) - avail (mm k') \<and>
        (\<forall>p \<in> {264..<284}. \<forall>b < 4096.
           ram (mm k') (page_addr (child p) b) = ram (mm k) (page_addr (parent p) b)) \<and>
        (\<forall>a. a \<notin> (\<lambda>(p, b). page_addr (child p) b) ` ({264..<284} \<times> {..<4096}) \<longrightarrow>
           ram (mm k') a = ram (mm k) a) \<and>
        (\<forall>p < 264. child p = parent p))"
proof -
  obtain k' where run: "sys_fork L k = Some (global_PID k + 1, k')"
    and f: "forked (mm k) (mm k') (pt_row L j) (pt_row L i)"
    using sys_fork_success [OF assms] by blast
  note fs = forked_frames_set [OF f assms(2)] and fr = forked_frames [OF f assms(2)]
  have "set (next_frames 20 (mm k)) \<subseteq> avail (mm k) - avail (mm k')"
    using next_frames_props(3) [OF assms(2)] f by (auto simp: forked_def)
  moreover have "frame_of (mm k') (pt_row L i) p = frame_of (mm k) (pt_row L j) p" if "p < 264" for p
  proof -
    have "pt_entry (mm k') (pt_row L i) p = ss_entry (get_frame (pt_row L j) p (mm k))"
      using f that by (simp add: forked_def)
    moreover have "get_frame (pt_row L j) p (mm k) AND mask 20 = get_frame (pt_row L j) p (mm k)"
      using get_frame_bound [of "pt_row L j" p "mm k"] unfolding take_bit_eq_mask [symmetric]
      by (intro unsigned_word_eqI [where ?'a = nat]) (simp add: unsigned_take_bit_eq take_bit_nat_eq_self)
    ultimately show ?thesis
      by (simp add: frame_of_def get_frame_entry [of "pt_row L i"])
  qed
  moreover have "ram (mm k') a = ram (mm k) a"
    if "a \<notin> (\<lambda>(p, b). page_addr (frame_of (mm k') (pt_row L i) p) b) ` ({264..<284} \<times> {..<4096})" for a
  proof -
    have "\<forall>f \<in> set (next_frames 20 (mm k)). \<forall>b < 4096. a \<noteq> page_addr f b"
      using that unfolding fs(1) by force
    then show ?thesis
      using f by (simp add: forked_def)
  qed
  moreover have "ram (mm k') (page_addr (frame_of (mm k') (pt_row L i) p) b)
      = ram (mm k) (page_addr (frame_of (mm k) (pt_row L j) p) b)" if "p \<in> {264..<284}" "b < 4096" for p b
    using f that fr by (simp add: forked_def)
  ultimately show ?thesis
    using run fs by (auto simp: Let_def)
qed

theorem fork_gives_private_copy_witness:
  "\<exists>v k'. sys_fork ex_layout ex_kernel = Some (v, k') \<and>
    frame_of (mm k') (pt_row ex_layout 2) ` {264..<284} \<subseteq> avail (mm ex_kernel) - avail (mm k')"
  using fork_gives_private_copy [OF ex_can_fork ex_frames] by (auto simp: Let_def)

text \<open>
  Fork gives the child the next PID and the parent's quantum, marks it ready, puts it at
  the end of the ready queue and takes it out of the free queue; the parent gets the PID back
  with its registers as they were, and no other task structure changes.
\<close>

theorem fork_queues_child:
  assumes "can_fork L k Q i j F R" and "20 \<le> card (avail (mm k))"
  shows "\<exists>k'. sys_fork L k = Some (global_PID k + 1, k') \<and>
    queues L k' (Q(freequeue L \<mapsto> F, readyqueue L \<mapsto> R @ [task_at L i])) \<and>
    PID (tasks k' (task_at L i)) = global_PID k' \<and> global_PID k' = global_PID k + 1 \<and>
    state (tasks k' (task_at L i)) = ST_READY \<and>
    total_quantum (tasks k' (task_at L i)) = total_quantum (tasks k (task_at L j)) \<and>
    dir_pages_baseAddr (tasks k' (task_at L i)) = dir_row L i \<and> cpu k' = cpu k \<and>
    cr3 (mm k') = cr3 (mm k) \<and> (\<forall>x. x \<noteq> task_at L i \<longrightarrow> tasks k' x = tasks k x)"
  using sys_fork_success [OF assms] by (force simp: fork_child_def forked_def)

theorem fork_queues_child_witness:
  "\<exists>k'. sys_fork ex_layout ex_kernel = Some (global_PID ex_kernel + 1, k') \<and>
    PID (tasks k' (task_at ex_layout 2)) = global_PID k'"
  using fork_queues_child [OF ex_can_fork ex_frames] by blast

lemma fork_child_starts:
  assumes ch: "fork_child L k k' A t" and on: "on_stack k A 40" and t: "page_aligned t" "t \<noteq> A"
    and lab: "ret_from_fork_code L \<noteq> task_switch_ret_code L"
  shows "fresh_start L k' t (ebp (cpu k)) (ret_from_fork_code L)"
  using ch lab fork_child_stack(4,5) [OF on t] by (simp add: fresh_start_def fork_child_def)

lemma fresh_start_untouched:
  "fresh_start L k t bp code \<Longrightarrow> untouched t k k' \<Longrightarrow> fresh_start L k' t bp code"
  by (simp add: fresh_start_def untouched_def)

text \<open>
  C11: when the scheduler switches to the child for the first time, whatever happened in between
  to the other tasks, the child continues in \<^verbatim>\<open>ret_from_fork\<close> with its parent's frame pointer,
  and above its stack pointer lies a copy of the parent's stack at the time of the call: the
  return address and the saved user context.
\<close>

theorem fork_child_resumes:
  assumes cf: "can_fork L k Q i j F R" and en: "20 \<le> card (avail (mm k))"
    and run: "sys_fork L k = Some (v, k')" and lab: "ret_from_fork_code L \<noteq> task_switch_ret_code L"
    and un: "untouched (task_at L i) k' k''" and on': "on_stack k'' C 40" and ne: "C \<noteq> task_at L i"
  shows "let k3 = task_switch L (task_at L i) k''; off = esp (cpu k) - task_at L j
    in eip (cpu k3) = ret_from_fork_code L \<and> ebp (cpu k3) = ebp (cpu k) \<and>
       esp (cpu k3) = task_at L i + off \<and>
       (\<forall>n. off \<le> n \<longrightarrow> n < 4096 \<longrightarrow> stack k3 (task_at L i + n) = stack k (task_at L j + n))"
proof -
  let ?t = "task_at L i" and ?A = "task_at L j"
  note cfo = can_fork_other [OF cf]
  have i: "i < 10" and on: "on_stack k ?A 40"
    using cf by (simp_all add: can_fork_def)
  have t: "page_aligned ?t" "?t \<noteq> ?A"
    using task_at_aligned [OF cfo(3), of i] i cfo(2) by simp_all
  have ch: "fork_child L k k' ?A ?t"
    using sys_fork_success [OF cf en] run by auto
  have fs: "fresh_start L k'' ?t (ebp (cpu k)) (ret_from_fork_code L)"
    by (rule fresh_start_untouched [OF fork_child_starts [OF ch on t lab] un])
  have resp: "register_esp (tasks k'' ?t) = mirror ?A ?t (esp (cpu k)) - 8"
    using ch un by (simp add: fork_child_def untouched_def)
  have "stack (task_switch L ?t k'') (?t + n) = stack k (?A + n)"
    if n: "esp (cpu k) - ?A \<le> n" "n < 4096" for n
  proof -
    have pg: "stack_page (?t + n) = ?t"
      using n(2) by (intro page_offset(1) [OF t(1)]) (simp add: word_less_nat_alt)
    then have "stack (task_switch L ?t k'') (?t + n) = stack k'' (?t + n)"
      using switched_stack_other [OF on'] ne by (simp add: task_switch_simps [OF on'])
    also have "\<dots> = stack k (?A + n)"
      using un pg ch n by (simp add: untouched_def fork_child_def)
    finally show ?thesis .
  qed
  then show ?thesis
    using task_switch_starts [OF fs on' ne] resp by (simp add: Let_def mirror_def)
qed

theorem fork_child_resumes_witness:
  "\<exists>v k'. sys_fork ex_layout ex_kernel = Some (v, k') \<and>
    eip (cpu (task_switch ex_layout (task_at ex_layout 2) k')) = ret_from_fork_code ex_layout"
proof -
  note cf = ex_can_fork
  obtain k' where k': "sys_fork ex_layout ex_kernel = Some (global_PID ex_kernel + 1, k')"
      "cpu k' = cpu ex_kernel"
    using sys_fork_success [OF cf ex_frames] by blast
  have "on_stack k' (task_at ex_layout 1) 40"
    using ex_on_stack k'(2) by (simp add: on_stack_def)
  moreover have "ret_from_fork_code ex_layout \<noteq> task_switch_ret_code ex_layout"
    by (simp add: ex_layout_def)
  ultimately have "eip (cpu (task_switch ex_layout (task_at ex_layout 2) k')) = ret_from_fork_code ex_layout"
    using fork_child_resumes [OF cf ex_frames k'(1) _ _ _ can_fork_other(2) [OF cf, symmetric], of k']
    by (simp add: untouched_def Let_def)
  with k'(1) show ?thesis by blast
qed

text \<open>
  C16: when fewer than twenty frames are left, fork returns -EAGAIN and takes nothing: every
  frame it had taken is available again, the task goes back to the free queue, the ready queue,
  the other tasks, memory and registers are as before.  (Frame 256 never comes back, so it must
  not be among the available ones.)
\<close>

theorem fork_rolls_back:
  assumes "can_fork L k Q i j F R" and "card (avail (mm k)) < 20" and "avail (mm k) \<subseteq> returnable"
  shows "\<exists>k'. sys_fork L k = Some (- EAGAIN, k') \<and> avail (mm k') = avail (mm k) \<and>
    queues L k' (Q(freequeue L \<mapsto> F @ [task_at L i])) \<and> ram (mm k') = ram (mm k) \<and>
    cpu k' = cpu k \<and> global_PID k' = global_PID k \<and>
    (\<forall>x. x \<noteq> task_at L i \<longrightarrow> tasks k' x = tasks k x)"
  using sys_fork_no_frames [OF assms] by blast

definition ex_no_frames :: kernel where
  "ex_no_frames = upd_mm (\<lambda>m. m\<lparr>phys_mem := \<lambda>_. USED_FRAME\<rparr>) ex_kernel"

lemma ex_no_frames_fork:
  "can_fork ex_layout ex_no_frames (boot_queues ex_layout) 2 1 (map (task_at ex_layout) [3..<10]) []"
  "avail (mm ex_no_frames) = {}"
proof -
  show av: "avail (mm ex_no_frames) = {}"
    by (simp add: ex_no_frames_def avail_def)
  have e: "pt_entry (mm ex_no_frames) = pt_entry (mm ex_kernel)"
    by (simp add: ex_no_frames_def pt_entry_def fun_eq_iff)
  have full: "avail (mm ex_kernel\<lparr>phys_mem := \<lambda>_. 1\<rparr>) = {}"
    by (simp add: avail_def)
  have "running ex_layout ex_no_frames 1"
    using ex_booted e by (simp add: booted_def running_def table_rows_def data_pages_ok_def)
      (simp add: ex_no_frames_def full)
  then show "can_fork ex_layout ex_no_frames (boot_queues ex_layout) 2 1 (map (task_at ex_layout) [3..<10]) []"
    using ex_can_fork by (simp add: can_fork_def ex_no_frames_def queues_def on_stack_def)
qed

theorem fork_rolls_back_witness:
  "\<exists>k'. sys_fork ex_layout ex_no_frames = Some (- EAGAIN, k') \<and> avail (mm k') = {}"
  using fork_rolls_back [OF ex_no_frames_fork(1)] by (auto simp: ex_no_frames_fork(2))

text \<open>
  With no free task structure fork returns -ENOMEM and changes nothing but the dword below
  the stack pointer.
\<close>

theorem fork_needs_task:
  assumes "queues L k Q" and "Q (freequeue L) = Some []"
  shows "sys_fork L k = Some (- ENOMEM, stack_write (esp (cpu k) - 4) (ebp (cpu k)) k)"
  using sys_fork_no_task [OF assms] by (simp add: below_esp_def)

theorem fork_needs_task_witness:
  "fst (the (sys_fork ex_layout (upd_lists (INIT_LIST_HEAD (freequeue ex_layout)) ex_kernel))) = - ENOMEM"
proof -
  have "queue_head ex_layout (freequeue ex_layout)"
    by (simp add: queue_head_def)
  from fork_needs_task [OF queues_empty_head [OF ex_layout_ok this]] show ?thesis
    by simp
qed

end
