(* ===== verification/SchedSpec.thy ===== *)
theory SchedSpec
  imports ForkSpec
begin

text \<open>
  The properties of the scheduler: the context switch as a round trip, and round robin by ticks
  against an abstract scheduler, with its fairness.
\<close>

text \<open>
  C8: a task that is switched out and later switched to again continues at the return address
  of its own call of \<^verbatim>\<open>task_switch\<close> with the stack pointer and the registers a call preserves,
  if nobody wrote to its stack page or its saved stack pointer in between.
\<close>

theorem switch_round_trip:
  assumes "on_stack k A 40" and "untouched A (task_switch L B k) k'" and "on_stack k' C 40" and "C \<noteq> A"
  shows "let c = cpu k; c' = cpu (task_switch L A k')
    in esp c' = esp c + 4 \<and> eip c' = stack k (esp c) \<and> ebp c' = ebp c \<and>
       ebx c' = ebx c \<and> esi c' = esi c \<and> edi c' = edi c"
  using switch_away_and_back [OF assms] by (simp add: resumes_def Let_def)

definition ex_away :: kernel where
  "ex_away = upd_cpu (\<lambda>c. c\<lparr>esp := task_at ex_layout 3 + 3000\<rparr>)
     (task_switch ex_layout (task_at ex_layout 3) ex_kernel)"

theorem switch_round_trip_witness:
  "esp (cpu (task_switch ex_layout (task_at ex_layout 1) ex_away)) = task_at ex_layout 1 + 3004"
proof -
  have u: "untouched (task_at ex_layout 1) (task_switch ex_layout (task_at ex_layout 3) ex_kernel) ex_away"
    by (simp add: ex_away_def untouched_def)
  have o: "on_stack ex_away (task_at ex_layout 3) 40"
    by (rule on_stack_at [OF ex_layout_ok, of _ _ 3000]) (simp_all add: ex_away_def)
  have "task_at ex_layout 3 \<noteq> task_at ex_layout 1"
    using task_at_inj [OF ex_layout_ok, of 3 1] by simp
  from switch_round_trip [OF ex_on_stack u o this] show ?thesis
    by (simp add: Let_def ex_kernel_def)
qed

section \<open>Ticks\<close>

text \<open>What the abstract scheduler keeps: no task twice, and every quantum positive.\<close>

fun rr_good :: "(addr \<Rightarrow> nat) \<Rightarrow> rr_state \<Rightarrow> bool" where
  "rr_good quantum (A, R, n) \<longleftrightarrow> distinct (A # R) \<and> 0 < n \<and> (\<forall>t \<in> set (A # R). 0 < quantum t)"

lemma rr_good_tick: "rr_good quantum a \<Longrightarrow> rr_good quantum (rr_tick quantum a)"
proof (cases a)
  case (fields A R n)
  assume "rr_good quantum a"
  then show ?thesis
    using fields by (cases R) (auto simp: Let_def)
qed

lemma a_schedule_tick:
  assumes "rr_good quantum a"
  shows "rr.a_schedule quantum idle a = rr_tick quantum a"
proof (cases a)
  case (fields A R n)
  then show ?thesis
    using assms
    by (cases R) (auto simp: rr.a_schedule_def Let_def next_of_def)
qed

lemma schedule_tick:
  assumes "rr_rel L Q quantum idle k a" and "on_stack k (fst a) 40" and "rr_good quantum a"
  shows "rr_rel L Q quantum idle (schedule L (rr_policy L) k) (rr_tick quantum a)"
proof -
  have "rr_can a"
    using assms(3) by (cases a) simp
  from rr.schedule_sim [OF assms(1,2) this] show ?thesis
    by (simp add: a_schedule_tick [OF assms(3)])
qed

text \<open>
  C9: one call of \<^verbatim>\<open>schedule\<close> with the round robin policy is one tick of the abstract
  scheduler: the running task loses a tick of its quantum; when the quantum is used up it starts
  a new one if nobody is ready, and otherwise goes to the end of the ready queue while the first
  ready task starts to run with its full quantum.
\<close>

theorem schedule_refines_round_robin:
  assumes "rr_rel L Q quantum idle k (A, R, n)" and "on_stack k A 40" and "A \<notin> set R" and "0 < n"
  shows "rr_rel L Q quantum idle (schedule L (rr_policy L) k)
    (if n \<noteq> 1 then (A, R, n - 1)
     else case R of [] \<Rightarrow> (A, [], quantum A) | B # R' \<Rightarrow> (B, R' @ [A], quantum B))"
proof -
  have "rr_rel L Q quantum idle (schedule L (rr_policy L) k) (rr.a_schedule quantum idle (A, R, n))"
    using assms by (intro rr.schedule_sim) simp_all
  moreover have "rr.a_schedule quantum idle (A, R, n) = (if n \<noteq> 1 then (A, R, n - 1)
     else case R of [] \<Rightarrow> (A, [], quantum A) | B # R' \<Rightarrow> (B, R' @ [A], quantum B))"
    using assms(4) by (cases R) (auto simp: rr.a_schedule_def Let_def next_of_def)
  ultimately show ?thesis by simp
qed

lemma ex_rr_rel:
  "rr_rel ex_layout (boot_queues ex_layout) (\<lambda>t. unat (total_quantum (tasks ex_kernel t)))
     (task_at ex_layout 0) ex_kernel (task_at ex_layout 1, [], 10)"
  by (rule booted_rr_rel [OF ex_booted])

theorem schedule_refines_round_robin_witness:
  "rr_rel ex_layout (boot_queues ex_layout) (\<lambda>t. unat (total_quantum (tasks ex_kernel t)))
     (task_at ex_layout 0) (schedule ex_layout (rr_policy ex_layout) ex_kernel) (task_at ex_layout 1, [], 9)"
  using schedule_refines_round_robin [OF ex_rr_rel ex_on_stack] by (simp del: rr_rel.simps)

text \<open>
  \<open>tick_run L Q quantum idle k n k'\<close>: \<open>n\<close> clock ticks lead from \<open>k\<close> to \<open>k'\<close>.  Between two ticks
  the kernel does anything that keeps the scheduler's data, and the tick finds the stack pointer
  in the stack of the running task.
\<close>

inductive tick_run ::
  "layout \<Rightarrow> (addr \<rightharpoonup> addr list) \<Rightarrow> (addr \<Rightarrow> nat) \<Rightarrow> addr \<Rightarrow> kernel \<Rightarrow> nat \<Rightarrow> kernel \<Rightarrow> bool"
  for L Q quantum idle k where
  tick_none: "tick_run L Q quantum idle k 0 k"
| tick_one: "tick_run L Q quantum idle k n k1 \<Longrightarrow>
    (\<And>a. rr_rel L Q quantum idle k1 a \<Longrightarrow> rr_rel L Q quantum idle k2 a \<and> on_stack k2 (fst a) 40) \<Longrightarrow>
    tick_run L Q quantum idle k (Suc n) (schedule L (rr_policy L) k2)"

inductive_cases tick_run_0E: "tick_run L Q quantum idle k 0 k'"
inductive_cases tick_run_SucE: "tick_run L Q quantum idle k (Suc n) k'"

lemma tick_run_refines:
  assumes "tick_run L Q quantum idle k m k'" and "rr_rel L Q quantum idle k a" and "rr_good quantum a"
  shows "rr_rel L Q quantum idle k' ((rr_tick quantum ^^ m) a) \<and> rr_good quantum ((rr_tick quantum ^^ m) a)"
  using assms(1)
proof induction
  case tick_none
  then show ?case
    using assms(2,3) by simp
next
  case (tick_one n k1 k2)
  then have "rr_rel L Q quantum idle k2 ((rr_tick quantum ^^ n) a)"
    "on_stack k2 (fst ((rr_tick quantum ^^ n) a)) 40"
    by blast+
  then show ?case
    using schedule_tick tick_one.IH rr_good_tick by simp
qed

text \<open>Such runs exist: the tick may come as soon as the task is in the kernel again.\<close>

lemma rr_rel_esp: "rr_rel L Q quantum idle (upd_cpu f k) a \<longleftrightarrow> rr_rel L Q quantum idle k a"
  by (cases a) (simp add: queues_def)

lemma rr_rel_running: "rr_rel L Q quantum idle k a \<Longrightarrow> fst a = tss_esp0 (tss k) - 4096 \<and> page_aligned (fst a)"
  by (cases a) (auto simp: queues_def intro: task_set_aligned)

lemma tick_run_exists: "\<exists>k'. tick_run L Q quantum idle k n k'"
proof (induction n)
  case 0
  then show ?case
    using tick_none by blast
next
  case (Suc n)
  then obtain k1 where k1: "tick_run L Q quantum idle k n k1"
    by blast
  let ?k2 = "upd_cpu (\<lambda>c. c\<lparr>esp := tss_esp0 (tss k1) - 4096 + 3000\<rparr>) k1"
  have "rr_rel L Q quantum idle ?k2 a \<and> on_stack ?k2 (fst a) 40" if "rr_rel L Q quantum idle k1 a" for a
  proof -
    have f: "fst a = tss_esp0 (tss k1) - 4096" and al: "page_aligned (fst a)"
      using rr_rel_running [OF that] by blast+
    have "page_aligned (tss_esp0 (tss k1) - 4096)"
      using al unfolding f .
    then show ?thesis
      using that by (simp add: rr_rel_esp on_stack_def f)
  qed
  from tick_one [OF k1 this] show ?case
    by blast
qed

text \<open>
  C10: round robin is fair.  In a turn of as many clock ticks as the running task \<open>A\<close> and the
  ready tasks \<open>us @ B # vs\<close> before and up to \<open>B\<close> have quanta together, each of them ran for its
  whole quantum: \<open>B\<close> starts with its full quantum, and those that ran wait behind the others in
  the order they ran.
\<close>

theorem round_robin_is_fair:
  assumes "rr_rel L Q quantum idle k (A, us @ B # vs, quantum A)" and "A \<notin> set (us @ B # vs)"
    and "\<forall>t \<in> set (A # us @ B # vs). 0 < quantum t"
    and "tick_run L Q quantum idle k (sum_list (map quantum (A # us))) k'"
  shows "rr_rel L Q quantum idle k' (B, vs @ A # us, quantum B)"
proof -
  have "queues L k (Q(readyqueue L \<mapsto> us @ B # vs))"
    using assms(1) by simp
  then have "distinct (us @ B # vs)"
    using queued_distinct(1) [of L k _ "readyqueue L" "us @ B # vs"] by simp
  then have "rr_good quantum (A, us @ B # vs, quantum A)"
    using assms(2,3) by simp
  from tick_run_refines [OF assms(4,1) this] show ?thesis
    using rr_turn_prefix [of A "us @ B # vs" quantum us B vs] assms(3) by (simp del: rr_rel.simps)
qed

text \<open>The example machine after one fork: task 1 runs, task 2 is ready.\<close>

definition ex_forked :: kernel where
  "ex_forked = snd (the (sys_fork ex_layout ex_kernel))"

definition ex_quantum :: "addr \<Rightarrow> nat" where
  "ex_quantum t = unat (total_quantum (tasks ex_forked t))"

definition ex_queues :: "addr \<rightharpoonup> addr list" where
  "ex_queues = (boot_queues ex_layout)(freequeue ex_layout \<mapsto> map (task_at ex_layout) [3..<10])"

lemma ex_forked_facts:
  "sys_fork ex_layout ex_kernel = Some (global_PID ex_kernel + 1, ex_forked)"
  "queues ex_layout ex_forked (ex_queues(readyqueue ex_layout \<mapsto> [task_at ex_layout 2]))"
  "cpu ex_forked = cpu ex_kernel" "tasks ex_forked (task_at ex_layout 1) = tasks ex_kernel (task_at ex_layout 1)"
  "state (tasks ex_forked (task_at ex_layout 2)) = ST_READY"
  "total_quantum (tasks ex_forked (task_at ex_layout 2)) = 10"
  "idle_task ex_forked = task_at ex_layout 0" "remaining_quantum ex_forked = 10" "tss ex_forked = tss ex_kernel"
proof -
  obtain k' where k': "sys_fork ex_layout ex_kernel = Some (global_PID ex_kernel + 1, k')"
    "queues ex_layout k' ((boot_queues ex_layout)(freequeue ex_layout \<mapsto> map (task_at ex_layout) [3..<10],
       readyqueue ex_layout \<mapsto> [] @ [task_at ex_layout 2]))"
    "fork_child ex_layout ex_kernel k' (task_at ex_layout 1) (task_at ex_layout 2)"
    "cpu k' = cpu ex_kernel" "\<forall>x. x \<noteq> task_at ex_layout 2 \<longrightarrow> tasks k' x = tasks ex_kernel x"
    "idle_task k' = idle_task ex_kernel" "remaining_quantum k' = remaining_quantum ex_kernel" "tss k' = tss ex_kernel"
    using sys_fork_success [OF ex_can_fork ex_frames] by blast
  have "ex_forked = k'"
    using k'(1) by (simp add: ex_forked_def)
  moreover have "task_at ex_layout 1 \<noteq> task_at ex_layout 2"
    using task_at_inj [OF ex_layout_ok, of 1 2] by simp
  ultimately show "sys_fork ex_layout ex_kernel = Some (global_PID ex_kernel + 1, ex_forked)"
    "queues ex_layout ex_forked (ex_queues(readyqueue ex_layout \<mapsto> [task_at ex_layout 2]))"
    "cpu ex_forked = cpu ex_kernel" "tasks ex_forked (task_at ex_layout 1) = tasks ex_kernel (task_at ex_layout 1)"
    "state (tasks ex_forked (task_at ex_layout 2)) = ST_READY"
    "total_quantum (tasks ex_forked (task_at ex_layout 2)) = 10"
    "idle_task ex_forked = task_at ex_layout 0" "remaining_quantum ex_forked = 10" "tss ex_forked = tss ex_kernel"
    using k' ex_booted by (simp_all add: ex_queues_def fork_child_def booted_def del: upt_rec_numeral)
qed

lemma ex_forked_rel:
  "rr_rel ex_layout ex_queues ex_quantum (task_at ex_layout 0) ex_forked
     (task_at ex_layout 1, [task_at ex_layout 2], 10)"
proof -
  have d: "task_at ex_layout i = task_at ex_layout j \<longleftrightarrow> i = j" if "i < 10" "j < 10" for i j
    using that task_at_inj [OF ex_layout_ok, of i j] by simp
  have "\<not> elsewhere ex_layout ex_queues (task_at ex_layout j)" if j: "j < 2" for j
  proof
    assume "elsewhere ex_layout ex_queues (task_at ex_layout j)"
    then obtain i where "i \<in> {3..<10}" "task_at ex_layout j = task_at ex_layout i"
      by (auto simp: elsewhere_def ex_queues_def boot_queues_def split: if_splits simp del: upt_rec_numeral)
    then show False
      using j d [of j i] by auto
  qed
  moreover have "task_at ex_layout 2 = task_at ex_layout 1 + 4096"
    using task_at_Suc [of ex_layout 1] by (simp add: numeral_2_eq_2)
  moreover have "task_at ex_layout i \<in> task_set ex_layout" if "i < 10" for i
    using that by (auto simp: task_set_def)
  ultimately show ?thesis
    using ex_forked_facts ex_booted d [of 1 2] by (simp add: ex_quantum_def booted_def)
qed

theorem round_robin_is_fair_witness:
  "\<exists>k'. tick_run ex_layout ex_queues ex_quantum (task_at ex_layout 0) ex_forked 10 k' \<and>
     rr_rel ex_layout ex_queues ex_quantum (task_at ex_layout 0) k'
       (task_at ex_layout 2, [task_at ex_layout 1], 10)"
proof -
  obtain k' where r: "tick_run ex_layout ex_queues ex_quantum (task_at ex_layout 0) ex_forked 10 k'"
    using tick_run_exists by blast
  have q: "ex_quantum (task_at ex_layout 1) = 10" "ex_quantum (task_at ex_layout 2) = 10"
    using ex_forked_facts ex_booted by (simp_all add: ex_quantum_def booted_def)
  have "task_at ex_layout 1 \<noteq> task_at ex_layout 2"
    using task_at_inj [OF ex_layout_ok, of 1 2] by simp
  then have "rr_rel ex_layout ex_queues ex_quantum (task_at ex_layout 0) k'
      (task_at ex_layout 2, [task_at ex_layout 1], ex_quantum (task_at ex_layout 2))"
    using round_robin_is_fair [of ex_layout ex_queues ex_quantum "task_at ex_layout 0" ex_forked
        "task_at ex_layout 1" "[]" "task_at ex_layout 2" "[]" k'] q r ex_forked_rel
    by (simp del: rr_rel.simps)
  with r q show ?thesis
    by (intro exI [of _ k'] conjI) (simp_all del: rr_rel.simps)
qed

end
