(* ===== verification/Procs.thy ===== *)
theory Procs
  imports Booted "HOL-Library.Multiset"
begin

text \<open>
  The system invariant: at every moment the ten task structures are the running one, the
  ready ones in the order of the ready queue, and the free ones in the order of the free queue
  (the idle task may be in none); every user process has twenty data frames of its own, and no
  frame is lost.  Each state change of the kernel keeps it and has a simple effect on this
  abstract picture.
\<close>

record procs =
  p_run :: nat
  p_ready :: "nat list"
  p_free :: "nat list"
  p_frames :: "nat \<Rightarrow> nat list"

text \<open>The tasks that have an address space, and those among them that are user processes.\<close>

definition alive :: "procs \<Rightarrow> nat set" where
  "alive s = insert 0 (insert (p_run s) (set (p_ready s)))"

definition users :: "procs \<Rightarrow> nat set" where
  "users s = alive s - {0}"

definition proc_queues :: "layout \<Rightarrow> procs \<Rightarrow> addr \<rightharpoonup> addr list" where
  "proc_queues L s = [freequeue L \<mapsto> map (task_at L) (p_free s), readyqueue L \<mapsto> map (task_at L) (p_ready s)]"

definition slots_ok :: "procs \<Rightarrow> bool" where
  "slots_ok s \<longleftrightarrow> distinct (p_run s # p_ready s @ p_free s) \<and>
     alive s \<union> set (p_free s) = {..<10} \<and> 0 \<notin> set (p_free s)"

text \<open>376 is the number of frames \<^verbatim>\<open>alloc_frame\<close> can hand out after those of the code pages.\<close>

definition frames_ok :: "layout \<Rightarrow> mm_state \<Rightarrow> procs \<Rightarrow> bool" where
  "frames_ok L m s \<longleftrightarrow> avail m \<subseteq> returnable \<and> set boot_code \<inter> avail m = {} \<and>
     (\<forall>j \<in> users s. good_space L m (pt_row L j) boot_code (p_frames s j) \<and>
        set (p_frames s j) \<inter> (avail m \<union> set boot_code) = {}) \<and>
     (\<forall>j \<in> users s. \<forall>j' \<in> users s. j \<noteq> j' \<longrightarrow> set (p_frames s j) \<inter> set (p_frames s j') = {}) \<and>
     card (avail m) + 20 * card (users s) = 376"

definition kinv :: "layout \<Rightarrow> kernel \<Rightarrow> procs \<Rightarrow> bool" where
  "kinv L k s \<longleftrightarrow> queues L k (proc_queues L s) \<and> slots_ok s \<and>
     idle_task k = task_at L 0 \<and> tss_esp0 (tss k) = task_at L (p_run s) + 4096 \<and>
     cr3 (mm k) = dir_row L (p_run s) \<and> bit (cr0 (mm k)) 31 \<and> table_rows L (mm k) \<and>
     (\<forall>j \<in> alive s. dir_pages_baseAddr (tasks k (task_at L j)) = dir_row L j) \<and>
     (\<forall>j < 10. \<forall>p \<in> {284..<1024}. pt_entry (mm k) (pt_row L j) p = 0) \<and>
     state (tasks k (task_at L (p_run s))) = ST_RUN \<and>
     (\<forall>j \<in> set (p_ready s). state (tasks k (task_at L j)) = ST_READY) \<and>
     frames_ok L (mm k) s"

section \<open>What the invariant gives\<close>

lemma slots_bound: "slots_ok s \<Longrightarrow> j \<in> alive s \<union> set (p_free s) \<Longrightarrow> j < 10"
  by (auto simp: slots_ok_def)

lemma slots_members:
  assumes "slots_ok s"
  shows "p_run s < 10" and "j \<in> set (p_ready s) \<Longrightarrow> j < 10" and "j \<in> set (p_free s) \<Longrightarrow> j < 10"
    and "j \<in> users s \<Longrightarrow> j < 10"
  using slots_bound [OF assms] by (auto simp: alive_def users_def)

lemma run_alive: "p_run s \<in> alive s"
  by (simp add: alive_def)

lemma ready_alive: "j \<in> set (p_ready s) \<Longrightarrow> j \<in> alive s"
  by (simp add: alive_def)

lemma slots_distinct:
  assumes "slots_ok s"
  shows "distinct (p_run s # p_ready s @ p_free s)" and "0 \<notin> set (p_free s)"
  using assms by (simp_all add: slots_ok_def)

lemma finite_alive [simp]: "finite (alive s)" "finite (users s)"
  by (simp_all add: alive_def users_def)

lemma kinv_layout: "kinv L k s \<Longrightarrow> layout_ok L"
  by (simp add: kinv_def queues_def)

lemma kinv_slots: "kinv L k s \<Longrightarrow> slots_ok s"
  by (simp add: kinv_def)

lemma kinv_task_inj:
  "kinv L k s \<Longrightarrow> i < 10 \<Longrightarrow> j < 10 \<Longrightarrow> task_at L i = task_at L j \<longleftrightarrow> i = j"
  using task_at_inj [OF kinv_layout] by simp

lemma kinv_queue_lookup:
  assumes "kinv L k s"
  shows "proc_queues L s (freequeue L) = Some (map (task_at L) (p_free s))"
    and "proc_queues L s (readyqueue L) = Some (map (task_at L) (p_ready s))"
    and "freequeue L \<noteq> readyqueue L"
  using kinv_layout [OF assms] by (simp_all add: proc_queues_def layout_ok_def)

lemma kinv_not_queued:
  assumes "kinv L k s"
  shows "task_at L (p_run s) \<notin> queued (proc_queues L s)"
proof
  assume "task_at L (p_run s) \<in> queued (proc_queues L s)"
  then obtain j where j: "j \<in> set (p_free s) \<union> set (p_ready s)" "task_at L (p_run s) = task_at L j"
    by (auto simp: queued_mem proc_queues_def split: if_splits)
  note sl = kinv_slots [OF assms]
  have "p_run s = j"
    using j kinv_task_inj [OF assms, of "p_run s" j] slots_members [OF sl] by auto
  then show False
    using j(1) sl by (auto simp: slots_ok_def)
qed

text \<open>The running process may fork whenever a task structure is free.\<close>

lemma kinv_running:
  assumes "kinv L k s" and "p_run s \<noteq> 0"
  shows "running L k (p_run s)"
proof -
  have "p_run s \<in> users s"
    using assms(2) by (simp add: users_def alive_def)
  then have "good_space L (mm k) (pt_row L (p_run s)) boot_code (p_frames s (p_run s))"
    "set (p_frames s (p_run s)) \<inter> avail (mm k) = {}"
    using assms(1) by (auto simp: kinv_def frames_ok_def)
  then have "data_pages_ok (mm k) (pt_row L (p_run s))"
    by (rule owns_data_pages_ok [OF good_space_owns])
  then show ?thesis
    using assms(1) slots_members(1) [OF kinv_slots [OF assms(1)]]
    by (auto simp: kinv_def running_def queues_def alive_def)
qed

lemma users_card:
  assumes "slots_ok s"
  shows "card (users s) + length (p_free s) = 9"
proof -
  have d: "distinct (p_free s)" and sub: "alive s \<union> set (p_free s) = {..<10}" and z: "0 \<notin> set (p_free s)"
    and disj: "alive s \<inter> set (p_free s) = {}"
    using assms by (auto simp: slots_ok_def alive_def)
  have "users s \<union> set (p_free s) = {..<10} - {0}" "users s \<inter> set (p_free s) = {}"
    using sub z disj by (auto simp: users_def)
  then have "card (users s) + card (set (p_free s)) = card ({..<10 :: nat} - {0})"
    by (metis card_Un_disjoint finite_alive(2) finite_set)
  then show ?thesis
    using distinct_card [OF d] by simp
qed

lemma kinv_frames_left:
  assumes "kinv L k s"
  shows "card (avail (mm k)) = 196 + 20 * length (p_free s)"
proof -
  have "card (avail (mm k)) + 20 * card (users s) = 376"
    using assms by (simp add: kinv_def frames_ok_def)
  then show ?thesis
    using users_card [OF kinv_slots [OF assms]] by linarith
qed

lemma kinv_can_fork:
  assumes "kinv L k s" and "p_run s \<noteq> 0" and "p_free s = i # F" and "on_stack k (task_at L (p_run s)) 40"
  shows "can_fork L k (proc_queues L s) i (p_run s) (map (task_at L) F) (map (task_at L) (p_ready s))"
    and "20 \<le> card (avail (mm k))"
proof -
  show "can_fork L k (proc_queues L s) i (p_run s) (map (task_at L) F) (map (task_at L) (p_ready s))"
    using assms kinv_queue_lookup [OF assms(1)] kinv_running [OF assms(1,2)] kinv_not_queued [OF assms(1)]
      slots_members(3) [OF kinv_slots [OF assms(1)], of i]
    unfolding can_fork_def by (auto simp: kinv_def)
  show "20 \<le> card (avail (mm k))"
    using kinv_frames_left [OF assms(1)] by simp
qed

section \<open>States that agree on what the invariant reads\<close>

definition same_core :: "kernel \<Rightarrow> kernel \<Rightarrow> bool" where
  "same_core k k' \<longleftrightarrow> lists k' = lists k \<and> phys_mem (mm k') = phys_mem (mm k) \<and> pte (mm k') = pte (mm k) \<and>
     cr3 (mm k') = cr3 (mm k) \<and> cr0 (mm k') = cr0 (mm k) \<and> tss k' = tss k \<and> idle_task k' = idle_task k \<and>
     global_PID k' = global_PID k \<and>
     (\<forall>t. PID (tasks k' t) = PID (tasks k t) \<and> state (tasks k' t) = state (tasks k t) \<and>
        dir_pages_baseAddr (tasks k' t) = dir_pages_baseAddr (tasks k t) \<and>
        total_quantum (tasks k' t) = total_quantum (tasks k t))"

lemma pt_entry_pte_cong: "pte m' = pte m \<Longrightarrow> pt_entry m' = pt_entry m"
  by (simp add: pt_entry_def fun_eq_iff)

lemma frames_ok_cong:
  assumes "frames_ok L m s" and "avail m' = avail m"
    and "\<And>j p. j \<in> users s \<Longrightarrow> p < 1024 \<Longrightarrow> pt_entry m' (pt_row L j) p = pt_entry m (pt_row L j) p"
  shows "frames_ok L m' s"
  using assms good_space_cong [OF _ assms(3)] unfolding frames_ok_def by simp

lemma kinv_same_core:
  assumes "kinv L k s" and "same_core k k'"
  shows "kinv L k' s"
proof -
  have "pt_entry (mm k') = pt_entry (mm k)" "avail (mm k') = avail (mm k)"
    using assms(2) pt_entry_pte_cong [of "mm k'" "mm k"] avail_phys_cong [of "mm k'" "mm k"]
    by (simp_all add: same_core_def)
  then show ?thesis
    using assms frames_ok_cong [of L "mm k" s "mm k'"] table_rows_cong [of L "mm k" "mm k'"]
    unfolding kinv_def same_core_def by (simp add: queues_def)
qed

section \<open>Giving up the processor\<close>

lemma proc_queues_upd:
  assumes "freequeue L \<noteq> readyqueue L"
  shows "(proc_queues L s)(readyqueue L \<mapsto> map (task_at L) R) = proc_queues L (s\<lparr>p_ready := R\<rparr>)"
    and "(proc_queues L s)(freequeue L \<mapsto> map (task_at L) F) = proc_queues L (s\<lparr>p_free := F\<rparr>)"
    and "proc_queues L (s\<lparr>p_run := i\<rparr>) = proc_queues L s"
    and "proc_queues L (s\<lparr>p_frames := fr\<rparr>) = proc_queues L s"
  using assms by (auto simp: proc_queues_def fun_eq_iff)

text \<open>The picture after the running task went to the end of the ready queue.\<close>

definition next_turn :: "procs \<Rightarrow> procs" where
  "next_turn s = (let Q = p_ready s @ [p_run s] in s\<lparr>p_run := hd Q, p_ready := tl Q\<rparr>)"

lemma next_turn_simps [simp]:
  "alive (next_turn s) = alive s" "users (next_turn s) = users s" "p_frames (next_turn s) = p_frames s"
  "p_free (next_turn s) = p_free s"
  by (cases "p_ready s"; auto simp: next_turn_def alive_def users_def)+

lemma slots_next_turn: "slots_ok s \<Longrightarrow> slots_ok (next_turn s)"
proof -
  assume sl: "slots_ok s"
  have "mset (p_run (next_turn s) # p_ready (next_turn s)) = mset (p_run s # p_ready s)"
    by (cases "p_ready s") (simp_all add: next_turn_def)
  then have "mset (p_run (next_turn s) # p_ready (next_turn s) @ p_free (next_turn s)) = mset (p_run s # p_ready s @ p_free s)"
    by simp
  then have "distinct (p_run (next_turn s) # p_ready (next_turn s) @ p_free (next_turn s))"
    using sl mset_eq_imp_distinct_iff unfolding slots_ok_def by blast
  then show ?thesis
    using sl by (simp add: slots_ok_def)
qed

definition give_up :: "layout \<Rightarrow> kernel \<Rightarrow> kernel" where
  "give_up L k = sched_next_rr L (update_process_state_rr L (current k) (readyqueue L) k)"

lemma kinv_give_up:
  assumes inv: "kinv L k s" and on: "on_stack k (task_at L (p_run s)) 40"
  defines "k' \<equiv> give_up L k"
  shows "kinv L k' (next_turn s)" and "PID (tasks k' x) = PID (tasks k x)" and "global_PID k' = global_PID k"
    and "pte (mm k') = pte (mm k)" and "ram (mm k') = ram (mm k)" and "phys_mem (mm k') = phys_mem (mm k)"
    and "remaining_quantum k' = total_quantum (tasks k (task_at L (p_run (next_turn s))))"
    and "total_quantum (tasks k' x) = total_quantum (tasks k x)"
proof -
  let ?A = "task_at L (p_run s)" and ?R = "p_ready s @ [p_run s]"
  define k2 where "k2 = update_process_state_rr L ?A (readyqueue L) k"
  have cur: "current k = ?A"
    by (rule current_on_stack [OF on]) simp
  note l = kinv_layout [OF inv] and lk = kinv_queue_lookup [OF inv] and sl = kinv_slots [OF inv]
  have run: "state (tasks k ?A) = ST_RUN" and qs: "queues L k (proc_queues L s)"
    using inv by (simp_all add: kinv_def)
  note eq = update_process_state_rr_ready [OF l run, folded k2_def]
  have "?A \<in> task_set L"
    using slots_members(1) [OF sl] by (auto simp: task_set_def)
  note enq = queues_enq [OF qs lk(2) this kinv_not_queued [OF inv]]
  have upd: "(proc_queues L s)(readyqueue L \<mapsto> map (task_at L) (p_ready s) @ [?A]) = proc_queues L (s\<lparr>p_ready := ?R\<rparr>)"
    using proc_queues_upd(1) [OF lk(3), of s ?R] by simp
  have "lists k2 = lists (upd_lists (list_add_tail (list_of ?A) (readyqueue L)) k)"
    by (simp add: eq)
  from queues_cong [OF this] have q2: "queues L k2 (proc_queues L (s\<lparr>p_ready := ?R\<rparr>))"
    using enq unfolding upd by simp
  have rd: "proc_queues L (s\<lparr>p_ready := ?R\<rparr>) (readyqueue L) = Some (map (task_at L) ?R)"
    by (simp add: proc_queues_def)
  have on2: "on_stack k2 ?A 40"
    using on by (simp add: eq on_stack_def)
  have k': "k' = sched_next_rr L k2"
    by (simp add: k'_def give_up_def cur k2_def)
  note e = sched_next_rr_effect [OF q2 rd on2, folded k']
  let ?B = "task_at L (p_run (next_turn s))"
  have B: "next_of (idle_task k2) (map (task_at L) ?R) = ?B"
    by (cases "p_ready s") (simp_all add: next_of_def next_turn_def)
  have run': "p_run (next_turn s) \<in> alive s"
    using run_alive [of "next_turn s"] by simp
  have dir: "dir_pages_baseAddr (tasks k2 x) = dir_pages_baseAddr (tasks k x)" for x
    by (simp add: eq)
  have mm': "mm k' = set_cr3 (dir_row L (p_run (next_turn s))) (mm k)"
  proof -
    have "mm k' = set_cr3 (dir_pages_baseAddr (tasks k2 ?B)) (mm k2)"
      using e(3) unfolding B .
    moreover have "dir_pages_baseAddr (tasks k ?B) = dir_row L (p_run (next_turn s))"
      using inv run' unfolding kinv_def by blast
    moreover have "mm k2 = mm k"
      by (simp add: eq)
    ultimately show ?thesis
      by (simp add: dir)
  qed
  show "pte (mm k') = pte (mm k)" "ram (mm k') = ram (mm k)" "phys_mem (mm k') = phys_mem (mm k)"
    by (simp_all add: mm' set_cr3_def)
  then have same: "pt_entry (mm k') = pt_entry (mm k)" "avail (mm k') = avail (mm k)"
    using pt_entry_pte_cong avail_phys_cong by blast+
  have "(proc_queues L (s\<lparr>p_ready := ?R\<rparr>))(readyqueue L \<mapsto> tl (map (task_at L) ?R)) = proc_queues L (next_turn s)"
    using proc_queues_upd(1) [OF lk(3), of "s\<lparr>p_ready := ?R\<rparr>" "tl ?R"]
    by (simp add: map_tl proc_queues_def next_turn_def Let_def)
  then have q': "queues L k' (proc_queues L (next_turn s))"
    using e(1) by simp
  have st: "state (tasks k' x) = (if x = ?B then ST_RUN else if x = ?A then ST_READY else state (tasks k x))" for x
    using e(5) [of x] B by (simp add: eq)
  have dist: "distinct (p_run (next_turn s) # p_ready (next_turn s))" and lt: "\<And>j. j \<in> alive s \<Longrightarrow> j < 10"
    using slots_next_turn [OF sl] slots_bound [OF sl] by (auto simp: slots_ok_def)
  have ready: "state (tasks k' (task_at L j)) = ST_READY" if j: "j \<in> set (p_ready (next_turn s))" for j
  proof -
    have ja: "j \<in> alive s"
      using ready_alive [OF j] by simp
    have ne: "task_at L j \<noteq> ?B"
      using kinv_task_inj [OF inv lt [OF ja] lt [OF run']] dist j by auto
    have "j \<in> set ?R"
      using j by (cases "p_ready s") (auto simp: next_turn_def)
    then have "task_at L j = ?A \<or> state (tasks k (task_at L j)) = ST_READY"
      using inv by (auto simp: kinv_def)
    with ne show ?thesis
      by (auto simp: st)
  qed
  have "frames_ok L (mm k') (next_turn s)"
    using inv same unfolding kinv_def frames_ok_def by (simp add: good_space_def owns_def frame_of_def get_frame_entry)
  moreover have "table_rows L (mm k')" "cr3 (mm k') = dir_row L (p_run (next_turn s))" "cr0 (mm k') = cr0 (mm k)"
    using inv same by (simp_all add: kinv_def table_rows_def mm' set_cr3_def)
  moreover have "idle_task k' = task_at L 0" "tss_esp0 (tss k') = ?B + 4096"
    "\<And>x. dir_pages_baseAddr (tasks k' x) = dir_pages_baseAddr (tasks k x)"
    using e(2,7,11) B inv by (simp_all add: kinv_def dir) (simp add: eq)
  ultimately show "kinv L k' (next_turn s)"
    using inv q' slots_next_turn [OF sl] st ready same(1) unfolding kinv_def by simp
  show "PID (tasks k' x) = PID (tasks k x)" "global_PID k' = global_PID k"
    "remaining_quantum k' = total_quantum (tasks k ?B)" "total_quantum (tasks k' x) = total_quantum (tasks k x)"
    using e(4,6,8,12) B by (simp_all add: eq)
qed

section \<open>The clock tick\<close>

lemma same_core_quantum: "same_core k (k\<lparr>remaining_quantum := n\<rparr>)"
  by (simp add: same_core_def)

lemma schedule_give_up:
  defines "k1 \<equiv> \<lambda>k. k\<lparr>remaining_quantum := remaining_quantum k - 1\<rparr>"
  shows "schedule L (rr_policy L) k =
    (if remaining_quantum k = 1 \<and> \<not> list_empty (readyqueue L) (lists k) then give_up L (k1 k)
     else if remaining_quantum k = 1 then (k1 k)\<lparr>remaining_quantum := get_quantum (current k) k\<rparr> else k1 k)"
proof -
  have "remaining_quantum k - 1 = 0 \<longleftrightarrow> remaining_quantum k = 1"
    by simp
  then show ?thesis
    unfolding k1_def
    by (simp add: schedule_def rr_policy_def update_sched_data_rr_def needs_sched_rr_def give_up_def Let_def
        current_def get_quantum_def)
qed

definition tick_procs :: "kernel \<Rightarrow> procs \<Rightarrow> procs" where
  "tick_procs k s = (if remaining_quantum k = 1 \<and> p_ready s \<noteq> [] then next_turn s else s)"

lemma kinv_ready_empty: "kinv L k s \<Longrightarrow> list_empty (readyqueue L) (lists k) \<longleftrightarrow> p_ready s = []"
proof -
  assume inv: "kinv L k s"
  then have "queues L k (proc_queues L s)"
    by (simp add: kinv_def)
  from queues_empty [OF this kinv_queue_lookup(2) [OF inv]] show ?thesis
    by simp
qed

lemma kinv_tick:
  assumes inv: "kinv L k s" and on: "on_stack k (task_at L (p_run s)) 40"
  defines "k' \<equiv> schedule L (rr_policy L) k"
  shows "kinv L k' (tick_procs k s)" and "PID (tasks k' x) = PID (tasks k x)" and "global_PID k' = global_PID k"
    and "pte (mm k') = pte (mm k)" and "ram (mm k') = ram (mm k)"
    and "total_quantum (tasks k' x) = total_quantum (tasks k x)"
proof -
  have inv1: "kinv L (k\<lparr>remaining_quantum := n\<rparr>) s" for n
    by (rule kinv_same_core [OF inv same_core_quantum])
  have "on_stack (k\<lparr>remaining_quantum := n\<rparr>) (task_at L (p_run s)) 40" for n
    using on by (simp add: on_stack_def)
  note g = kinv_give_up [OF inv1 this]
  show "kinv L k' (tick_procs k s)" and "PID (tasks k' x) = PID (tasks k x)" and "global_PID k' = global_PID k"
    and "pte (mm k') = pte (mm k)" and "ram (mm k') = ram (mm k)"
    and "total_quantum (tasks k' x) = total_quantum (tasks k x)"
    unfolding k'_def schedule_give_up tick_procs_def
    using g inv1 by (simp_all add: kinv_ready_empty [OF inv])
qed

section \<open>Fork\<close>

definition fork_procs :: "mm_state \<Rightarrow> procs \<Rightarrow> procs" where
  "fork_procs m s = (case p_free s of [] \<Rightarrow> s
     | i # F \<Rightarrow> s\<lparr>p_ready := p_ready s @ [i], p_free := F, p_frames := (p_frames s)(i := next_frames 20 m)\<rparr>)"

lemma fork_procs_simps:
  assumes "p_free s = i # F"
  shows "alive (fork_procs m s) = insert i (alive s)" "p_run (fork_procs m s) = p_run s"
    "p_ready (fork_procs m s) = p_ready s @ [i]" "p_free (fork_procs m s) = F"
    "p_frames (fork_procs m s) = (p_frames s)(i := next_frames 20 m)"
  using assms by (auto simp: fork_procs_def alive_def)

lemma slots_fork: "slots_ok s \<Longrightarrow> slots_ok (fork_procs m s)"
proof (cases "p_free s")
  case (Cons i F)
  assume "slots_ok s"
  then show ?thesis
    unfolding slots_ok_def fork_procs_simps [OF Cons] using Cons by (auto simp: alive_def)
qed (simp add: fork_procs_def)

lemma kinv_users:
  assumes "kinv L k s" and "j \<in> users s"
  shows "good_space L (mm k) (pt_row L j) boot_code (p_frames s j)"
    and "set (p_frames s j) \<inter> (avail (mm k) \<union> set boot_code) = {}"
    and "j' \<in> users s \<Longrightarrow> j \<noteq> j' \<Longrightarrow> set (p_frames s j) \<inter> set (p_frames s j') = {}"
  using assms unfolding kinv_def frames_ok_def by blast+

lemma kinv_frames_ok:
  assumes "kinv L k s"
  shows "avail (mm k) \<subseteq> returnable" and "set boot_code \<inter> avail (mm k) = {}"
    and "card (avail (mm k)) + 20 * card (users s) = 376"
  using assms by (simp_all add: kinv_def frames_ok_def)

lemma frames_ok_fork:
  assumes inv: "kinv L k s" and free: "p_free s = i # F" and run: "p_run s \<noteq> 0"
    and fk: "forked (mm k) m' (pt_row L (p_run s)) (pt_row L i)"
  shows "frames_ok L m' (fork_procs (mm k) s)"
    and "\<And>PT p. page_aligned PT \<Longrightarrow> PT \<noteq> pt_row L i \<Longrightarrow> p < 1024 \<Longrightarrow> pt_entry m' PT p = pt_entry (mm k) PT p"
proof -
  let ?s = "fork_procs (mm k) s" and ?P = "pt_row L (p_run s)" and ?C = "pt_row L i" and ?nf = "next_frames 20 (mm k)"
  note l = kinv_layout [OF inv] and sl = kinv_slots [OF inv] and fo = kinv_frames_ok [OF inv]
  have i: "i < 10" "i \<notin> alive s" "i \<noteq> 0"
    using sl free slots_members(3) [OF sl, of i] by (auto simp: slots_ok_def alive_def)
  have ni: "i \<notin> users s"
    using i(2) by (simp add: users_def)
  have us: "users ?s = insert i (users s)"
    using i by (auto simp: users_def fork_procs_simps(1) [OF free])
  have en: "20 \<le> card (avail (mm k))"
    using kinv_frames_left [OF inv] by simp
  note nf = next_frames_props [OF en]
  have ru: "p_run s \<in> users s"
    using run by (simp add: users_def run_alive)
  have rows: "pt_row L j \<noteq> ?C" if "j \<in> users s" for j
    using pt_row_inj [OF l slots_members(4) [OF sl that] i(1)] i that by (auto simp: users_def)
  have top: "pt_entry (mm k) ?C p = 0" if "p \<in> {284..<1024}" for p
    using inv i(1) that by (auto simp: kinv_def)
  note al = pt_row_aligned [OF l]
  note sp = forked_spaces [OF fk en fo(1) kinv_users(1) [OF inv ru] al [OF slots_members(1) [OF sl]] rows [OF ru] top]
  then show e: "pt_entry m' PT p = pt_entry (mm k) PT p"
    if "page_aligned PT" "PT \<noteq> ?C" "p < 1024" for PT p
    using that by blast
  have old: "good_space L m' (pt_row L j) boot_code (p_frames s j)" if "j \<in> users s" for j
    by (rule good_space_cong [OF kinv_users(1) [OF inv that]]) (rule e [OF al [OF slots_members(4) [OF sl that]] rows [OF that]])
  have av: "avail m' = avail (mm k) - set ?nf"
    using fk by (simp add: forked_def)
  have "card (avail m') = card (avail (mm k)) - 20"
    using nf av by (simp add: card_Diff_subset distinct_card)
  moreover have "card (users ?s) = card (users s) + 1"
    unfolding us using ni by simp
  ultimately have c: "card (avail m') + 20 * card (users ?s) = 376"
    using fo(3) en by simp
  have fresh: "set ?nf \<inter> set (p_frames s j) = {}" if "j \<in> users s" for j
    using nf(3) kinv_users(2) [OF inv that] by blast
  have frs: "p_frames ?s j = (if j = i then ?nf else p_frames s j)" for j
    by (simp add: fork_procs_simps(5) [OF free])
  have one: "good_space L m' (pt_row L j) boot_code (p_frames ?s j) \<and>
      set (p_frames ?s j) \<inter> (avail m' \<union> set boot_code) = {}" if "j \<in> users ?s" for j
  proof (cases "j = i")
    case True
    then show ?thesis
      using sp(1) nf(3) av fo(2) by (auto simp: frs)
  next
    case False
    then have "j \<in> users s"
      using that us by simp
    then show ?thesis
      using False old kinv_users(2) [OF inv] av by (auto simp: frs)
  qed
  have two: "set (p_frames ?s j) \<inter> set (p_frames ?s j') = {}" if "j \<in> users ?s" "j' \<in> users ?s" "j \<noteq> j'" for j j'
    using that us ni fresh [of j] fresh [of j'] kinv_users(3) [OF inv, of j j'] by (auto simp: frs)
  show "frames_ok L m' ?s"
    unfolding frames_ok_def using av fo(1,2) one two c by blast
qed

lemma kinv_fork:
  assumes inv: "kinv L k s" and run: "p_run s \<noteq> 0" and free: "p_free s = i # F"
    and on: "on_stack k (task_at L (p_run s)) 40"
  shows "\<exists>k'. sys_fork L k = Some (global_PID k + 1, k') \<and> kinv L k' (fork_procs (mm k) s) \<and>
    global_PID k' = global_PID k + 1 \<and> cpu k' = cpu k \<and>
    (\<forall>x. PID (tasks k' x) = (if x = task_at L i then global_PID k + 1 else PID (tasks k x))) \<and>
    forked (mm k) (mm k') (pt_row L (p_run s)) (pt_row L i)"
proof -
  let ?t = "task_at L i" and ?s = "fork_procs (mm k) s"
  note l = kinv_layout [OF inv] and sl = kinv_slots [OF inv] and fs = fork_procs_simps [OF free]
  have i: "i < 10" "i \<notin> alive s"
    using sl free slots_members(3) [OF sl, of i] by (auto simp: slots_ok_def alive_def)
  obtain k' where k': "sys_fork L k = Some (global_PID k + 1, k')"
      "queues L k' ((proc_queues L s)(freequeue L \<mapsto> map (task_at L) F, readyqueue L \<mapsto> map (task_at L) (p_ready s) @ [?t]))"
      "forked (mm k) (mm k') (pt_row L (p_run s)) (pt_row L i)" "dir_pages_baseAddr (tasks k' ?t) = dir_row L i"
      "fork_child L k k' (task_at L (p_run s)) ?t" "cpu k' = cpu k" "global_PID k' = global_PID k + 1"
      "idle_task k' = idle_task k" "tss k' = tss k" "\<forall>x. x \<noteq> ?t \<longrightarrow> tasks k' x = tasks k x"
    using sys_fork_success [OF kinv_can_fork [OF inv run free on]] by blast
  have "(proc_queues L s)(freequeue L \<mapsto> map (task_at L) F, readyqueue L \<mapsto> map (task_at L) (p_ready s) @ [?t])
      = proc_queues L ?s"
    using kinv_queue_lookup(3) [OF inv] by (simp add: proc_queues_def fs fun_eq_iff)
  then have q: "queues L k' (proc_queues L ?s)"
    using k'(2) by simp
  note fo = frames_ok_fork [OF inv free run k'(3)]
  have ne: "task_at L j \<noteq> ?t" if "j \<in> alive s" for j
    using kinv_task_inj [OF inv, of j i] slots_bound [OF sl, of j] i that by auto
  have st: "state (tasks k' ?t) = ST_READY" "PID (tasks k' ?t) = global_PID k + 1"
    using k'(5) by (simp_all add: fork_child_def)
  have same: "tasks k' (task_at L j) = tasks k (task_at L j)" if "j \<in> alive s" for j
    using k'(10) ne [OF that] by blast
  have rows: "table_rows L (mm k')"
  proof (rule table_rows_cong)
    show "table_rows L (mm k)"
      using inv by (simp add: kinv_def)
    show "pt_entry (mm k') (dir_row L j) 0 = pt_entry (mm k) (dir_row L j) 0" if "j < 10" for j
      using dir_row_not_pt_row [OF l that i(1)] by (intro fo(2) dir_row_aligned [OF l that]) simp_all
  qed
  have top: "pt_entry (mm k') (pt_row L j) p = 0" if "j < 10" "p \<in> {284..<1024}" for j p
  proof -
    have "pt_entry (mm k') (pt_row L j) p = pt_entry (mm k) (pt_row L j) p"
    proof (cases "j = i")
      case True
      then show ?thesis
        using k'(3) that(2) by (simp add: forked_def)
    next
      case False
      then show ?thesis
        using that pt_row_inj [OF l that(1) i(1)] by (intro fo(2) pt_row_aligned [OF l]) auto
    qed
    then show ?thesis
      using inv that by (simp add: kinv_def)
  qed
  have cr: "cr3 (mm k') = cr3 (mm k)" "cr0 (mm k') = cr0 (mm k)"
    using k'(3) by (simp_all add: forked_def)
  have "state (tasks k' (task_at L (p_run s))) = ST_RUN"
    "\<forall>j \<in> set (p_ready s). state (tasks k' (task_at L j)) = ST_READY"
    "\<forall>j \<in> alive s. dir_pages_baseAddr (tasks k' (task_at L j)) = dir_row L j"
    using inv same run_alive ready_alive by (simp_all add: kinv_def)
  then have "kinv L k' ?s"
    using inv q slots_fork [OF sl] k'(4,8,9) cr rows top st fo(1) unfolding kinv_def fs by simp
  moreover have "PID (tasks k' x) = (if x = ?t then global_PID k + 1 else PID (tasks k x))" for x
    using k'(10) st(2) by auto
  ultimately show ?thesis
    using k'(1,3,6,7) by blast
qed

lemma kinv_fork_full:
  assumes "kinv L k s" and "p_free s = []"
  shows "sys_fork L k = Some (- ENOMEM, below_esp k)" and "kinv L (below_esp k) s"
proof -
  show "sys_fork L k = Some (- ENOMEM, below_esp k)"
    using assms kinv_queue_lookup(1) [OF assms(1)]
    by (intro sys_fork_no_task [of L k "proc_queues L s"]) (simp_all add: kinv_def)
  show "kinv L (below_esp k) s"
    by (rule kinv_same_core [OF assms(1)]) (simp add: same_core_def below_esp_def)
qed

section \<open>Exit\<close>

text \<open>The task \<^verbatim>\<open>sched_next_rr\<close> takes: the first ready one, or idle.\<close>

definition first_ready :: "nat list \<Rightarrow> nat" where
  "first_ready R = (case R of [] \<Rightarrow> 0 | j # _ \<Rightarrow> j)"

definition exit_procs :: "procs \<Rightarrow> procs" where
  "exit_procs s = s\<lparr>p_run := first_ready (p_ready s), p_ready := tl (p_ready s), p_free := p_free s @ [p_run s]\<rparr>"

lemma exit_procs_simps [simp]:
  "p_run (exit_procs s) = first_ready (p_ready s)" "p_ready (exit_procs s) = tl (p_ready s)"
  "p_free (exit_procs s) = p_free s @ [p_run s]" "p_frames (exit_procs s) = p_frames s"
  by (simp_all add: exit_procs_def)

lemma alive_exit:
  assumes "slots_ok s" and "p_run s \<noteq> 0"
  shows "alive (exit_procs s) = alive s - {p_run s}" and "users (exit_procs s) = users s - {p_run s}"
    and "slots_ok (exit_procs s)"
proof -
  show a: "alive (exit_procs s) = alive s - {p_run s}"
    using slots_distinct [OF assms(1)] assms(2) by (cases "p_ready s") (auto simp: alive_def first_ready_def)
  then show "users (exit_procs s) = users s - {p_run s}"
    by (auto simp: users_def)
  have "distinct (p_run (exit_procs s) # p_ready (exit_procs s) @ p_free (exit_procs s))"
    using slots_distinct [OF assms(1)] assms(2) by (cases "p_ready s") (auto simp: first_ready_def)
  then show "slots_ok (exit_procs s)"
    using assms run_alive [of s] unfolding slots_ok_def a by auto
qed

lemma frames_ok_exit:
  assumes inv: "kinv L k s" and run: "p_run s \<noteq> 0"
    and av: "avail m' = avail (mm k) \<union> set (p_frames s (p_run s))"
    and e: "\<And>PT p. page_aligned PT \<Longrightarrow> PT \<noteq> pt_row L (p_run s) \<Longrightarrow> p < 1024 \<Longrightarrow>
      pt_entry m' PT p = pt_entry (mm k) PT p"
  shows "frames_ok L m' (exit_procs s)"
proof -
  let ?A = "p_run s"
  note l = kinv_layout [OF inv] and sl = kinv_slots [OF inv] and fo = kinv_frames_ok [OF inv]
  note us = alive_exit(2) [OF sl run]
  have A: "?A \<in> users s"
    using run by (simp add: users_def run_alive)
  note kA = kinv_users [OF inv A]
  have own: "distinct (p_frames s ?A)" "length (p_frames s ?A) = 20" "set (p_frames s ?A) \<subseteq> returnable"
    using good_space_owns [OF kA(1)] by (simp_all add: owns_def)
  have space: "good_space L m' (pt_row L j) boot_code (p_frames s j)" if "j \<in> users s - {?A}" for j
  proof (rule good_space_cong [OF kinv_users(1) [OF inv]])
    have j: "j < 10" "j \<noteq> ?A"
      using that slots_members(4) [OF sl] by auto
    show "pt_entry m' (pt_row L j) p = pt_entry (mm k) (pt_row L j) p" if "p < 1024" for p
      using that j pt_row_inj [OF l j(1) slots_members(1) [OF sl]]
      by (intro e pt_row_aligned [OF l]) simp_all
  qed (use that in simp)
  have "card (avail m') = card (avail (mm k)) + 20"
    using kA(2) own unfolding av by (subst card_Un_disjoint) (auto simp: distinct_card)
  moreover have "card (users s) = card (users (exit_procs s)) + 1"
    using card.remove [OF _ A] by (simp add: us)
  ultimately have "card (avail m') + 20 * card (users (exit_procs s)) = 376"
    using fo(3) by simp
  moreover have "set (p_frames s j) \<inter> (avail m' \<union> set boot_code) = {}" if "j \<in> users s - {?A}" for j
    using that kinv_users(2,3) [OF inv, of j] A unfolding av by blast
  moreover have "set boot_code \<inter> avail m' = {}" "avail m' \<subseteq> returnable"
    using kA(2) fo(1,2) own(3) unfolding av by blast+
  ultimately show ?thesis
    using space kinv_users(3) [OF inv] unfolding frames_ok_def us by simp
qed

lemma kinv_exit:
  assumes inv: "kinv L k s" and run: "p_run s \<noteq> 0" and on: "on_stack k (task_at L (p_run s)) 40"
  defines "k' \<equiv> sys_exit L k" and "A \<equiv> task_at L (p_run s)"
  shows "kinv L k' (exit_procs s)" and "avail (mm k') = avail (mm k) \<union> set (p_frames s (p_run s))"
    and "PID (tasks k' x) = (if x = A then -1 else PID (tasks k x))" and "global_PID k' = global_PID k"
    and "ram (mm k') = ram (mm k)"
    and "\<And>PT p. page_aligned PT \<Longrightarrow> PT \<noteq> pt_row L (p_run s) \<Longrightarrow> p < 1024 \<Longrightarrow>
      pt_entry (mm k') PT p = pt_entry (mm k) PT p"
proof -
  let ?i = "p_run s" and ?B = "task_at L (first_ready (p_ready s))"
  note l = kinv_layout [OF inv] and sl = kinv_slots [OF inv] and lk = kinv_queue_lookup [OF inv]
  note si = slots_members(1) [OF sl]
  have A: "?i \<in> users s"
    using run by (simp add: users_def run_alive)
  note own = good_space_owns [OF kinv_users(1) [OF inv A]]
  have qs: "queues L k (proc_queues L s)" and rows: "table_rows L (mm k)"
    and dir: "dir_pages_baseAddr (tasks k A) = dir_row L ?i" and idl: "idle_task k = task_at L 0"
    using inv by (simp_all add: kinv_def A_def run_alive)
  define k1 where "k1 = exit_release L k"
  note r = exit_release_effect [OF qs lk(1) on refl si kinv_not_queued [OF inv] rows dir [unfolded A_def] own,
      folded k1_def A_def]
  have upd: "(proc_queues L s)(freequeue L \<mapsto> map (task_at L) (p_free s) @ [A])
      = proc_queues L (s\<lparr>p_free := p_free s @ [?i]\<rparr>)"
    using proc_queues_upd(2) [OF lk(3), of s "p_free s @ [?i]"] by (simp add: A_def)
  have q1: "queues L k1 (proc_queues L (s\<lparr>p_free := p_free s @ [?i]\<rparr>))"
    using r(1) unfolding upd .
  have rd: "proc_queues L (s\<lparr>p_free := p_free s @ [?i]\<rparr>) (readyqueue L) = Some (map (task_at L) (p_ready s))"
    by (simp add: proc_queues_def)
  have on1: "on_stack k1 A 40"
    using on r(7) by (simp add: on_stack_def A_def)
  have k': "k' = sched_next_rr L k1"
    by (simp add: k'_def sys_exit_def k1_def)
  note e = sched_next_rr_effect [OF q1 rd on1, folded k']
  have B: "next_of (idle_task k1) (map (task_at L) (p_ready s)) = ?B"
    by (cases "p_ready s") (simp_all add: next_of_def first_ready_def r(9) idl)
  have Bal: "first_ready (p_ready s) \<in> alive s" "first_ready (p_ready s) \<noteq> ?i"
    using slots_distinct [OF sl] run by (cases "p_ready s"; auto simp: first_ready_def alive_def)+
  have tk: "dir_pages_baseAddr (tasks k1 x) = dir_pages_baseAddr (tasks k x)" "state (tasks k1 x) = state (tasks k x)" for x
    by (simp_all add: r(6))
  have "mm k' = set_cr3 (dir_pages_baseAddr (tasks k1 ?B)) (mm k1)"
    using e(3) unfolding B .
  moreover have dB: "dir_pages_baseAddr (tasks k ?B) = dir_row L (first_ready (p_ready s))"
    using inv Bal(1) unfolding kinv_def by blast
  ultimately have mm': "mm k' = set_cr3 (dir_row L (first_ready (p_ready s))) (mm k1)"
    by (simp add: tk)
  then have same: "pt_entry (mm k') = pt_entry (mm k1)" "avail (mm k') = avail (mm k1)"
    using pt_entry_pte_cong [of "mm k'" "mm k1"] avail_phys_cong [of "mm k'" "mm k1"]
    by (simp_all add: set_cr3_def)
  have ent: "pt_entry (mm k') PT p = (if PT = pt_row L ?i \<and> p \<in> {264..<284} then 0 else pt_entry (mm k) PT p)"
    if "page_aligned PT" "p < 1024" for PT p
    using r(3) [OF that] by (simp add: same)
  then show other: "pt_entry (mm k') PT p = pt_entry (mm k) PT p"
    if "page_aligned PT" "PT \<noteq> pt_row L ?i" "p < 1024" for PT p
    using that by simp
  show av: "avail (mm k') = avail (mm k) \<union> set (p_frames s ?i)"
    using r(2) same(2) by simp
  note fo = frames_ok_exit [OF inv run av other]
  have "(proc_queues L (s\<lparr>p_free := p_free s @ [?i]\<rparr>))(readyqueue L \<mapsto> tl (map (task_at L) (p_ready s)))
      = proc_queues L (exit_procs s)"
    using lk(3) by (simp add: proc_queues_def map_tl fun_eq_iff)
  then have q': "queues L k' (proc_queues L (exit_procs s))"
    using e(1) by simp
  have rows': "table_rows L (mm k')"
    using dir_row_not_pt_row [OF l _ si]
    by (intro table_rows_cong [OF rows] other dir_row_aligned [OF l]) simp_all
  have top: "pt_entry (mm k') (pt_row L j) p = 0" if "j < 10" "p \<in> {284..<1024}" for j p
    using ent [OF pt_row_aligned [OF l that(1)], of p] inv that by (auto simp: kinv_def)
  have st: "state (tasks k' x) = (if x = ?B then ST_RUN else state (tasks k x))" for x
    using e(5) [of x] B by (simp add: tk)
  have ready: "state (tasks k' (task_at L j)) = ST_READY" if j: "j \<in> set (tl (p_ready s))" for j
  proof -
    have jr: "j \<in> set (p_ready s)"
      using j by (cases "p_ready s") auto
    have "j \<noteq> first_ready (p_ready s)"
      using j slots_distinct [OF sl] by (cases "p_ready s") (auto simp: first_ready_def)
    then have "task_at L j \<noteq> ?B"
      using kinv_task_inj [OF inv slots_members(2) [OF sl jr], of "first_ready (p_ready s)"]
        slots_bound [OF sl, of "first_ready (p_ready s)"] Bal(1) by simp
    then show ?thesis
      using inv jr by (simp add: st kinv_def)
  qed
  have "\<forall>j \<in> alive (exit_procs s). dir_pages_baseAddr (tasks k' (task_at L j)) = dir_row L j"
    using inv alive_exit(1) [OF sl run] e(7) by (simp add: tk kinv_def)
  moreover have "cr3 (mm k') = dir_row L (first_ready (p_ready s))" "bit (cr0 (mm k')) 31"
    using inv r(5) by (simp_all add: mm' set_cr3_def kinv_def)
  moreover have "idle_task k' = task_at L 0" "tss_esp0 (tss k') = ?B + 4096"
    using e(2,11) B r(9) idl by simp_all
  ultimately show "kinv L k' (exit_procs s)"
    using q' alive_exit(3) [OF sl run] rows' top st ready fo unfolding kinv_def exit_procs_simps by simp
  show "PID (tasks k' x) = (if x = A then -1 else PID (tasks k x))" "global_PID k' = global_PID k"
    using e(6) [of x] e(12) r(6,10) by simp_all
  show "ram (mm k') = ram (mm k)"
    using r(4) by (simp add: mm' set_cr3_def)
qed

section \<open>Boot\<close>

definition boot_procs :: "nat list \<Rightarrow> procs" where
  "boot_procs fs = \<lparr>p_run = 1, p_ready = [], p_free = [2..<10], p_frames = (\<lambda>_. fs)\<rparr>"

lemma booted_kinv:
  assumes "booted L k"
  shows "\<exists>fs. kinv L k (boot_procs fs)"
proof -
  obtain fs where fs: "good_space L (mm k) (pt_row L 1) boot_code fs" "set fs \<inter> avail (mm k) = {}"
      "set boot_code \<inter> (set fs \<union> avail (mm k)) = {}"
    using assms unfolding booted_def by blast
  let ?s = "boot_procs fs"
  have us: "alive ?s = {0, 1}" "users ?s = {1}"
    by (auto simp: alive_def users_def boot_procs_def)
  have "{0, 1} \<union> {2..<10} = {..<10 :: nat}"
    by auto
  then have "slots_ok ?s"
    unfolding slots_ok_def us by (simp add: boot_procs_def del: upt_rec_numeral)
  moreover have "frames_ok L (mm k) ?s"
    using assms fs unfolding frames_ok_def us booted_def by (auto simp: boot_procs_def)
  moreover have "task_at L 2 = task_at L 1 + 4096"
    using task_at_Suc [of L 1] by (simp add: numeral_2_eq_2)
  ultimately have "kinv L k ?s"
    using assms us unfolding kinv_def booted_def running_def proc_queues_def
    by (simp add: boot_procs_def del: upt_rec_numeral)
  then show ?thesis ..
qed

end
