(* ===== verification/WriteSpec.thy ===== *)
theory WriteSpec
  imports Space
begin

text \<open>
  \<^verbatim>\<open>sys_write\<close> and \<^verbatim>\<open>sys_get_stats\<close> at the level of memory: which bytes they may change
  whatever the address space looks like, and what they do when their buffers are mapped.
\<close>

section \<open>Stores change only what they are told to\<close>

definition only_writes :: "translation \<Rightarrow> addr \<Rightarrow> nat \<Rightarrow> memory \<Rightarrow> memory \<Rightarrow> bool" where
  "only_writes tr q n m m' \<longleftrightarrow> (\<forall>x. (\<forall>k < n. tr (byte_at q k) \<noteq> Some x) \<longrightarrow> m' x = m x)"

lemma only_writes_refl [simp]: "only_writes tr q n m m"
  by (simp add: only_writes_def)

lemma only_writes_mono: "only_writes tr q n m m' \<Longrightarrow> n \<le> n' \<Longrightarrow> only_writes tr q n' m m'"
  unfolding only_writes_def by (meson order_less_le_trans)

lemma only_writes_shift:
  assumes "only_writes tr (byte_at q d) n m m'"
  shows "only_writes tr q (d + n) m m'"
  unfolding only_writes_def
proof (intro allI impI)
  fix x
  assume "\<forall>k < d + n. tr (byte_at q k) \<noteq> Some x"
  then have "\<forall>k < n. tr (byte_at (byte_at q d) k) \<noteq> Some x"
    by (simp add: byte_at_def add.assoc flip: of_nat_add)
  then show "m' x = m x"
    using assms by (simp add: only_writes_def)
qed

lemma only_writes_trans:
  "only_writes tr q n m m' \<Longrightarrow> only_writes tr q n m' m'' \<Longrightarrow> only_writes tr q n m m''"
  by (simp add: only_writes_def)

lemma store_byte_writes: "store_byte tr a v m = Some m' \<Longrightarrow> only_writes tr a 1 m m'"
  by (auto simp: store_byte_def only_writes_def split: bind_splits)

lemma store_byte_writes_at:
  assumes "store_byte tr (byte_at a d) v m = Some m'" and "d < n"
  shows "only_writes tr a n m m'"
  using only_writes_mono [OF only_writes_shift [OF store_byte_writes [OF assms(1)]], of n] assms(2) by simp

lemma store_dword_writes:
  assumes "store_dword tr a v m = Some m'"
  shows "only_writes tr a 4 m m'"
proof -
  obtain m1 m2 m3 where s: "store_byte tr (byte_at a 0) (byte_of 0 v) m = Some m1"
      "store_byte tr (byte_at a 1) (byte_of 1 v) m1 = Some m2"
      "store_byte tr (byte_at a 2) (byte_of 2 v) m2 = Some m3"
      "store_byte tr (byte_at a 3) (byte_of 3 v) m3 = Some m'"
    using assms by (auto simp: store_dword_def byte_at_def split: bind_splits)
  show ?thesis
    by (rule only_writes_trans [OF store_byte_writes_at [OF s(1)]
          only_writes_trans [OF store_byte_writes_at [OF s(2)]
            only_writes_trans [OF store_byte_writes_at [OF s(3)] store_byte_writes_at [OF s(4)]]]]) simp_all
qed

lemma copy_bytes_writes:
  "copy_bytes tr p q (int n) m = Some m' \<Longrightarrow> only_writes tr q n m m'"
proof (induction n arbitrary: p q m)
  case (Suc n)
  then obtain v m1 where s: "store_byte tr (byte_at q 0) v m = Some m1"
      "copy_bytes tr (p + 1) (byte_at q 1) (int n) m1 = Some m'"
    by (auto simp: copy_bytes.simps [of tr p q] byte_at_def split: bind_splits)
  show ?case
    using only_writes_trans [OF store_byte_writes_at [OF s(1), of "Suc n"]]
      only_writes_shift [OF Suc.IH [OF s(2)]] by simp
qed (simp add: copy_bytes.simps)

lemma copy_data_writes:
  "copy_data tr p q (int n) m = Some m' \<Longrightarrow> only_writes tr q n m m'"
proof (induction n arbitrary: p q m rule: less_induct)
  case (less n)
  show ?case
  proof (cases "n > 4")
    case False
    with less.prems show ?thesis
      by (simp add: copy_data_rec copy_bytes_writes)
  next
    case True
    define j where "j = n - 4"
    then have n: "n = 4 + j" "int n - 4 = int j"
      using True by auto
    obtain v m1 where s: "store_dword tr q v m = Some m1"
        "copy_data tr (p + 4) (byte_at q 4) (int j) m1 = Some m'"
      using less.prems True by (subst (asm) copy_data_rec) (auto simp: n(2) byte_at_def split: bind_splits)
    have "only_writes tr q n m1 m'"
      unfolding n(1) using n(1) by (intro only_writes_shift less.IH [OF _ s(2)]) simp
    moreover have "only_writes tr q n m m1"
      using True by (intro only_writes_mono [OF store_dword_writes [OF s(1)]]) simp
    ultimately show ?thesis
      by (rule only_writes_trans [rotated])
  qed
qed

lemma copy_from_user_writes:
  "copy_from_user tr p q (int n) m = Some (r, m') \<Longrightarrow> only_writes tr q n m m'"
  using copy_data_writes by (auto simp: copy_from_user_eq)

lemma store_dwords_writes:
  "store_dwords tr a vs m = Some m' \<Longrightarrow> only_writes tr a (4 * length vs) m m'"
proof (induction vs arbitrary: a m)
  case (Cons v vs)
  then obtain m1 where s: "store_dword tr a v m = Some m1" "store_dwords tr (byte_at a 4) vs m1 = Some m'"
    by (auto simp: byte_at_def split: bind_splits)
  show ?case
    using only_writes_trans [OF only_writes_mono [OF store_dword_writes [OF s(1)]]
        only_writes_shift [OF Cons.IH [OF s(2)]]] by simp
qed simp

section \<open>The memory effect of the two calls\<close>

lemma write_loop_writes:
  "sys_write_loop tr lb b n m c = Some (b', n', m', c') \<Longrightarrow> only_writes tr lb 512 m m' \<and> n' \<le> 512"
proof (induction tr lb b n m c rule: sys_write_loop.induct)
  case (1 tr lb b n m c)
  show ?case
  proof (cases "n > 512")
    case False
    with "1.prems" show ?thesis
      by (simp add: sys_write_loop.simps)
  next
    case True
    then obtain x m1 r c1 where s: "copy_from_user tr b lb 512 m = Some (x, m1)"
        "sys_write_console tr m1 lb 512 c = Some (r, c1)"
        "sys_write_loop tr lb (b + of_int r) (n - r) m1 c1 = Some (b', n', m', c')"
      using "1.prems" by (auto simp: sys_write_loop.simps [of tr lb b n] split: bind_splits)
    have "only_writes tr lb 512 m m1"
      using copy_from_user_writes [of tr b lb 512] s(1) by simp
    then show ?thesis
      using "1.IH" [OF True s(1) refl s(2) refl s(3)] only_writes_trans by blast
  qed
qed

lemma sys_write_effect:
  assumes "sys_write lb fd b n k = Some (v, k')"
  shows "\<exists>m c. k' = (upd_mm (ram_update (\<lambda>_. m)) k)\<lparr>tty := c\<rparr> \<and> only_writes (translate (mm k)) lb 512 (ram (mm k)) m"
proof -
  let ?tr = "translate (mm k)" and ?m0 = "ram (mm k)"
  have id: "(upd_mm (ram_update (\<lambda>_. ram (mm k))) k)\<lparr>tty := tty k\<rparr> = k"
    by (simp add: upd_mm_def)
  show ?thesis
  proof (cases "check_fd fd ESCRIPTURA \<noteq> 0 \<or> sint n < 0 \<or> \<not> access_ok VERIFY_READ b n")
    case True
    then have "k' = k"
      using assms by (auto simp: sys_write_def Let_def split: if_splits)
    then show ?thesis
      using id by (intro exI [of _ ?m0] exI [of _ "tty k"]) simp
  next
    case False
    then obtain b1 n1 m1 c1 where l: "sys_write_loop ?tr lb b (sint n) ?m0 (tty k) = Some (b1, n1, m1, c1)"
      and rest: "(if n1 > 0 then do {
           (_, m) \<leftarrow> copy_from_user ?tr b1 lb n1 m1;
           (ret, c) \<leftarrow> sys_write_console ?tr m lb n1 c1;
           Some (n1 - ret, m, c) } else Some (n1, m1, c1)) \<bind>
         (\<lambda>(bl, m, c). Some (n - of_int bl, (upd_mm (ram_update (\<lambda>_. m)) k)\<lparr>tty := c\<rparr>)) = Some (v, k')"
      using assms by (auto simp: sys_write_def Let_def split: bind_splits if_splits)
    note w = write_loop_writes [OF l]
    show ?thesis
    proof (cases "n1 > 0")
      case False
      then show ?thesis
        using rest w by auto
    next
      case True
      then obtain x m2 r c2 where cp: "copy_from_user ?tr b1 lb (int (nat n1)) m1 = Some (x, m2)"
          "sys_write_console ?tr m2 lb n1 c1 = Some (r, c2)"
        and k': "k' = (upd_mm (ram_update (\<lambda>_. m2)) k)\<lparr>tty := c2\<rparr>"
        using rest by (auto split: bind_splits)
      have "only_writes ?tr lb 512 m1 m2"
        using True w by (intro only_writes_mono [OF copy_from_user_writes [OF cp(1)]]) (simp add: nat_le_iff)
      then show ?thesis
        using w k' only_writes_trans by blast
    qed
  qed
qed

lemma get_stats_from_effect:
  "get_stats_from L i pid st k = Some (v, k') \<Longrightarrow>
   \<exists>m t s. k' = upd_mm (ram_update (\<lambda>_. m)) (upd_task t (p_stats_update (\<lambda>_. s)) k) \<and>
     only_writes (translate (mm k)) st 28 (ram (mm k)) m"
proof (induction L i pid st k rule: get_stats_from.induct)
  case (1 L i pid st k)
  let ?t = "task_at L i"
  have id: "upd_mm (ram_update (\<lambda>_. ram (mm k))) (upd_task ?t (p_stats_update (\<lambda>_. p_stats (tasks k ?t))) k) = k"
    by (simp add: upd_mm_def upd_task_def)
  show ?case
  proof (cases "i < 10")
    case False
    then have "k' = k"
      using "1.prems" by (simp add: get_stats_from.simps)
    then show ?thesis
      using id by (intro exI [of _ "ram (mm k)"] exI [of _ ?t] exI [of _ "p_stats (tasks k ?t)"]) simp
  next
    case True
    show ?thesis
    proof (cases "PID (tasks k ?t) = pid")
      case False
      with True "1.prems" have "get_stats_from L (i + 1) pid st k = Some (v, k')"
        by (subst (asm) get_stats_from.simps) simp
      then show ?thesis
        using "1.IH" True False by blast
    next
      case pid: True
      let ?s = "remaining_ticks_update (\<lambda>_. remaining_quantum k) (p_stats (tasks k ?t))"
      have eq: "upd_task ?t (p_stats_update (remaining_ticks_update (\<lambda>_. remaining_quantum k))) k
          = upd_task ?t (p_stats_update (\<lambda>_. ?s)) k"
        by (rule kernel.equality) (simp_all add: upd_task_def fun_eq_iff)
      obtain m where m: "store_dwords (translate (mm k)) st (stats_dwords ?s) (ram (mm k)) = Some m"
          "k' = upd_mm (ram_update (\<lambda>_. m)) (upd_task ?t (p_stats_update (\<lambda>_. ?s)) k)"
        using "1.prems" True pid eq
        by (subst (asm) get_stats_from.simps) (auto simp: Let_def split: bind_splits)
      have "only_writes (translate (mm k)) st 28 (ram (mm k)) m"
        using store_dwords_writes [OF m(1)] by (simp add: stats_dwords_def)
      then show ?thesis
        using m(2) by blast
    qed
  qed
qed

lemma sys_get_stats_effect:
  assumes "sys_get_stats L pid st k = Some (v, k')"
  shows "k' = k \<or> access_ok VERIFY_WRITE st 28 \<and>
    (\<exists>m t s. k' = upd_mm (ram_update (\<lambda>_. m)) (upd_task t (p_stats_update (\<lambda>_. s)) k) \<and>
     only_writes (translate (mm k)) st 28 (ram (mm k)) m)"
  using assms get_stats_from_effect unfolding sys_get_stats_def by (auto split: if_splits)

section \<open>The write of a mapped buffer\<close>

text \<open>
  The user's buffer lies at the physical addresses \<open>S\<close>, the local one at \<open>D\<close>, and they do not
  overlap: each round of the loop copies 512 bytes and prints them.
\<close>

definition apart_buffers :: "(nat \<Rightarrow> addr) \<Rightarrow> nat \<Rightarrow> (nat \<Rightarrow> addr) \<Rightarrow> bool" where
  "apart_buffers S n D \<longleftrightarrow> inj_on D {..<512} \<and> S ` {..<n} \<inter> D ` {..<512} = {}"

lemma apart_buffers_apart:
  assumes "apart_buffers S n D" and "j \<le> n" and "j \<le> 512"
  shows "apart S D j"
proof -
  have "inj_on D {..<j}"
    using assms by (auto simp: apart_buffers_def intro: inj_on_subset)
  moreover have "S ` {..<j} \<subseteq> S ` {..<n}" "D ` {..<j} \<subseteq> D ` {..<512}"
    using assms(2,3) by (auto intro: image_mono)
  ultimately show ?thesis
    using assms(1) unfolding apart_def apart_buffers_def by blast
qed

lemma apart_buffers_src: "apart_buffers S n D \<Longrightarrow> i < n \<Longrightarrow> S i \<notin> D ` {..<512}"
  by (auto simp: apart_buffers_def)

lemma bytes_at_cong: "(\<And>i. i < n \<Longrightarrow> m' (P' i) = m (P i)) \<Longrightarrow> bytes_at m' P' n = bytes_at m P n"
  by (simp add: bytes_at_def)

lemma bytes_at_add: "bytes_at m P (a + b) = bytes_at m P a @ bytes_at m (\<lambda>i. P (i + a)) b"
proof -
  have "[0..<a + b] = [0..<a] @ map (\<lambda>i. i + a) [0..<b]"
    by (induction b) (simp_all add: add.commute)
  then show ?thesis
    by (simp add: bytes_at_def)
qed

text \<open>One round: copy a chunk of at most 512 bytes and print it.\<close>

lemma write_chunk:
  assumes S: "mapped tr b n S" and D: "mapped tr lb 512 D" and ap: "apart_buffers S n D"
    and j: "j \<le> n" "j \<le> 512"
  shows "\<exists>m'. copy_from_user tr b lb (int j) m = Some (0, m') \<and>
    sys_write_console tr m' lb (int j) c = Some (int j, print_all (bytes_at m S j) c) \<and>
    (\<forall>x. x \<notin> D ` {..<512} \<longrightarrow> m' x = m x)"
proof -
  let ?m' = "blit S D j m"
  note apj = apart_buffers_apart [OF ap j]
  have "copy_from_user tr b lb (int j) m = Some (0, ?m')"
    using copy_data_blit [OF mapped_less [OF S j(1)] mapped_less [OF D j(2)] apj]
    by (simp add: copy_from_user_eq)
  moreover have "bytes_at ?m' D j = bytes_at m S j"
    using blit_dst [OF apj] by (intro bytes_at_cong) simp
  then have "sys_write_console tr ?m' lb (int j) c = Some (int j, print_all (bytes_at m S j) c)"
    using sys_write_console_mapped [OF mapped_less [OF D j(2)]] by simp
  moreover have "?m' x = m x" if "x \<notin> D ` {..<512}" for x
    using that j(2) by (intro blit_other) auto
  ultimately show ?thesis
    by blast
qed

lemma write_loop_mapped:
  assumes "mapped tr b n S" and "mapped tr lb 512 D" and "apart_buffers S n D"
  shows "\<exists>d r m'. sys_write_loop tr lb b (int n) m c =
      Some (byte_at b d, int r, m', print_all (bytes_at m S d) c) \<and> d + r = n \<and> r \<le> 512 \<and>
      (\<forall>x. x \<notin> D ` {..<512} \<longrightarrow> m' x = m x)"
  using assms
proof (induction n arbitrary: b S m c rule: less_induct)
  case (less n)
  show ?case
  proof (cases "n > 512")
    case False
    then show ?thesis
      by (intro exI [of _ 0] exI [of _ n] exI [of _ m]) (simp add: sys_write_loop.simps bytes_at_def)
  next
    case True
    define j where "j = n - 512"
    then have n: "n = j + 512" "j < n"
      using True by auto
    obtain m1 where m1: "copy_from_user tr b lb 512 m = Some (0, m1)"
        "sys_write_console tr m1 lb 512 c = Some (512, print_all (bytes_at m S 512) c)"
        "\<forall>x. x \<notin> D ` {..<512} \<longrightarrow> m1 x = m x"
      using write_chunk [OF less.prems, of 512 m c] True by auto
    have eq: "sys_write_loop tr lb b (int n) m c =
        sys_write_loop tr lb (byte_at b 512) (int j) m1 (print_all (bytes_at m S 512) c)"
      using True m1(1,2) by (subst sys_write_loop.simps) (simp add: j_def byte_at_def of_nat_diff)
    have "mapped tr (byte_at b 512) j (\<lambda>i. S (i + 512))"
      by (rule mapped_shift) (use less.prems(1) n(1) in simp)
    moreover have "(\<lambda>i. S (i + 512)) ` {..<j} \<subseteq> S ` {..<n}"
      using n(1) by auto
    then have "apart_buffers (\<lambda>i. S (i + 512)) j D"
      using less.prems(3) unfolding apart_buffers_def by blast
    ultimately obtain d r m2 where r: "sys_write_loop tr lb (byte_at b 512) (int j) m1 (print_all (bytes_at m S 512) c) =
        Some (byte_at (byte_at b 512) d, int r, m2, print_all (bytes_at m1 (\<lambda>i. S (i + 512)) d) (print_all (bytes_at m S 512) c))"
        "d + r = j" "r \<le> 512" "\<forall>x. x \<notin> D ` {..<512} \<longrightarrow> m2 x = m1 x"
      using less.IH [OF n(2) _ less.prems(2)] by blast
    have "S (i + 512) \<notin> D ` {..<512}" if "i < d" for i
      using that r(2) n(1) by (intro apart_buffers_src [OF less.prems(3)]) simp
    then have "bytes_at m1 (\<lambda>i. S (i + 512)) d = bytes_at m (\<lambda>i. S (i + 512)) d"
      using m1(3) by (intro bytes_at_cong) simp
    then have "print_all (bytes_at m1 (\<lambda>i. S (i + 512)) d) (print_all (bytes_at m S 512) c)
        = print_all (bytes_at m S (512 + d)) c"
      by (simp add: bytes_at_add print_all_append)
    moreover have "byte_at (byte_at b 512) d = byte_at b (512 + d)"
      by (simp add: byte_at_def)
    ultimately show ?thesis
      using r eq n(1) m1(3) by (intro exI [of _ "512 + d"] exI [of _ r] exI [of _ m2]) simp
  qed
qed

lemma sys_write_mapped:
  assumes S: "mapped (translate (mm k)) b (unat n) S" and D: "mapped (translate (mm k)) lb 512 D"
    and ap: "apart_buffers S (unat n) D" and n: "unat n < 2 ^ 31" and ok: "access_ok VERIFY_READ b n"
  shows "\<exists>m. sys_write lb 1 b n k = Some (n, (upd_mm (ram_update (\<lambda>_. m)) k)\<lparr>tty := print_all (bytes_at (ram (mm k)) S (unat n)) (tty k)\<rparr>) \<and>
    (\<forall>x. x \<notin> D ` {..<512} \<longrightarrow> m x = ram (mm k) x)"
proof -
  let ?tr = "translate (mm k)" and ?m = "ram (mm k)"
  have sn: "sint n = int (unat n)"
    using n by (rule sint_small)
  obtain d r m1 where l: "sys_write_loop ?tr lb b (int (unat n)) ?m (tty k) =
      Some (byte_at b d, int r, m1, print_all (bytes_at ?m S d) (tty k))" "d + r = unat n" "r \<le> 512"
      "\<forall>x. x \<notin> D ` {..<512} \<longrightarrow> m1 x = ?m x"
    using write_loop_mapped [OF S D ap] by blast
  have S': "mapped ?tr (byte_at b d) r (\<lambda>i. S (i + d))"
    by (rule mapped_shift) (use S l(2) in \<open>simp add: add.commute\<close>)
  have "(\<lambda>i. S (i + d)) ` {..<r} \<subseteq> S ` {..<unat n}"
    using l(2) by auto
  then have ap': "apart_buffers (\<lambda>i. S (i + d)) r D"
    using ap unfolding apart_buffers_def by blast
  obtain m2 where m2: "copy_from_user ?tr (byte_at b d) lb (int r) m1 = Some (0, m2)"
      "sys_write_console ?tr m2 lb (int r) (print_all (bytes_at ?m S d) (tty k)) =
        Some (int r, print_all (bytes_at m1 (\<lambda>i. S (i + d)) r) (print_all (bytes_at ?m S d) (tty k)))"
      "\<forall>x. x \<notin> D ` {..<512} \<longrightarrow> m2 x = m1 x"
    using write_chunk [OF S' D ap' order_refl l(3)] by blast
  have "S (i + d) \<notin> D ` {..<512}" if "i < r" for i
    using that l(2) by (intro apart_buffers_src [OF ap]) simp
  then have "bytes_at m1 (\<lambda>i. S (i + d)) r = bytes_at ?m (\<lambda>i. S (i + d)) r"
    using l(4) by (intro bytes_at_cong) simp
  then have out: "print_all (bytes_at m1 (\<lambda>i. S (i + d)) r) (print_all (bytes_at ?m S d) (tty k))
      = print_all (bytes_at ?m S (unat n)) (tty k)"
    by (simp add: bytes_at_add print_all_append flip: l(2))
  have fd: "check_fd 1 ESCRIPTURA = 0"
    by (simp add: check_fd_def)
  show ?thesis
  proof (cases "r = 0")
    case True
    then show ?thesis
      using l ok sn out fd
      by (intro exI [of _ m1]) (simp add: sys_write_def bytes_at_def)
  next
    case False
    then show ?thesis
      using l m2 ok sn out fd
      by (intro exI [of _ m2]) (simp add: sys_write_def)
  qed
qed

end
