(* ===== verification/Reach.thy ===== *)
theory Reach
  imports Procs WriteSpec Traps
begin

text \<open>
  The kernel as a state machine.  Its events are the clock tick, the system calls, and what
  happens in between: the running program computes and the trap code moves registers.  Every
  event keeps the system invariant and acts on the abstract picture of the processes; a
  process's data frames change only while it runs.
\<close>

section \<open>Address translation in a process\<close>

lemma page_addr_of: "page_addr (unat a div 4096) (unat a mod 4096) = a"
proof (rule unsigned_word_eqI [where ?'a = nat])
  have "unat a div 4096 < 2 ^ 20"
    using unat_bound32 [of a] by (simp add: less_mult_imp_div_less)
  then show "unat (page_addr (unat a div 4096) (unat a mod 4096)) = unat a"
    by (subst unat_page_addr) simp_all
qed

definition phys :: "mm_state \<Rightarrow> addr \<Rightarrow> addr \<Rightarrow> addr" where
  "phys m PT a = page_addr (frame_of m PT (unat a div 4096)) (unat a mod 4096)"

lemma kinv_space: "kinv L k s \<Longrightarrow> space (mm k) (dir_row L (p_run s)) (pt_row L (p_run s))"
  using slots_members(1) [OF kinv_slots] by (intro space_row kinv_layout) (auto simp: kinv_def)

lemma kinv_translate:
  assumes "kinv L k s" and "unat a < 1024 * 4096"
  shows "translate (mm k) a = (if pte_present (pt_entry (mm k) (pt_row L (p_run s)) (unat a div 4096)) = 0 then None
     else Some (phys (mm k) (pt_row L (p_run s)) a))"
  using translate_page [OF kinv_space [OF assms(1)], of "unat a div 4096" "unat a mod 4096"] assms(2)
  by (simp add: page_addr_of phys_def frame_of_def)

text \<open>Which frame a page of a user process is: its number, a code frame, or one of its own.\<close>

lemma space_frame:
  assumes "good_space L m PT code fs" and "p < 284"
  shows "frame_of m PT p \<in> (if p < 256 then {p} else if p < 264 then {code ! (p - 256)} else set fs)"
proof (cases "p < 264")
  case True
  then show ?thesis
    using assms(1) unfolding good_space_def by (auto dest: spec [of _ "p - 256"])
next
  case False
  then show ?thesis
    using owns_frames [OF good_space_owns [OF assms(1)]] assms(2) by auto
qed

lemma space_unmapped:
  assumes "good_space L m PT code fs" and "284 \<le> p" and "p < 1024"
  shows "pte_present (pt_entry m PT p) = 0"
  using assms by (simp add: good_space_def pte_present_def)

lemma set_frames_phys_ne:
  assumes "f \<in> returnable" and "k < 4096" and "page_addr f k = page_addr f' k'" and "f' < 2 ^ 20" and "k' < 4096"
  shows "f' = f"
proof -
  have "f < 2 ^ 20"
    using assms(1) by (simp add: returnable_def)
  then show ?thesis
    using page_addr_inj [of f k f' k'] assms by simp
qed

text \<open>No address a user process can name, and no kernel address, is a byte of another's frame.\<close>

lemma others_frames_unreached:
  assumes inv: "kinv L k s" and run: "p_run s \<noteq> 0" and j: "j \<in> users s" "j \<noteq> p_run s"
    and f: "f \<in> set (p_frames s j)" "n < 4096" and a: "unat a < 1024 * 4096"
  shows "translate (mm k) a \<noteq> Some (page_addr f n)"
proof
  assume t: "translate (mm k) a = Some (page_addr f n)"
  let ?PT = "pt_row L (p_run s)" and ?p = "unat a div 4096"
  have r: "p_run s \<in> users s"
    using run by (simp add: users_def run_alive)
  note gs = kinv_users(1) [OF inv r]
  have pres: "pte_present (pt_entry (mm k) ?PT ?p) \<noteq> 0" and eq: "phys (mm k) ?PT a = page_addr f n"
    using t unfolding kinv_translate [OF inv a] by (simp_all split: if_splits)
  have "?p < 1024"
    using a by (simp add: less_mult_imp_div_less)
  with pres have p: "?p < 284"
    using space_unmapped [OF gs, of ?p] by (cases "?p < 284") simp_all
  have fr: "f \<in> returnable"
    using good_space_owns [OF kinv_users(1) [OF inv j(1)]] f(1) by (auto simp: owns_def)
  have pa: "page_addr f n = page_addr (frame_of (mm k) ?PT ?p) (unat a mod 4096)"
    using eq by (simp add: phys_def)
  have b1: "frame_of (mm k) ?PT ?p < 2 ^ 20"
    using frame_of_bound by simp
  have b2: "unat a mod 4096 < 4096"
    by (rule mod_less_divisor) simp
  have "frame_of (mm k) ?PT ?p = f"
    by (rule set_frames_phys_ne [OF fr f(2) pa b1 b2])
  with space_frame [OF gs p] have "f \<in> (if ?p < 256 then {?p} else if ?p < 264 then {boot_code ! (?p - 256)} else set (p_frames s (p_run s)))"
    by simp
  moreover have "f \<notin> set (p_frames s (p_run s))"
    using kinv_users(3) [OF inv j(1) r] j(2) f(1) by blast
  moreover have "256 < f"
    using fr by (simp add: returnable_def)
  moreover have "boot_code ! (?p - 256) \<in> set boot_code" if "?p < 264"
    using that by (intro nth_mem) (simp add: boot_code_def)
  ultimately show False
    using kinv_users(2) [OF inv j(1)] f(1) by (auto split: if_splits)
qed

section \<open>Events\<close>

datatype event = Moves | Tick | Call table_entry

text \<open>The task whose kernel stack the processor takes on the next trap.\<close>

definition on_cpu :: "kernel \<Rightarrow> addr" where
  "on_cpu k = tss_esp0 (tss k) - 4096"

text \<open>
  Between two traps the running program may change registers and its data pages, and the trap
  code its own stack, the statistics, the console and the clock.  A program that writes to
  other pages is left out: the child of a fork could write to kernel pages.
\<close>

definition moves :: "kernel \<Rightarrow> kernel \<Rightarrow> bool" where
  "moves k k' \<longleftrightarrow> same_core k k' \<and> (\<forall>t. register_esp (tasks k' t) = register_esp (tasks k t)) \<and>
     (\<forall>a. stack_page a \<noteq> on_cpu k \<longrightarrow> stack k' a = stack k a) \<and>
     (\<forall>a. ram (mm k') a \<noteq> ram (mm k) a \<longrightarrow> on_cpu k \<noteq> idle_task k \<and>
        (\<exists>p \<in> {264..<284}. \<exists>n < 4096. a = page_addr (frame_of (mm k) (get_PT (tasks k (on_cpu k)) (pte (mm k))) p) n))"

text \<open>A trap finds room on the kernel stack; the local buffer of \<^verbatim>\<open>sys_write\<close> lies in it.\<close>

definition trap_ok :: "externals \<Rightarrow> kernel \<Rightarrow> bool" where
  "trap_ok E k \<longleftrightarrow> on_stack k (on_cpu k) 40 \<and>
     (\<exists>n. n + 512 \<le> 4096 \<and> write_buffer E k = on_cpu k + of_nat n)"

inductive kstep :: "layout \<Rightarrow> externals \<Rightarrow> kernel \<Rightarrow> event \<Rightarrow> kernel \<Rightarrow> bool" for L E where
  kstep_moves: "moves k k' \<Longrightarrow> kstep L E k Moves k'"
| kstep_tick: "on_stack k (on_cpu k) 40 \<Longrightarrow> kstep L E k Tick (schedule L (rr_policy L) k)"
| kstep_call: "trap_ok E k \<Longrightarrow> on_cpu k \<noteq> idle_task k \<Longrightarrow> e \<noteq> T_read \<Longrightarrow> e \<noteq> T_set_sched_policy \<Longrightarrow>
    run_syscall L E e k = Inr (v, k') \<Longrightarrow> kstep L E k (Call e) k'"

inductive_cases kstep_movesE [elim!]: "kstep L E k Moves k'"
inductive_cases kstep_tickE [elim!]: "kstep L E k Tick k'"
inductive_cases kstep_callE: "kstep L E k (Call e) k'"
inductive_simps kstep_tick_simp: "kstep L E k Tick k'"

text \<open>What an event does to the abstract picture.\<close>

fun after :: "event \<Rightarrow> kernel \<Rightarrow> procs \<Rightarrow> procs" where
  "after Tick k s = tick_procs k s"
| "after (Call T_fork) k s = fork_procs (mm k) s"
| "after (Call T_exit) k s = exit_procs s"
| "after (Call T_yield) k s = next_turn s"
| "after _ k s = s"

lemma kinv_on_cpu: "kinv L k s \<Longrightarrow> on_cpu k = task_at L (p_run s)"
  by (simp add: kinv_def on_cpu_def)

lemma kinv_not_idle:
  assumes "kinv L k s"
  shows "on_cpu k \<noteq> idle_task k \<longleftrightarrow> p_run s \<noteq> 0"
  using kinv_task_inj [OF assms slots_members(1) [OF kinv_slots [OF assms]], of 0] assms
  by (simp add: kinv_on_cpu) (simp add: kinv_def)

lemma returned_Inr: "returned r = Inr (v, k') \<longleftrightarrow> (\<exists>x. r = Some (x, k') \<and> v = Some x)"
  by (auto simp: returned_def split: option.splits)

lemma same_core_mem [simp]: "same_core k (upd_mm (ram_update f) k)" "same_core k k"
  by (simp_all add: same_core_def)

lemma write_core:
  assumes "sys_write lb fd b n k = Some (v, k')"
  shows "same_core k k'"
  using sys_write_effect [OF assms] by (auto simp: same_core_def)

lemma stats_core:
  assumes "sys_get_stats L pid st k = Some (v, k')"
  shows "same_core k k'"
  using sys_get_stats_effect [OF assms] by (auto simp: same_core_def)

text \<open>The calls that leave the processes as they are.\<close>

lemma call_same_core:
  assumes "run_syscall L E e k = Inr (v, k')" and "e \<notin> {T_fork, T_exit, T_yield, T_read, T_set_sched_policy}"
  shows "same_core k k'"
  using assms by (cases e) (auto simp: returned_Inr intro: write_core stats_core)

lemma kstep_kinv:
  assumes inv: "kinv L k s" and st: "kstep L E k ev k'"
  shows "kinv L k' (after ev k s)"
  using st
proof cases
  case kstep_moves
  then show ?thesis
    using kinv_same_core [OF inv] by (simp add: moves_def)
next
  case kstep_tick
  then show ?thesis
    using kinv_tick(1) [OF inv] by (simp add: kinv_on_cpu [OF inv])
next
  case (kstep_call e v)
  have on: "on_stack k (task_at L (p_run s)) 40"
    using kstep_call(2) by (simp add: trap_ok_def kinv_on_cpu [OF inv])
  have run: "p_run s \<noteq> 0"
    using kstep_call(3) kinv_not_idle [OF inv] by simp
  consider "e = T_fork" | "e = T_exit" | "e = T_yield" | "e \<notin> {T_fork, T_exit, T_yield, T_read, T_set_sched_policy}"
    using kstep_call(4,5) by auto
  then show ?thesis
  proof cases
    case 1
    then obtain x where x: "sys_fork L k = Some (x, k')"
      using kstep_call(6) by (auto simp: returned_Inr)
    show ?thesis
    proof (cases "p_free s")
      case Nil
      then show ?thesis
        using kinv_fork_full [OF inv Nil] x kstep_call(1) 1 by (simp add: fork_procs_def)
    next
      case (Cons i F)
      then show ?thesis
        using kinv_fork [OF inv run Cons on] x kstep_call(1) 1 by auto
    qed
  next
    case 2
    then show ?thesis
      using kinv_exit(1) [OF inv run on] kstep_call(1,6) by simp
  next
    case 3
    then show ?thesis
      using kinv_give_up(1) [OF inv on] kstep_call(1,6)
      by (simp add: sys_yield_def force_task_switch_def give_up_def Let_def)
  next
    case 4
    have "after ev k s = s"
      using 4 kstep_call(1) by (cases e) simp_all
    then show ?thesis
      using kinv_same_core [OF inv call_same_core [OF kstep_call(6) 4]] by simp
  qed
qed

section \<open>The memory of the processes that do not run\<close>

lemma unat_byte_at: "unat a + n < 2 ^ 32 \<Longrightarrow> unat (byte_at a n) = unat a + n"
  unfolding byte_at_def by (rule unat_add_small)

lemma kernel_stack_addr:
  assumes "layout_ok L" and "i < 10" and "n + d < 4096"
  shows "unat (byte_at (task_at L i + of_nat n) d) = unat (task_at L i) + n + d"
    and "unat (task_at L i) + n + d < 1024 * 4096"
proof -
  have b: "unat (task_at L i) + 4096 < 0x100000"
    using layout_task_bound [OF assms(1)] unat_task_at [OF assms(1), of i] assms(2) by simp
  then show "unat (task_at L i) + n + d < 1024 * 4096"
    using assms(3) by simp
  have "byte_at (task_at L i + of_nat n) d = byte_at (task_at L i) (n + d)"
    by (simp add: byte_at_def)
  then show "unat (byte_at (task_at L i + of_nat n) d) = unat (task_at L i) + n + d"
    using unat_byte_at [of "task_at L i" "n + d"] b assms(3) by simp
qed

lemma only_writes_others:
  assumes inv: "kinv L k s" and run: "p_run s \<noteq> 0" and j: "j \<in> users s" "j \<noteq> p_run s"
    and f: "f \<in> set (p_frames s j)" "n < 4096"
    and w: "only_writes (translate (mm k)) q len (ram (mm k)) m"
    and low: "\<And>d. d < len \<Longrightarrow> unat (byte_at q d) < 1024 * 4096"
  shows "m (page_addr f n) = ram (mm k) (page_addr f n)"
  using w others_frames_unreached [OF inv run j f low] unfolding only_writes_def by blast

lemma call_others_memory:
  assumes inv: "kinv L k s" and run: "p_run s \<noteq> 0" and j: "j \<in> users s" "j \<noteq> p_run s"
    and f: "f \<in> set (p_frames s j)" "n < 4096"
    and ok: "trap_ok E k" and e: "e \<noteq> T_read" "e \<noteq> T_set_sched_policy" and r: "run_syscall L E e k = Inr (v, k')"
  shows "ram (mm k') (page_addr f n) = ram (mm k) (page_addr f n)"
proof -
  have on: "on_stack k (task_at L (p_run s)) 40"
    using ok by (simp add: trap_ok_def kinv_on_cpu [OF inv])
  note l = kinv_layout [OF inv] and si = slots_members(1) [OF kinv_slots [OF inv]]
  show ?thesis
  proof (cases e)
    case T_exit
    then show ?thesis
      using kinv_exit(5) [OF inv run on] r by simp
  next
    case T_yield
    then show ?thesis
      using kinv_give_up(5) [OF inv on] r by (simp add: sys_yield_def force_task_switch_def give_up_def Let_def)
  next
    case T_fork
    then obtain x where x: "sys_fork L k = Some (x, k')"
      using r by (auto simp: returned_Inr)
    show ?thesis
    proof (cases "p_free s")
      case Nil
      then show ?thesis
        using kinv_fork_full(1) [OF inv] x by (simp add: below_esp_def)
    next
      case (Cons i F)
      then obtain k'' where "sys_fork L k = Some (global_PID k + 1, k'')"
          and fk: "forked (mm k) (mm k'') (pt_row L (p_run s)) (pt_row L i)"
        using kinv_fork [OF inv run _ on] by blast
      then have k'': "k'' = k'"
        using x by simp
      have en: "20 \<le> card (avail (mm k))"
        using kinv_frames_left [OF inv] by simp
      have "page_addr f n \<noteq> page_addr g d" if "g \<in> set (next_frames 20 (mm k))" "d < 4096" for g d
      proof
        assume eq: "page_addr f n = page_addr g d"
        have g: "g \<in> avail (mm k)"
          using that next_frames_props(3) [OF en] by blast
        then have "g < 2 ^ 20"
          by (simp add: avail_def)
        moreover have "f \<in> returnable"
          using good_space_owns [OF kinv_users(1) [OF inv j(1)]] f(1) by (auto simp: owns_def)
        ultimately have "g = f"
          using set_frames_phys_ne [OF _ f(2) eq] that(2) by blast
        with g show False
          using kinv_users(2) [OF inv j(1)] f(1) by blast
      qed
      then show ?thesis
        using fk unfolding k'' forked_def by blast
    qed
  next
    case T_write
    then obtain x where x: "sys_write (write_buffer E k) (syscall_arg 0 k) (syscall_arg 1 k) (syscall_arg 2 k) k = Some (x, k')"
      using r by (auto simp: returned_Inr)
    obtain m c where m: "k' = (upd_mm (ram_update (\<lambda>_. m)) k)\<lparr>tty := c\<rparr>"
        "only_writes (translate (mm k)) (write_buffer E k) 512 (ram (mm k)) m"
      using sys_write_effect [OF x] by blast
    obtain q where q: "q + 512 \<le> 4096" "write_buffer E k = task_at L (p_run s) + of_nat q"
      using ok by (auto simp: trap_ok_def kinv_on_cpu [OF inv])
    have "unat (byte_at (write_buffer E k) d) < 1024 * 4096" if "d < 512" for d
      using kernel_stack_addr [OF l si, of q d] q that by simp
    from only_writes_others [OF inv run j f m(2) this] show ?thesis
      by (simp add: m(1))
  next
    case T_get_stats
    then obtain x where x: "sys_get_stats L (syscall_arg 0 k) (syscall_arg 1 k) k = Some (x, k')"
      using r by (auto simp: returned_Inr)
    show ?thesis
    proof (cases "k' = k")
      case False
      with sys_get_stats_effect [OF x] obtain m t z where ok: "access_ok VERIFY_WRITE (syscall_arg 1 k) 28"
          and k': "k' = upd_mm (ram_update (\<lambda>_. m)) (upd_task t (p_stats_update (\<lambda>_. z)) k)"
          and w: "only_writes (translate (mm k)) (syscall_arg 1 k) 28 (ram (mm k)) m"
        by blast
      have "unat (syscall_arg 1 k) + 28 < 0x11D000"
        using access_ok_bounds(3) [OF ok] by simp
      then have "unat (byte_at (syscall_arg 1 k) d) < 1024 * 4096" if "d < 28" for d
        using that unat_byte_at [of "syscall_arg 1 k" d] by simp
      from only_writes_others [OF inv run j f w this] show ?thesis
        by (simp add: k')
    qed simp
  qed (use r e in auto)
qed

lemma kstep_others_memory:
  assumes inv: "kinv L k s" and st: "kstep L E k ev k'" and j: "j \<in> users s" "j \<noteq> p_run s"
    and f: "f \<in> set (p_frames s j)" "n < 4096"
  shows "ram (mm k') (page_addr f n) = ram (mm k) (page_addr f n)"
  using st
proof cases
  case kstep_moves
  show ?thesis
  proof (rule ccontr)
    assume "ram (mm k') (page_addr f n) \<noteq> ram (mm k) (page_addr f n)"
    then obtain p d where run: "on_cpu k \<noteq> idle_task k" and p: "p \<in> {264..<284}" "d < 4096"
        "page_addr f n = page_addr (frame_of (mm k) (get_PT (tasks k (on_cpu k)) (pte (mm k))) p) d"
      using kstep_moves(2) unfolding moves_def by blast
    have r: "p_run s \<in> users s"
      using run kinv_not_idle [OF inv] by (simp add: users_def run_alive)
    have "get_PT (tasks k (on_cpu k)) (pte (mm k)) = pt_row L (p_run s)"
      using inv slots_members(1) [OF kinv_slots [OF inv]] run_alive [of s]
      by (intro get_PT_row) (auto simp: kinv_def kinv_on_cpu [OF inv])
    then have p': "page_addr f n = page_addr (frame_of (mm k) (pt_row L (p_run s)) p) d"
      using p(3) by simp
    have mem: "frame_of (mm k) (pt_row L (p_run s)) p \<in> set (p_frames s (p_run s))"
      using owns_frames [OF good_space_owns [OF kinv_users(1) [OF inv r]]] p(1) by blast
    have "f \<in> returnable"
      using good_space_owns [OF kinv_users(1) [OF inv j(1)]] f(1) by (auto simp: owns_def)
    moreover have "frame_of (mm k) (pt_row L (p_run s)) p < 2 ^ 20"
      using frame_of_bound by simp
    ultimately have "frame_of (mm k) (pt_row L (p_run s)) p = f"
      using set_frames_phys_ne [OF _ f(2) p' _ p(2)] by blast
    then show False
      using mem f(1) kinv_users(3) [OF inv j(1) r] j(2) by auto
  qed
next
  case kstep_tick
  then show ?thesis
    using kinv_tick(5) [OF inv] by (simp add: kinv_on_cpu [OF inv])
next
  case (kstep_call e v)
  then show ?thesis
    using call_others_memory [OF inv _ j f] kinv_not_idle [OF inv] by simp
qed

section \<open>Process identifiers\<close>

definition pids_ok :: "layout \<Rightarrow> kernel \<Rightarrow> procs \<Rightarrow> bool" where
  "pids_ok L k s \<longleftrightarrow> (\<forall>j \<in> set (p_free s). PID (tasks k (task_at L j)) = -1) \<and>
     inj_on (\<lambda>j. PID (tasks k (task_at L j))) (alive s) \<and>
     (\<forall>j \<in> alive s. unat (PID (tasks k (task_at L j))) \<le> unat (global_PID k))"

lemma pids_ok_same:
  assumes "pids_ok L k s" and "\<And>x. PID (tasks k' x) = PID (tasks k x)" and "global_PID k' = global_PID k"
    and "alive s' = alive s" and "p_free s' = p_free s"
  shows "pids_ok L k' s'"
  using assms by (simp add: pids_ok_def)

lemma pids_ok_fork:
  assumes inv: "kinv L k s" and ok: "pids_ok L k s" and free: "p_free s = i # F"
    and small: "unat (global_PID k) < 2 ^ 32 - 1" and g: "global_PID k' = global_PID k + 1"
    and pid: "\<forall>x. PID (tasks k' x) = (if x = task_at L i then global_PID k + 1 else PID (tasks k x))"
  shows "pids_ok L k' (fork_procs (mm k) s)"
proof -
  note sl = kinv_slots [OF inv] and fs = fork_procs_simps [OF free]
  have i: "i < 10" "i \<notin> alive s" "i \<notin> set F"
    using sl free slots_members(3) [OF sl, of i] by (auto simp: slots_ok_def alive_def)
  have ne: "task_at L j \<noteq> task_at L i" if "j \<in> alive s \<union> set F" for j
    using kinv_task_inj [OF inv, of j i] slots_bound [OF sl, of j] i that free by auto
  have u: "unat (global_PID k + 1) = unat (global_PID k) + 1"
    using small by (simp add: unat_word_ariths)
  have old: "PID (tasks k' (task_at L j)) = PID (tasks k (task_at L j))" if "j \<in> alive s \<union> set F" for j
    using pid ne [OF that] by simp
  have new: "PID (tasks k' (task_at L i)) = global_PID k + 1"
    using pid by simp
  have le: "unat (PID (tasks k (task_at L j))) \<le> unat (global_PID k)" if "j \<in> alive s" for j
    using ok that by (simp add: pids_ok_def)
  have fresh: "PID (tasks k' (task_at L j)) \<noteq> global_PID k + 1" if "j \<in> alive s" for j
    using le [OF that] u old [of j] that by auto
  have "inj_on (\<lambda>j. PID (tasks k' (task_at L j))) (alive s)"
    using ok old by (simp add: pids_ok_def inj_on_def)
  moreover have "PID (tasks k' (task_at L i)) \<notin> (\<lambda>j. PID (tasks k' (task_at L j))) ` (alive s - {i})"
    using fresh unfolding new by fastforce
  ultimately have "inj_on (\<lambda>j. PID (tasks k' (task_at L j))) (insert i (alive s))"
    unfolding inj_on_insert by blast
  moreover have "unat (PID (tasks k' (task_at L j))) \<le> unat (global_PID k')" if "j \<in> insert i (alive s)" for j
    using that le old new u g by fastforce
  moreover have "\<forall>j \<in> set F. PID (tasks k' (task_at L j)) = -1"
    using ok old free by (simp add: pids_ok_def)
  ultimately show ?thesis
    by (simp add: pids_ok_def fs)
qed

lemma kstep_pids:
  assumes inv: "kinv L k s" and ok: "pids_ok L k s" and st: "kstep L E k ev k'"
    and small: "unat (global_PID k) < 2 ^ 32 - 1"
  shows "pids_ok L k' (after ev k s)"
    and "unat (global_PID k') \<le> unat (global_PID k) + (if ev = Call T_fork then 1 else 0)"
proof -
  have "pids_ok L k' (after ev k s) \<and>
      unat (global_PID k') \<le> unat (global_PID k) + (if ev = Call T_fork then 1 else 0)"
    using st
  proof cases
    case kstep_moves
    then show ?thesis
      using pids_ok_same [OF ok] by (simp add: moves_def same_core_def)
  next
    case kstep_tick
    then show ?thesis
      using kinv_tick(2,3) [OF inv] pids_ok_same [OF ok, of k' "tick_procs k s"]
      by (simp add: kinv_on_cpu [OF inv] tick_procs_def)
  next
    case (kstep_call e v)
    have on: "on_stack k (task_at L (p_run s)) 40" and run: "p_run s \<noteq> 0"
      using kstep_call(2,3) kinv_not_idle [OF inv] by (simp_all add: trap_ok_def kinv_on_cpu [OF inv])
    consider "e = T_fork" | "e = T_exit" | "e = T_yield" | "e \<notin> {T_fork, T_exit, T_yield, T_read, T_set_sched_policy}"
      using kstep_call(4,5) by auto
    then show ?thesis
    proof cases
      case 1
      then obtain x where x: "sys_fork L k = Some (x, k')"
        using kstep_call(6) by (auto simp: returned_Inr)
      show ?thesis
      proof (cases "p_free s")
        case Nil
        then have "k' = below_esp k" "after ev k s = s"
          using kinv_fork_full(1) [OF inv] x kstep_call(1) 1 by (simp_all add: fork_procs_def)
        then show ?thesis
          using pids_ok_same [OF ok] by (simp add: below_esp_def)
      next
        case (Cons i F)
        obtain k'' where k'': "sys_fork L k = Some (global_PID k + 1, k'')" "global_PID k'' = global_PID k + 1"
            "\<forall>x. PID (tasks k'' x) = (if x = task_at L i then global_PID k + 1 else PID (tasks k x))"
          using kinv_fork [OF inv run Cons on] by blast
        then have "k'' = k'"
          using x by simp
        moreover have "unat (global_PID k + 1) \<le> unat (global_PID k) + 1"
          by (simp add: unat_word_ariths)
        ultimately show ?thesis
          using pids_ok_fork [OF inv ok Cons small k''(2,3)] k''(2) kstep_call(1) 1 by simp
      qed
    next
      case 2
      note ex = kinv_exit [OF inv run on]
      have k': "k' = sys_exit L k" and ev: "after ev k s = exit_procs s"
        using 2 kstep_call(1,6) by simp_all
      note sl = kinv_slots [OF inv]
      have ne: "task_at L j \<noteq> task_at L (p_run s)" if "j \<in> alive s - {p_run s} \<union> set (p_free s)" for j
        using kinv_task_inj [OF inv, of j "p_run s"] slots_bound [OF sl, of j] slots_members(1) [OF sl]
          slots_distinct(1) [OF sl] that by auto
      have "pids_ok L k' (exit_procs s)"
        using ok ex(3,4) ne unfolding k' pids_ok_def alive_exit(1) [OF sl run]
        by (auto simp: inj_on_def)
      then show ?thesis
        using ex(4) ev k' by simp
    next
      case 3
      then have "k' = give_up L k" "after ev k s = next_turn s"
        using kstep_call(1,6) by (simp_all add: sys_yield_def force_task_switch_def give_up_def Let_def)
      then show ?thesis
        using kinv_give_up(2,3) [OF inv on] pids_ok_same [OF ok, of k' "next_turn s"] by simp
    next
      case 4
      have "after ev k s = s"
        using 4 kstep_call(1) by (cases e) simp_all
      then show ?thesis
        using pids_ok_same [OF ok, of k' s] call_same_core [OF kstep_call(6) 4] by (simp add: same_core_def)
    qed
  qed
  then show "pids_ok L k' (after ev k s)"
    "unat (global_PID k') \<le> unat (global_PID k) + (if ev = Call T_fork then 1 else 0)"
    by simp_all
qed

section \<open>Reachable states\<close>

inductive kreach :: "layout \<Rightarrow> externals \<Rightarrow> kernel \<Rightarrow> event list \<Rightarrow> kernel \<Rightarrow> bool" for L E k0 where
  kreach_boot: "kreach L E k0 [] k0"
| kreach_step: "kreach L E k0 evs k \<Longrightarrow> kstep L E k ev k' \<Longrightarrow> kreach L E k0 (evs @ [ev]) k'"

lemma kreach_kinv:
  assumes "kreach L E k0 evs k" and "booted L k0"
  shows "\<exists>s. kinv L k s"
  using assms(1)
proof induction
  case kreach_boot
  then show ?case
    using booted_kinv [OF assms(2)] by blast
next
  case (kreach_step evs k ev k')
  then show ?case
    using kstep_kinv by blast
qed

definition forks :: "event list \<Rightarrow> nat" where
  "forks evs = length (filter (\<lambda>ev. ev = Call T_fork) evs)"

lemma forks_simps [simp]: "forks [] = 0" "forks (evs @ [ev]) = forks evs + (if ev = Call T_fork then 1 else 0)"
  by (simp_all add: forks_def)

lemma booted_pids:
  assumes "booted L k" and "1 \<le> unat (global_PID k)"
  shows "pids_ok L k (boot_procs fs)"
proof -
  have al: "alive (boot_procs fs) = {0, 1}"
    by (auto simp: alive_def boot_procs_def)
  have "p_free (boot_procs fs) = [2..<10]"
    by (simp add: boot_procs_def del: upt_rec_numeral)
  then show ?thesis
    using assms unfolding pids_ok_def al booted_def by (simp add: inj_on_def del: upt_rec_numeral)
qed

lemma kreach_pids:
  assumes "kreach L E k0 evs k" and b: "booted L k0" and g: "global_PID k0 = 1000" and few: "forks evs < 2 ^ 32 - 1001"
  shows "\<exists>s. kinv L k s \<and> pids_ok L k s \<and> unat (global_PID k) \<le> 1000 + forks evs"
  using assms(1) few
proof induction
  case kreach_boot
  then show ?case
    using booted_kinv [OF b] booted_pids [OF b] g by auto
next
  case (kreach_step evs k ev k')
  then obtain s where s: "kinv L k s" "pids_ok L k s" "unat (global_PID k) \<le> 1000 + forks evs"
    by (auto split: if_splits)
  then have small: "unat (global_PID k) < 2 ^ 32 - 1"
    using kreach_step.prems by simp
  show ?case
    using kstep_kinv [OF s(1) kreach_step.hyps(2)] kstep_pids [OF s(1,2) kreach_step.hyps(2) small] s(3)
    by (intro exI [of _ "after ev k s"]) auto
qed

end
