(* ===== verification/SystemSpec.thy ===== *)
theory SystemSpec
  imports SchedSpec Reach
begin

text \<open>
  The properties of the kernel as a whole: what holds in every state it can reach from boot by
  ticks and system calls, with instances on the example machine.
\<close>

section \<open>A run of the example machine\<close>

lemma ex_trap_ok:
  assumes "on_stack k (task_at ex_layout i) 40" and "i < 10" and "on_cpu k = task_at ex_layout i"
  shows "trap_ok quiet_externals k"
  using assms current_on_stack [OF assms(1)]
  by (auto simp: trap_ok_def quiet_externals_def intro: exI [of _ 1024])

lemma ex_kernel_on_cpu: "on_cpu ex_kernel = task_at ex_layout 1" "on_cpu ex_kernel \<noteq> idle_task ex_kernel"
proof -
  have "task_at ex_layout 2 = task_at ex_layout 1 + 4096"
    using task_at_Suc [of ex_layout 1] by (simp add: numeral_2_eq_2)
  then show "on_cpu ex_kernel = task_at ex_layout 1"
    using ex_booted by (simp add: booted_def on_cpu_def)
  then show "on_cpu ex_kernel \<noteq> idle_task ex_kernel"
    using ex_booted task_at_inj [OF ex_layout_ok, of 1 0] by (simp add: booted_def)
qed

lemma ex_fork_step: "kstep ex_layout quiet_externals ex_kernel (Call T_fork) ex_forked"
proof (rule kstep_call [where v = "Some (global_PID ex_kernel + 1)"])
  show "trap_ok quiet_externals ex_kernel"
    using ex_trap_ok [OF ex_on_stack] ex_kernel_on_cpu(1) by simp
  show "run_syscall ex_layout quiet_externals T_fork ex_kernel = Inr (Some (global_PID ex_kernel + 1), ex_forked)"
    using ex_forked_facts(1) by (simp add: returned_def)
qed (use ex_kernel_on_cpu in simp_all)

lemma ex_forked_reach: "kreach ex_layout quiet_externals ex_kernel [Call T_fork] ex_forked"
  using kreach_step [OF kreach_boot ex_fork_step] by simp

lemma ex_kernel_kinv: "\<exists>fs. kinv ex_layout ex_kernel (boot_procs fs)"
  by (rule booted_kinv [OF ex_booted])

section \<open>The invariant\<close>

text \<open>
  C2: in every reachable state the task structures are the running one, the ready ones and the
  free ones, the processor uses the page directory and the kernel stack of the running task,
  each user process has twenty present data pages in frames that are neither available nor
  shared, all user processes have the same eight code frames, and no page above the data is
  mapped.
\<close>

theorem reachable_invariant:
  assumes "booted L k0" and "kreach L E k0 evs k"
  shows "\<exists>s. kinv L k s"
  using kreach_kinv [OF assms(2,1)] .

theorem reachable_invariant_witness: "\<exists>s. kinv ex_layout ex_forked s"
  by (rule reachable_invariant [OF ex_booted ex_forked_reach])

text \<open>
  C3: the kernel refines the abstract machine of processes.  A tick keeps the running process
  or makes it wait behind the others, a yield makes it wait, a fork appends a free task with
  twenty fresh frames to the ready ones, an exit appends the running task to the free ones and
  runs the first ready one, and the other calls and the code in between change nothing in the
  picture.
\<close>

theorem kernel_refines_processes:
  assumes "kinv L k s" and "kstep L E k ev k'"
  shows "kinv L k' (after ev k s)"
  using assms by (rule kstep_kinv)

theorem kernel_refines_processes_witness:
  "\<exists>fs. kinv ex_layout ex_forked (fork_procs (mm ex_kernel) (boot_procs fs))"
proof -
  obtain fs where "kinv ex_layout ex_kernel (boot_procs fs)"
    using ex_kernel_kinv by blast
  from kernel_refines_processes [OF this ex_fork_step] show ?thesis
    by auto
qed

section \<open>Isolation\<close>

lemma after_others:
  assumes "kinv L k s" and "kstep L E k ev k'" and "j \<in> users s" and "j \<noteq> p_run s"
  shows "j \<in> users (after ev k s) \<and> p_frames (after ev k s) j = p_frames s j"
  using assms(2)
proof cases
  case kstep_tick
  then show ?thesis
    using assms(3) by (simp add: tick_procs_def)
next
  case (kstep_call e v)
  have run: "p_run s \<noteq> 0"
    using kstep_call kinv_not_idle [OF assms(1)] by simp
  note sl = kinv_slots [OF assms(1)]
  show ?thesis
  proof (cases e)
    case T_fork
    show ?thesis
    proof (cases "p_free s")
      case (Cons i F)
      then have "j \<noteq> i"
        using assms(3) slots_distinct [OF sl] by (auto simp: users_def alive_def)
      then show ?thesis
        using T_fork kstep_call(1) assms(3) fork_procs_simps [OF Cons] by (simp add: users_def)
    qed (use T_fork kstep_call(1) assms(3) in \<open>simp add: fork_procs_def\<close>)
  qed (use kstep_call(1) assms(3,4) alive_exit(2) [OF sl run] in simp_all)
qed (use assms(3) in simp)

text \<open>
  C1: processes are isolated, as long as programs write only their own data pages.  Whatever event
  comes next in a reachable state, a user process that does not run keeps its frames, and no byte of them changes; a process that waits finds
  its data and its user stack as it left them.
\<close>

theorem process_isolation:
  assumes "booted L k0" and "kreach L E k0 evs k" and "kstep L E k ev k'"
  shows "\<exists>s s'. kinv L k s \<and> kinv L k' s' \<and>
    (\<forall>j \<in> users s - {p_run s}. j \<in> users s' \<and> p_frames s' j = p_frames s j \<and>
      (\<forall>f \<in> set (p_frames s j). \<forall>n < 4096. ram (mm k') (page_addr f n) = ram (mm k) (page_addr f n)))"
proof -
  obtain s where s: "kinv L k s"
    using kreach_kinv [OF assms(2,1)] by blast
  note s' = kstep_kinv [OF s assms(3)]
  show ?thesis
  proof (intro exI conjI ballI allI impI)
    fix j
    assume j: "j \<in> users s - {p_run s}"
    then show "j \<in> users (after ev k s)" "p_frames (after ev k s) j = p_frames s j"
      using after_others [OF s assms(3)] by simp_all
    show "ram (mm k') (page_addr f n) = ram (mm k) (page_addr f n)"
      if "f \<in> set (p_frames s j)" "n < 4096" for f n
      using kstep_others_memory [OF s assms(3) _ _ that] j by simp
  qed (rule s, rule s')
qed

theorem process_isolation_witness:
  "\<exists>s s'. kinv ex_layout ex_kernel s \<and> kinv ex_layout ex_forked s' \<and>
    (\<forall>j \<in> users s - {p_run s}. j \<in> users s')"
  using process_isolation [OF ex_booted kreach_boot ex_fork_step] by blast

section \<open>Frames\<close>

text \<open>
  C12: no frame is lost.  In every reachable state the number of frames \<^verbatim>\<open>alloc_frame\<close> can
  still hand out is 196 and twenty for each task in the free queue.
\<close>

theorem frames_accounted:
  assumes "booted L k0" and "kreach L E k0 evs k"
  shows "\<exists>F R. queues L k [freequeue L \<mapsto> F, readyqueue L \<mapsto> R] \<and>
    card (avail (mm k)) = 196 + 20 * length F"
proof -
  obtain s where s: "kinv L k s"
    using kreach_kinv [OF assms(2,1)] by blast
  then have "queues L k [freequeue L \<mapsto> map (task_at L) (p_free s), readyqueue L \<mapsto> map (task_at L) (p_ready s)]"
    by (simp add: kinv_def proc_queues_def)
  then show ?thesis
    using kinv_frames_left [OF s] by (metis length_map)
qed

theorem frames_accounted_witness:
  "\<exists>F :: addr list. card (avail (mm ex_forked)) = 196 + 20 * length F"
  using frames_accounted [OF ex_booted ex_forked_reach] by blast

text \<open>
  C15: so a fork never runs out of frames.  In a reachable state it fails only when no task
  structure is free, and then with -ENOMEM; otherwise it returns the next PID.
\<close>

theorem fork_fails_only_without_task:
  assumes "booted L k0" and "kreach L E k0 evs k" and "on_stack k (on_cpu k) 40" and "on_cpu k \<noteq> idle_task k"
  shows "\<exists>k'. sys_fork L k =
    Some (if list_empty (freequeue L) (lists k) then - ENOMEM else global_PID k + 1, k')"
proof -
  obtain s where s: "kinv L k s"
    using kreach_kinv [OF assms(2,1)] by blast
  have on: "on_stack k (task_at L (p_run s)) 40" and run: "p_run s \<noteq> 0"
    using assms(3,4) kinv_not_idle [OF s] by (simp_all add: kinv_on_cpu [OF s])
  have "queues L k (proc_queues L s)"
    using s by (simp add: kinv_def)
  from queues_empty [OF this kinv_queue_lookup(1) [OF s]]
  have e: "list_empty (freequeue L) (lists k) \<longleftrightarrow> p_free s = []"
    by simp
  show ?thesis
  proof (cases "p_free s")
    case Nil
    then show ?thesis
      using kinv_fork_full(1) [OF s Nil] e by simp
  next
    case (Cons i F)
    then show ?thesis
      using kinv_fork [OF s run Cons on] e by auto
  qed
qed

lemma ex_forked_cpu: "on_stack ex_forked (on_cpu ex_forked) 40" "on_cpu ex_forked \<noteq> idle_task ex_forked"
  using ex_forked_facts(3,7,9) ex_on_stack ex_kernel_on_cpu ex_booted
  by (simp_all add: on_stack_def on_cpu_def booted_def)

theorem fork_fails_only_without_task_witness:
  "\<exists>k'. sys_fork ex_layout ex_forked = Some (global_PID ex_forked + 1, k')"
proof -
  have "ex_queues(readyqueue ex_layout \<mapsto> [task_at ex_layout 2]) = ex_queues(readyqueue ex_layout \<mapsto> [task_at ex_layout 2])"
    ..
  moreover have "(ex_queues(readyqueue ex_layout \<mapsto> [task_at ex_layout 2])) (freequeue ex_layout)
      = Some (map (task_at ex_layout) [3..<10])"
    using ex_layout_ok by (simp add: ex_queues_def layout_ok_def)
  ultimately have "\<not> list_empty (freequeue ex_layout) (lists ex_forked)"
    using queues_empty [OF ex_forked_facts(2)] by (simp add: upt_conv_Cons)
  then show ?thesis
    using fork_fails_only_without_task [OF ex_booted ex_forked_reach ex_forked_cpu] by simp
qed

text \<open>
  C14: exit gives everything back.  The twenty data frames become available, the task goes to
  the end of the free queue with PID -1, and the first ready task, or idle, gets the processor
  with its own page directory; memory and the PIDs of the others stay.
\<close>

theorem exit_gives_back:
  assumes "kinv L k s" and "p_run s \<noteq> 0" and "on_stack k (task_at L (p_run s)) 40"
  defines "k' \<equiv> sys_exit L k" and "next_one \<equiv> case p_ready s of [] \<Rightarrow> 0 | j # _ \<Rightarrow> j"
  shows "avail (mm k') = avail (mm k) \<union> set (p_frames s (p_run s)) \<and>
    card (avail (mm k')) = card (avail (mm k)) + 20 \<and>
    queues L k' [freequeue L \<mapsto> map (task_at L) (p_free s @ [p_run s]), readyqueue L \<mapsto> map (task_at L) (tl (p_ready s))] \<and>
    on_cpu k' = task_at L next_one \<and> cr3 (mm k') = dir_row L next_one \<and> ram (mm k') = ram (mm k) \<and>
    (\<forall>t. PID (tasks k' t) = (if t = task_at L (p_run s) then -1 else PID (tasks k t)))"
proof -
  note ex = kinv_exit [OF assms(1-3), folded k'_def]
  have n: "next_one = first_ready (p_ready s)"
    by (simp add: next_one_def first_ready_def)
  have "queues L k' [freequeue L \<mapsto> map (task_at L) (p_free s @ [p_run s]), readyqueue L \<mapsto> map (task_at L) (tl (p_ready s))]"
    "cr3 (mm k') = dir_row L next_one"
    using ex(1) by (simp_all add: kinv_def proc_queues_def n)
  moreover have "card (avail (mm k')) = card (avail (mm k)) + 20"
    using kinv_frames_left [OF ex(1)] kinv_frames_left [OF assms(1)] by simp
  ultimately show ?thesis
    using ex(2,3,5) kinv_on_cpu [OF ex(1)] by (simp add: n)
qed

theorem exit_gives_back_witness:
  "on_cpu (sys_exit ex_layout ex_forked) = task_at ex_layout 2"
proof -
  obtain fs where "kinv ex_layout ex_kernel (boot_procs fs)"
    using ex_kernel_kinv by blast
  from kstep_kinv [OF this ex_fork_step]
  have inv: "kinv ex_layout ex_forked (fork_procs (mm ex_kernel) (boot_procs fs))" (is "kinv _ _ ?s")
    by simp
  have "p_free (boot_procs fs) = 2 # [3..<10]"
    by (simp add: boot_procs_def upt_rec [of 2] del: upt_rec_numeral)
  note f = fork_procs_simps [OF this, of "mm ex_kernel"]
  have s: "p_run ?s = 1" "p_ready ?s = [2]"
    using f(2,3) by (simp_all add: boot_procs_def)
  have "on_stack ex_forked (task_at ex_layout (p_run ?s)) 40"
    using ex_forked_cpu(1) ex_forked_facts(9) ex_kernel_on_cpu(1) unfolding s(1) by (simp add: on_cpu_def)
  from exit_gives_back [OF inv _ this] s show ?thesis
    by simp
qed

section \<open>Process identifiers\<close>

text \<open>
  C13: as long as fewer than 2 ^ 32 - 1001 forks happened, the tasks in use have pairwise
  different PIDs and the free ones PID -1, so a PID names at most one process.
\<close>

theorem pids_unique:
  assumes "booted L k0" and "global_PID k0 = 1000" and "kreach L E k0 evs k" and "forks evs < 2 ^ 32 - 1001"
  shows "\<exists>s. kinv L k s \<and> (\<forall>j \<in> set (p_free s). PID (tasks k (task_at L j)) = -1) \<and>
    (\<forall>i \<in> alive s. \<forall>j \<in> alive s. PID (tasks k (task_at L i)) = PID (tasks k (task_at L j)) \<longrightarrow> i = j)"
  using kreach_pids [OF assms(3,1,2,4)] unfolding pids_ok_def inj_on_def by blast

theorem pids_unique_witness:
  "\<exists>s. kinv ex_layout ex_forked s \<and> (\<forall>j \<in> set (p_free s). PID (tasks ex_forked (task_at ex_layout j)) = -1)"
proof -
  have "global_PID ex_kernel = 1000"
    using boot_tasks_global_PID [OF ex_quiet, of zero_kernel] by (simp add: ex_kernel_def zero_kernel_def)
  then show ?thesis
    using pids_unique [OF ex_booted _ ex_forked_reach] by (auto simp: forks_def)
qed

end
