(* ===== verification/CallSpec.thy ===== *)
theory CallSpec
  imports SystemSpec
begin

text \<open>
  The properties of the system calls that read and write user memory: \<^verbatim>\<open>access_ok\<close>,
  \<^verbatim>\<open>sys_write\<close> and \<^verbatim>\<open>sys_get_stats\<close> in the address space of a process.
\<close>

section \<open>The pointer check\<close>

text \<open>
  C19: for the sizes an \<^verbatim>\<open>int\<close> can have, \<^verbatim>\<open>access_ok\<close> accepts exactly the blocks that start in
  the user region and end before the end of the page after it, for reading and for writing
  alike: the missing \<^verbatim>\<open>break\<close> makes the code pages writable, and the comparison with \<^verbatim>\<open><=\<close>
  lets a block reach one page beyond the data.
\<close>

theorem access_ok_exact:
  assumes "unat sz < 2 ^ 31"
  shows "access_ok type a sz \<longleftrightarrow> 0x100000 \<le> unat a \<and> unat a + unat sz < 0x11D000"
  by (rule access_ok_range [OF assms])

theorem access_ok_exact_witness:
  "access_ok VERIFY_WRITE 0x100000 28 \<and> access_ok VERIFY_WRITE 0x11C000 28 \<and> \<not> access_ok VERIFY_READ 0xFFFFF 28"
  using access_ok_exact [of 28 VERIFY_WRITE "0x100000"] access_ok_exact [of 28 VERIFY_WRITE "0x11C000"]
    access_ok_exact [of 28 VERIFY_READ "0xFFFFF"] by simp

section \<open>Mapped buffers in a process\<close>

lemma user_page_mapped:
  assumes inv: "kinv L k s" and run: "p_run s \<noteq> 0" and a: "0x100000 \<le> unat a" "unat a < 0x11C000"
  shows "translate (mm k) a = Some (phys (mm k) (pt_row L (p_run s)) a)"
    and "256 \<le> frame_of (mm k) (pt_row L (p_run s)) (unat a div 4096)"
proof -
  let ?PT = "pt_row L (p_run s)" and ?p = "unat a div 4096"
  have r: "p_run s \<in> users s"
    using run by (simp add: users_def run_alive)
  note gs = kinv_users(1) [OF inv r]
  have "0x100000 div 4096 \<le> ?p"
    using a(1) by (rule div_le_mono)
  moreover have "?p < 284"
    using a(2) by (simp add: div_less_iff_less_mult)
  ultimately have p: "256 \<le> ?p" "?p < 284"
    by simp_all
  have "pte_present (pt_entry (mm k) ?PT ?p) = 1"
  proof (cases "?p < 264")
    case True
    then have "?p - 256 < 8" "256 + (?p - 256) = ?p"
      using p by linarith+
    then show ?thesis
      using gs unfolding good_space_def by metis
  next
    case False
    then show ?thesis
      using owns_frame(3) [OF good_space_owns [OF gs], of ?p] p by simp
  qed
  then show "translate (mm k) a = Some (phys (mm k) ?PT a)"
    using kinv_translate [OF inv, of a] a(2) by simp
  have "\<forall>c \<in> set boot_code. 256 \<le> c"
    by (auto simp: boot_code_def)
  moreover have "boot_code ! (?p - 256) \<in> set boot_code" if "?p < 264"
    using that p by (intro nth_mem) (simp add: boot_code_def)
  moreover have "\<forall>f \<in> set (p_frames s (p_run s)). 256 \<le> f"
    using good_space_owns [OF gs] by (auto simp: owns_def returnable_def)
  ultimately show "256 \<le> frame_of (mm k) ?PT ?p"
    using space_frame [OF gs p(2)] p(1) by (auto split: if_splits)
qed

lemma stack_page_mapped:
  assumes inv: "kinv L k s" and run: "p_run s \<noteq> 0" and n: "n < 4096"
  shows "translate (mm k) (task_at L (p_run s) + of_nat n) = Some (task_at L (p_run s) + of_nat n)"
    and "unat (task_at L (p_run s) + of_nat n) div 4096 < 256"
proof -
  let ?i = "p_run s" and ?PT = "pt_row L (p_run s)"
  let ?a = "task_at L ?i + of_nat n"
  let ?p = "unat ?a div 4096"
  note l = kinv_layout [OF inv] and si = slots_members(1) [OF kinv_slots [OF inv]]
  have r: "?i \<in> users s"
    using run by (simp add: users_def run_alive)
  note gs = kinv_users(1) [OF inv r]
  have b: "unat (protected_tasks L) + 12 * 4096 < 0x100000"
    by (rule layout_task_bound [OF l])
  have u: "unat ?a = unat (protected_tasks L) + 4096 * (?i + 1) + n"
    using kernel_stack_addr(1) [OF l si, of n 0] unat_task_at [OF l, of ?i] si n by simp
  have "4096 dvd unat (protected_tasks L)"
    using l by (simp add: layout_ok_def page_aligned_nat)
  then obtain g where g: "unat (protected_tasks L) = 4096 * g"
    by (elim dvdE)
  then have "unat ?a = 4096 * (g + ?i + 1) + n"
    unfolding u g by (simp add: algebra_simps)
  then have p: "?p = g + ?i + 1"
    using n by simp
  have gp: "unat (protected_tasks L) div 4096 = g"
    by (simp add: g)
  have lt: "?p < 256"
    using b g si unfolding p by simp
  then show "?p < 256" .
  have kp: "kernel_page L ?p"
    using lt si unfolding kernel_page_def guard_page_def gp p by auto
  have "pte_present (pt_entry (mm k) ?PT ?p) = 1" "frame_of (mm k) ?PT ?p = ?p"
    using gs kp lt unfolding good_space_def by blast+
  moreover have "unat ?a < 1024 * 4096"
    using lt by (simp add: div_less_iff_less_mult)
  ultimately show "translate (mm k) ?a = Some ?a"
    using kinv_translate [OF inv, of ?a] by (simp add: phys_def page_addr_of)
qed

text \<open>Different user addresses are different bytes of memory.\<close>

lemma frame_inj:
  assumes inv: "kinv L k s" and run: "p_run s \<noteq> 0" and p: "p \<in> {256..<284}" "q \<in> {256..<284}"
    and eq: "frame_of (mm k) (pt_row L (p_run s)) p = frame_of (mm k) (pt_row L (p_run s)) q"
  shows "p = q"
proof -
  let ?f = "frame_of (mm k) (pt_row L (p_run s))"
  have r: "p_run s \<in> users s"
    using run by (simp add: users_def run_alive)
  note gs = kinv_users(1,2) [OF inv r]
  have code: "?f x = boot_code ! (x - 256)" "boot_code ! (x - 256) \<in> set boot_code" if "x \<in> {256..<264}" for x
    using space_frame [OF gs(1), of x] that nth_mem [of "x - 256" boot_code] by (auto simp: boot_code_def)
  have own: "?f x = p_frames s (p_run s) ! (x - 264)" "p_frames s (p_run s) ! (x - 264) \<in> set (p_frames s (p_run s))"
    if "x \<in> {264..<284}" for x
    using owns_frame [OF good_space_owns [OF gs(1)] that] by simp_all
  have d: "distinct boot_code" "distinct (p_frames s (p_run s))" "length (p_frames s (p_run s)) = 20"
    using good_space_owns [OF gs(1)] by (simp_all add: boot_code_def owns_def distinct_map inj_on_def)
  have split: "x \<in> {256..<264} \<or> x \<in> {264..<284}" if "x \<in> {256..<284}" for x :: nat
    using that by auto
  have l8: "length boot_code = 8"
    by (simp add: boot_code_def)
  from split [OF p(1)] split [OF p(2)] show ?thesis
  proof (elim disjE)
    assume "p \<in> {256..<264}" "q \<in> {256..<264}"
    moreover from this have "p - 256 < 8" "q - 256 < 8"
      by auto
    moreover from calculation have "p - 256 = q - 256"
      using eq nth_eq_iff_index_eq [OF d(1), of "p - 256" "q - 256"] l8 by (simp add: code(1))
    ultimately show ?thesis
      by auto
  next
    assume "p \<in> {264..<284}" "q \<in> {264..<284}"
    moreover from this have "p - 264 < 20" "q - 264 < 20"
      by auto
    moreover from calculation have "p - 264 = q - 264"
      using eq nth_eq_iff_index_eq [OF d(2), of "p - 264" "q - 264"] d(3) by (simp add: own(1))
    ultimately show ?thesis
      by auto
  qed (use eq code own gs(2) in \<open>metis Int_iff Un_iff empty_iff\<close>)+
qed

lemma phys_inj:
  assumes inv: "kinv L k s" and run: "p_run s \<noteq> 0" and b: "0x100000 \<le> unat b" "unat b + n \<le> 0x11C000"
  shows "inj_on (\<lambda>i. phys (mm k) (pt_row L (p_run s)) (byte_at b i)) {..<n}"
proof (rule inj_onI)
  fix i j
  assume ij: "i \<in> {..<n}" "j \<in> {..<n}"
    and eq: "phys (mm k) (pt_row L (p_run s)) (byte_at b i) = phys (mm k) (pt_row L (p_run s)) (byte_at b j)"
  let ?f = "\<lambda>x. frame_of (mm k) (pt_row L (p_run s)) (unat x div 4096)"
  have m: "unat x mod 4096 < 4096" for x :: addr
    by (rule mod_less_divisor) simp
  have u: "unat (byte_at b x) = unat b + x" if "x < n" for x
    using that b(2) by (intro unat_byte_at) simp
  have pg: "unat (byte_at b x) div 4096 \<in> {256..<284}" if "x < n" for x
  proof -
    have "0x100000 div 4096 \<le> unat (byte_at b x) div 4096"
      using b(1) u [OF that] by (intro div_le_mono) simp
    moreover have "unat (byte_at b x) div 4096 < 284"
      using b(2) u [OF that] that by (simp add: div_less_iff_less_mult)
    ultimately show ?thesis by simp
  qed
  have fb: "?f x < 2 ^ 20" for x
    using frame_of_bound by simp
  have "?f (byte_at b i) = ?f (byte_at b j) \<and> unat (byte_at b i) mod 4096 = unat (byte_at b j) mod 4096"
    using eq page_addr_inj [OF fb m fb m] unfolding phys_def by blast
  moreover from this have "unat (byte_at b i) div 4096 = unat (byte_at b j) div 4096"
    using frame_inj [OF inv run pg pg] ij by simp
  ultimately have "unat (byte_at b i) = unat (byte_at b j)"
    by (metis div_mult_mod_eq)
  then show "i = j"
    using u ij by simp
qed

text \<open>A local buffer in the kernel stack and a user buffer: both mapped, and apart.\<close>

lemma call_buffers:
  assumes inv: "kinv L k s" and run: "p_run s \<noteq> 0"
    and b: "0x100000 \<le> unat b" "unat b + n \<le> 0x11C000" and q: "q + 512 \<le> 4096"
  defines "lb \<equiv> task_at L (p_run s) + of_nat q" and "S \<equiv> \<lambda>i. phys (mm k) (pt_row L (p_run s)) (byte_at b i)"
  shows "mapped (translate (mm k)) b n S" and "mapped (translate (mm k)) lb 512 (byte_at lb)"
    and "apart_buffers S n (byte_at lb)"
proof -
  have ub: "unat (byte_at b i) = unat b + i" if "i < n" for i
    using that b(2) by (intro unat_byte_at) simp
  then have rng: "0x100000 \<le> unat (byte_at b i)" "unat (byte_at b i) < 0x11C000" if "i < n" for i
    using that b by simp_all
  show "mapped (translate (mm k)) b n S"
    unfolding mapped_def S_def using user_page_mapped(1) [OF inv run rng] by blast
  have lbd: "byte_at lb d = task_at L (p_run s) + of_nat (q + d)" for d
    by (simp add: lb_def byte_at_def add.assoc)
  have low: "q + d < 4096" if "d < 512" for d
    using q that by simp
  show "mapped (translate (mm k)) lb 512 (byte_at lb)"
    unfolding mapped_def using stack_page_mapped(1) [OF inv run low] by (simp add: lbd)
  have "inj_on (byte_at lb) {..<512}"
    by (rule inj_onI) (simp add: byte_at_inj)
  moreover have "S i \<noteq> byte_at lb d" if "i < n" "d < 512" for i d
  proof
    assume eq: "S i = byte_at lb d"
    let ?a = "byte_at lb d" and ?f = "frame_of (mm k) (pt_row L (p_run s)) (unat (byte_at b i) div 4096)"
    have a: "unat ?a div 4096 < 256"
      using stack_page_mapped(2) [OF inv run low [OF that(2)]] by (simp add: lbd)
    have m: "unat x mod 4096 < 4096" for x :: addr
      by (rule mod_less_divisor) simp
    have "page_addr ?f (unat (byte_at b i) mod 4096) = page_addr (unat ?a div 4096) (unat ?a mod 4096)"
      using eq by (simp add: S_def phys_def page_addr_of)
    moreover have "unat ?a div 4096 < 2 ^ 20" "?f < 2 ^ 20"
      using a frame_of_bound by simp_all
    ultimately have "?f = unat ?a div 4096"
      using page_addr_inj [OF _ m _ m] by blast
    then show False
      using user_page_mapped(2) [OF inv run rng [OF that(1)]] a by simp
  qed
  ultimately show "apart_buffers S n (byte_at lb)"
    unfolding apart_buffers_def by fastforce
qed

lemma user_dword_mapped:
  assumes "kinv L k s" and "p_run s \<noteq> 0" and "0x100000 \<le> unat a" and "unat a + 4 \<le> 0x11C000"
  shows "mapped (translate (mm k)) a 4 (\<lambda>i. phys (mm k) (pt_row L (p_run s)) (byte_at a i))"
  by (rule call_buffers(1) [OF assms, of 0]) simp

section \<open>sys\_write\<close>

text \<open>
  A write of a buffer in the process's code or data pages never faults: it prints the
  bytes of the buffer, as the page table of the process maps them, one after the other on the
  console and on the debug port, returns their number, and disturbs nothing else the kernel
  keeps.
\<close>

theorem write_prints_buffer:
  assumes "kinv L k s" and "p_run s \<noteq> 0" and "0x100000 \<le> unat b" and "unat b + unat n \<le> 0x11C000"
    and "q + 512 \<le> 4096"
  shows "\<exists>k'. sys_write (task_at L (p_run s) + of_nat q) 1 b n k = Some (n, k') \<and> kinv L k' s \<and>
    (let bytes = map (\<lambda>i. ram (mm k) (phys (mm k) (pt_row L (p_run s)) (byte_at b i))) [0..<unat n]
     in tty k' = fold printc bytes (tty k) \<and> port_e9 (tty k') = port_e9 (tty k) @ bytes)"
proof -
  let ?lb = "task_at L (p_run s) + of_nat q" and ?S = "\<lambda>i. phys (mm k) (pt_row L (p_run s)) (byte_at b i)"
  have small: "unat n < 2 ^ 31"
    using assms(3,4) by simp
  have ok: "access_ok VERIFY_READ b n"
    using access_ok_range [OF small, of VERIFY_READ b] assms(3,4) by simp
  note bufs = call_buffers [OF assms]
  obtain m where m: "sys_write ?lb 1 b n k =
      Some (n, (upd_mm (ram_update (\<lambda>_. m)) k)\<lparr>tty := print_all (bytes_at (ram (mm k)) ?S (unat n)) (tty k)\<rparr>)"
    using sys_write_mapped [OF bufs small ok] by blast
  show ?thesis
    using m kinv_same_core [OF assms(1) write_core [OF m]] print_all_port [of "bytes_at (ram (mm k)) ?S (unat n)" "tty k"]
    by (simp add: Let_def bytes_at_def print_all_def)
qed

theorem write_prints_buffer_witness:
  "\<exists>k'. sys_write (task_at ex_layout 1 + 1024) 1 0x108000 600 ex_kernel = Some (600, k')"
proof -
  obtain fs where inv: "kinv ex_layout ex_kernel (boot_procs fs)"
    using ex_kernel_kinv by blast
  have "p_run (boot_procs fs) = 1"
    by (simp add: boot_procs_def)
  then show ?thesis
    using write_prints_buffer [OF inv, of "0x108000" 600 1024] by auto
qed

lemma copy_from_unmapped:
  assumes "tr b = None" and "0 < n"
  shows "copy_from_user tr b lb n m = None"
proof -
  have "load_byte tr m b = None" "load_dword tr m b = None" for m
    using assms(1) by (simp_all add: load_byte_def load_dword_def)
  then have "copy_data tr b lb n m = None"
    using assms(2) by (subst copy_data_rec) (simp add: copy_bytes.simps)
  then show ?thesis
    by (simp add: copy_from_user_eq)
qed

text \<open>
  C18: a buffer in the page after the data region passes the check, and the kernel then takes a
  page fault while it copies, instead of returning -EFAULT.
\<close>

theorem write_faults_beyond_data:
  assumes "kinv L k s" and "p_run s \<noteq> 0" and "0x11C000 \<le> unat b" and "unat b + unat n < 0x11D000" and "n \<noteq> 0"
  shows "access_ok VERIFY_READ b n \<and> sys_write lb 1 b n k = None"
proof -
  let ?PT = "pt_row L (p_run s)"
  have small: "unat n < 2 ^ 31"
    using assms(3,4) by simp
  have ok: "access_ok VERIFY_READ b n"
    using access_ok_range [OF small, of VERIFY_READ b] assms(3,4) by simp
  have r: "p_run s \<in> users s"
    using assms(2) by (simp add: users_def run_alive)
  have "284 \<le> unat b div 4096" "unat b div 4096 < 1024"
    using div_le_mono [of "0x11C000" "unat b" 4096] assms(3,4) by (simp_all add: div_less_iff_less_mult)
  then have "pte_present (pt_entry (mm k) ?PT (unat b div 4096)) = 0"
    by (rule space_unmapped [OF kinv_users(1) [OF assms(1) r]])
  then have un: "translate (mm k) b = None"
    using kinv_translate [OF assms(1), of b] assms(4) by simp
  have "0 < unat n"
    using assms(5) by (simp add: unat_gt_0)
  then have pos: "0 < sint n"
    unfolding sint_small [OF small] of_nat_0_less_iff .
  have fd: "check_fd 1 ESCRIPTURA = 0"
    by (simp add: check_fd_def)
  have cf: "copy_from_user (translate (mm k)) b lb i m = None" if "0 < i" for i m
    by (rule copy_from_unmapped) (use un that in simp_all)
  have "sys_write lb 1 b n k = None"
  proof (cases "sint n > 512")
    case True
    then show ?thesis
      using ok pos fd by (simp add: sys_write_def sys_write_loop.simps cf)
  next
    case False
    then show ?thesis
      using ok pos fd by (simp add: sys_write_def sys_write_loop.simps cf)
  qed
  with ok show ?thesis ..
qed

theorem write_faults_beyond_data_witness:
  "sys_write (task_at ex_layout 1 + 1024) 1 0x11C000 1 ex_kernel = None"
proof -
  obtain fs where inv: "kinv ex_layout ex_kernel (boot_procs fs)"
    using ex_kernel_kinv by blast
  have "p_run (boot_procs fs) = 1"
    by (simp add: boot_procs_def)
  then show ?thesis
    by (intro conjunct2 [OF write_faults_beyond_data [OF inv]]) simp_all
qed

end
