(* ===== verification/StatsSpec.thy ===== *)
theory StatsSpec
  imports CallSpec
begin

text \<open>
  \<^verbatim>\<open>sys_get_stats\<close>: the search for the process, the structure as the caller reads it back, and
  the error results.
\<close>

section \<open>Dwords in byte memory\<close>

lemma dword_of_bytes_of: "dword_of_bytes (byte_of 0 v) (byte_of 1 v) (byte_of 2 v) (byte_of 3 v) = v"
  unfolding byte_of_def dword_of_bytes_def
proof (rule bit_word_eqI)
  fix n
  assume "n < LENGTH(32)"
  then have "n < 8 \<or> 8 \<le> n \<and> n < 16 \<or> 16 \<le> n \<and> n < 24 \<or> 24 \<le> n \<and> n < 32"
    by auto
  then show "bit (ucast (ucast (drop_bit (8 * 0) v) :: byte) OR push_bit 8 (ucast (ucast (drop_bit (8 * 1) v) :: byte)) OR
      push_bit 16 (ucast (ucast (drop_bit (8 * 2) v) :: byte)) OR
      push_bit 24 (ucast (ucast (drop_bit (8 * 3) v) :: byte)) :: dword) n = bit v n"
    by (elim disjE) (auto simp: bit_simps)
qed

lemma load_byte_mapped: "mapped tr a n P \<Longrightarrow> d < n \<Longrightarrow> load_byte tr m (byte_at a d) = Some (m (P d))"
  by (simp add: mapped_def load_byte_def)

lemma store_byte_mapped: "mapped tr a n P \<Longrightarrow> d < n \<Longrightarrow> store_byte tr (byte_at a d) v m = Some (m(P d := v))"
  by (simp add: mapped_def store_byte_def)

lemma load_dword_mapped:
  assumes "mapped tr a 4 P"
  shows "load_dword tr m a = Some (dword_of_bytes (m (P 0)) (m (P 1)) (m (P 2)) (m (P 3)))"
  using load_byte_mapped [OF assms, of 0 m] load_byte_mapped [OF assms, of 1 m]
    load_byte_mapped [OF assms, of 2 m] load_byte_mapped [OF assms, of 3 m]
  by (simp add: load_dword_def byte_at_def)

lemma store_dword_mapped:
  assumes "mapped tr a 4 P"
  shows "store_dword tr a v m =
    Some (m(P 0 := byte_of 0 v, P 1 := byte_of 1 v, P 2 := byte_of 2 v, P 3 := byte_of 3 v))"
  using store_byte_mapped [OF assms, of 0 "byte_of 0 v"] store_byte_mapped [OF assms, of 1 "byte_of 1 v"]
    store_byte_mapped [OF assms, of 2 "byte_of 2 v"] store_byte_mapped [OF assms, of 3 "byte_of 3 v"]
  by (simp add: store_dword_def byte_at_def)

text \<open>What was stored dword by dword is read back, wherever the pages lie.\<close>

lemma store_dwords_read:
  "mapped tr a (4 * length vs) P \<Longrightarrow> inj_on P {..<4 * length vs} \<Longrightarrow>
   \<exists>m'. store_dwords tr a vs m = Some m' \<and>
     (\<forall>i < length vs. load_dword tr m' (dword_at a i) = Some (vs ! i)) \<and>
     (\<forall>x. x \<notin> P ` {..<4 * length vs} \<longrightarrow> m' x = m x)"
proof (induction vs arbitrary: a P m)
  case (Cons v vs)
  let ?m1 = "m(P 0 := byte_of 0 v, P 1 := byte_of 1 v, P 2 := byte_of 2 v, P 3 := byte_of 3 v)"
  let ?n = "4 * length vs" and ?P = "\<lambda>i. P (i + 4)"
  have len: "4 * length (v # vs) = ?n + 4"
    by simp
  have m4: "mapped tr a 4 P" and mr: "mapped tr (byte_at a 4) ?n ?P"
    using Cons.prems(1) mapped_shift [of tr a ?n 4 P] unfolding len by (auto intro: mapped_less)
  have inj: "P i = P j \<longleftrightarrow> i = j" if "i < ?n + 4" "j < ?n + 4" for i j
    using Cons.prems(2) that unfolding len by (auto simp: inj_on_def)
  have injr: "inj_on ?P {..<?n}"
    by (rule inj_onI) (simp add: inj)
  obtain m' where m': "store_dwords tr (byte_at a 4) vs ?m1 = Some m'"
      "\<forall>i < length vs. load_dword tr m' (dword_at (byte_at a 4) i) = Some (vs ! i)"
      "\<forall>x. x \<notin> ?P ` {..<?n} \<longrightarrow> m' x = ?m1 x"
    using Cons.IH [OF mr injr] by blast
  have keep: "m' (P d) = ?m1 (P d)" if "d < 4" for d
  proof -
    have "P d \<notin> ?P ` {..<?n}"
      using that by (auto simp: inj)
    then show ?thesis
      using m'(3) by blast
  qed
  have b: "?m1 (P 0) = byte_of 0 v" "?m1 (P 1) = byte_of 1 v" "?m1 (P 2) = byte_of 2 v" "?m1 (P 3) = byte_of 3 v"
    by (simp_all add: inj)
  have "load_dword tr m' a = Some v"
    using keep [of 0] keep [of 1] keep [of 2] keep [of 3] unfolding b
    by (simp add: load_dword_mapped [OF m4] dword_of_bytes_of del: One_nat_def)
  moreover have "dword_at (byte_at a 4) i = dword_at a (Suc i)" for i
    by (simp add: dword_at_def byte_at_def algebra_simps)
  ultimately have "\<forall>i < length (v # vs). load_dword tr m' (dword_at a i) = Some ((v # vs) ! i)"
    using m'(2) by (auto simp: nth_Cons split: nat.splits)
  moreover have "m' x = m x" if "x \<notin> P ` {..<?n + 4}" for x
  proof -
    have "x \<notin> ?P ` {..<?n}" "x \<noteq> P 0" "x \<noteq> P 1" "x \<noteq> P 2" "x \<noteq> P 3"
      using that by auto
    then show ?thesis
      using m'(3) by simp
  qed
  ultimately show ?case
    using m'(1) store_dword_mapped [OF m4] unfolding len by (intro exI [of _ m']) (simp add: byte_at_def)
qed simp

section \<open>The search\<close>

lemma get_stats_search:
  assumes "j < 10" and "i \<le> j" and "PID (tasks k (task_at L j)) = pid"
    and "\<And>i. i < j \<Longrightarrow> PID (tasks k (task_at L i)) \<noteq> pid"
  shows "get_stats_from L i pid st k = get_stats_from L j pid st k"
  using assms(2)
proof (induction "j - i" arbitrary: i)
  case (Suc d)
  then have "i < j"
    by simp
  then have "get_stats_from L i pid st k = get_stats_from L (i + 1) pid st k"
    using assms(1,4) by (subst get_stats_from.simps) simp
  then show ?case
    using Suc \<open>i < j\<close> by simp
qed simp

lemma get_stats_none:
  assumes "\<And>i. i < 10 \<Longrightarrow> PID (tasks k (task_at L i)) \<noteq> pid"
  shows "get_stats_from L i pid st k = Some (- ESRCH, k)"
proof (induction "10 - i" arbitrary: i)
  case (Suc d)
  then have "i < 10"
    by simp
  then have "get_stats_from L i pid st k = get_stats_from L (i + 1) pid st k"
    using assms by (subst get_stats_from.simps) simp
  then show ?case
    using Suc by simp
qed (simp add: get_stats_from.simps)

text \<open>
  C20: asked about a PID, get_stats fills the caller's structure, which lies in its pages, with
  the seven counters of the task that has the PID, the ticks left of the running quantum among
  them, and returns 0; reading the seven dwords back gives the counters.
\<close>

theorem get_stats_reads_back:
  assumes inv: "kinv L k s" and run: "p_run s \<noteq> 0" and j: "j < 10" "PID (tasks k (task_at L j)) = pid"
    and first: "\<forall>i < j. PID (tasks k (task_at L i)) \<noteq> pid" and pos: "0 \<le> sint pid"
    and st: "0x100000 \<le> unat st" "unat st + 28 \<le> 0x11C000"
  shows "\<exists>k'. sys_get_stats L pid st k = Some (0, k') \<and> kinv L k' s \<and>
    (let v = p_stats (tasks k (task_at L j)); r = \<lambda>i. load_dword (translate (mm k')) (ram (mm k')) (st + 4 * i)
     in r 0 = Some (user_ticks v) \<and> r 1 = Some (system_ticks v) \<and> r 2 = Some (blocked_ticks v) \<and>
        r 3 = Some (ready_ticks v) \<and> r 4 = Some (elapsed_total_ticks v) \<and> r 5 = Some (total_trans v) \<and>
        r 6 = Some (remaining_quantum k))"
proof -
  let ?t = "task_at L j" and ?tr = "translate (mm k)" and ?P = "\<lambda>i. phys (mm k) (pt_row L (p_run s)) (byte_at st i)"
  let ?v = "remaining_ticks_update (\<lambda>_. remaining_quantum k) (p_stats (tasks k ?t))"
  let ?k1 = "upd_task ?t (p_stats_update (remaining_ticks_update (\<lambda>_. remaining_quantum k))) k"
  have ok: "access_ok VERIFY_WRITE st 28"
    using access_ok_range [of 28 VERIFY_WRITE st] st by simp
  have q: "(0 :: nat) + 512 \<le> 4096"
    by simp
  have mp: "mapped ?tr st 28 ?P"
    by (rule call_buffers(1) [OF inv run st q])
  have inj: "inj_on ?P {..<28}"
    by (rule phys_inj [OF inv run st])
  obtain m where m: "store_dwords ?tr st (stats_dwords ?v) (ram (mm k)) = Some m"
      "\<forall>i < 7. load_dword ?tr m (dword_at st i) = Some (stats_dwords ?v ! i)"
    using store_dwords_read [of ?tr st "stats_dwords ?v" ?P "ram (mm k)"] mp inj
    by (auto simp: stats_dwords_def)
  let ?k' = "upd_mm (ram_update (\<lambda>_. m)) ?k1"
  have "get_stats_from L 0 pid st k = get_stats_from L j pid st k"
    using first by (intro get_stats_search [OF j(1) _ j(2)]) auto
  then have call: "sys_get_stats L pid st k = Some (0, ?k')"
    using ok pos j m(1) by (simp add: sys_get_stats_def get_stats_from.simps [of L j] Let_def)
  have tr: "translate (mm ?k') = ?tr"
    by (simp add: translate_def fun_eq_iff)
  have "load_dword ?tr m (st + 4 * of_nat i) = Some (stats_dwords ?v ! i)" if "i < 7" for i
    using m(2) that by (simp add: dword_at_def)
  from this [of 0] this [of 1] this [of 2] this [of 3] this [of 4] this [of 5] this [of 6]
  show ?thesis
    using call kinv_same_core [OF inv stats_core [OF call]] tr
    by (intro exI [of _ ?k']) (simp add: Let_def stats_dwords_def)
qed

theorem get_stats_reads_back_witness:
  "\<exists>k'. sys_get_stats ex_layout 1 0x11B000 ex_kernel = Some (0, k') \<and>
    load_dword (translate (mm k')) (ram (mm k')) 0x11B018 = Some (remaining_quantum ex_kernel)"
proof -
  obtain fs where inv: "kinv ex_layout ex_kernel (boot_procs fs)"
    using ex_kernel_kinv by blast
  have run: "p_run (boot_procs fs) \<noteq> 0"
    by (simp add: boot_procs_def)
  have pid: "PID (tasks ex_kernel (task_at ex_layout 1)) = 1" "PID (tasks ex_kernel (task_at ex_layout 0)) = 0"
    using ex_booted by (simp_all add: booted_def)
  show ?thesis
    using get_stats_reads_back [OF inv run _ pid(1), of "0x11B000"] pid(2) by (auto simp: Let_def)
qed

end
