(* ===== verification/BootMain.thy ===== *)
theory BootMain
  imports StatsSpec
begin

text \<open>
  \<^verbatim>\<open>main\<close> of system.c from the boot loader's state to the first instruction of user mode: it
  returns, with the tasks set up, the user's image in the pages of task 1 and the processor's
  registers loaded.
\<close>

section \<open>Kernel addresses in the new address space\<close>

text \<open>An address below 1 MiB, not in page 0 and not in a guard page, is mapped to itself.\<close>

definition kernel_addr :: "layout \<Rightarrow> addr \<Rightarrow> bool" where
  "kernel_addr L a \<longleftrightarrow> kernel_page L (unat a div 4096)"

lemma kernel_addr_mapped:
  assumes inv: "kinv L k s" and run: "p_run s \<noteq> 0" and a: "kernel_addr L a"
  shows "translate (mm k) a = Some a"
proof -
  let ?p = "unat a div 4096" and ?PT = "pt_row L (p_run s)"
  have "p_run s \<in> users s"
    using run by (simp add: users_def run_alive)
  note gs = kinv_users(1) [OF inv this]
  have lt: "?p < 256"
    using a by (simp add: kernel_addr_def kernel_page_def)
  have "pte_present (pt_entry (mm k) ?PT ?p) = 1" "frame_of (mm k) ?PT ?p = ?p"
    using gs a lt unfolding good_space_def kernel_addr_def by blast+
  moreover have "unat a < 1024 * 4096"
    using lt by (simp add: div_less_iff_less_mult)
  ultimately show ?thesis
    using kinv_translate [OF inv, of a] by (simp add: phys_def page_addr_of)
qed

definition kernel_block :: "layout \<Rightarrow> addr \<Rightarrow> nat \<Rightarrow> bool" where
  "kernel_block L a n \<longleftrightarrow> (\<forall>d < n. kernel_addr L (byte_at a d))"

lemma kernel_block_mapped:
  "kinv L k s \<Longrightarrow> p_run s \<noteq> 0 \<Longrightarrow> kernel_block L a n \<Longrightarrow> mapped (translate (mm k)) a n (byte_at a)"
  by (simp add: mapped_def kernel_block_def kernel_addr_mapped)

text \<open>The dword at a kernel address of the boot image.\<close>

definition image_dword :: "memory \<Rightarrow> addr \<Rightarrow> dword" where
  "image_dword m a = dword_of_bytes (m a) (m (a + 1)) (m (a + 2)) (m (a + 3))"

lemma load_image_dword:
  assumes "kinv L k s" and "p_run s \<noteq> 0" and "kernel_block L a 4"
  shows "load_dword (translate (mm k)) m a = Some (image_dword m a)"
  using load_dword_mapped [OF kernel_block_mapped [OF assms]]
  by (simp add: image_dword_def byte_at_def)

section \<open>The user's image\<close>

lemma kernel_user_apart:
  assumes inv: "kinv L k s" and run: "p_run s \<noteq> 0" and src: "kernel_block L a n"
    and dst: "0x100000 \<le> unat b" "unat b + n \<le> 0x11C000"
  shows "apart (byte_at a) (\<lambda>i. phys (mm k) (pt_row L (p_run s)) (byte_at b i)) n"
proof -
  have "byte_at a i \<noteq> phys (mm k) (pt_row L (p_run s)) (byte_at b j)" if "i < n" "j < n" for i j
  proof
    assume eq: "byte_at a i = phys (mm k) (pt_row L (p_run s)) (byte_at b j)"
    have ub: "unat (byte_at b j) = unat b + j"
      using that dst by (intro unat_byte_at) simp
    then have fr: "256 \<le> frame_of (mm k) (pt_row L (p_run s)) (unat (byte_at b j) div 4096)"
      using dst that by (intro user_page_mapped(2) [OF inv run]) simp_all
    have "unat (byte_at a i) div 4096 < 256"
      using src that by (simp add: kernel_block_def kernel_addr_def kernel_page_def)
    moreover have "unat (byte_at b j) mod 4096 < 4096"
      by (rule mod_less_divisor) simp
    then have "unat (byte_at a i) div 4096 = frame_of (mm k) (pt_row L (p_run s)) (unat (byte_at b j) div 4096)"
      unfolding eq phys_def using frame_of_bound by (subst unat_page_addr) simp_all
    ultimately show False
      using fr by simp
  qed
  then have "byte_at a ` {..<n} \<inter> (\<lambda>i. phys (mm k) (pt_row L (p_run s)) (byte_at b i)) ` {..<n} = {}"
    by fastforce
  then show ?thesis
    using phys_inj [OF inv run dst] by (simp add: apart_def)
qed

lemma user_image_copied:
  assumes inv: "kinv L k s" and run: "p_run s \<noteq> 0" and src: "kernel_block L a n" and n: "n \<le> 0x1C000"
  defines "D \<equiv> \<lambda>i. phys (mm k) (pt_row L (p_run s)) (byte_at 0x100000 i)"
  shows "\<exists>m. copy_data (translate (mm k)) a 0x100000 (int n) r = Some m \<and>
    (\<forall>i < n. m (D i) = r (byte_at a i)) \<and> (\<forall>x. x \<notin> D ` {..<n} \<longrightarrow> m x = r x)"
proof -
  have b: "0x100000 \<le> unat (0x100000 :: addr)" "unat (0x100000 :: addr) + n \<le> 0x11C000"
    using n by simp_all
  have q: "(0 :: nat) + 512 \<le> 4096"
    by simp
  have ap: "apart (byte_at a) D n"
    unfolding D_def by (rule kernel_user_apart [OF inv run src b])
  have "mapped (translate (mm k)) 0x100000 n D"
    unfolding D_def by (rule call_buffers(1) [OF inv run b q])
  from copy_data_blit [OF kernel_block_mapped [OF inv run src] this ap]
  show ?thesis
    using blit_dst [OF ap] blit_other [of _ D n] by blast
qed

section \<open>What the set-up leaves alone\<close>

lemma booted_cong:
  assumes b: "booted L k" and c: "same_core k k'" and q: "remaining_quantum k' = remaining_quantum k"
  shows "booted L k'"
proof -
  have e: "pt_entry (mm k') = pt_entry (mm k)" "avail (mm k') = avail (mm k)"
    using c pt_entry_pte_cong [of "mm k'" "mm k"] avail_phys_cong [of "mm k'" "mm k"]
    by (simp_all add: same_core_def)
  have "good_space L (mm k') PT code fs" if "good_space L (mm k) PT code fs" for PT code fs
    using good_space_cong [OF that] e(1) by simp
  moreover have "data_pages_ok (mm k') PT" if "data_pages_ok (mm k) PT" for PT
    using that e by (simp add: data_pages_ok_def frame_of_def get_frame_entry)
  moreover have "table_rows L (mm k')" if "table_rows L (mm k)"
    using that c e(1) table_rows_cong [of L "mm k" "mm k'"] by (simp add: same_core_def)
  ultimately show ?thesis
    using b c q e unfolding booted_def running_def same_core_def by (auto simp: queues_def)
qed

lemma ram_fold: "(\<And>i m. ram (f i m) = ram m) \<Longrightarrow> ram (fold f is m) = ram m"
  by (induction "is" arbitrary: m) simp_all

lemma boot_mm_ram: "ram (mm (boot_mm L k)) = ram (mm k)"
proof -
  have "ram (init_table L j m) = ram m" for j m
    by (simp add: init_table_def protect_page_def Let_def init_kernel_page_def ram_fold del: upt_rec_numeral)
  moreover have "ram (init_dir_entry L j m) = ram m" for j m
    by (simp add: init_dir_entry_def Let_def)
  ultimately show ?thesis
    by (simp add: boot_mm_def init_mm_def init_table_pages_def init_dir_pages_def set_cr3_def set_pe_flag_def
        Let_def case_prod_beta ram_fold del: upt_rec_numeral)
qed

lemma set_user_pages_ram: "ram (set_user_pages t m) = ram m"
  by (simp add: set_user_pages_def set_user_code_page_def set_user_data_page_def Let_def case_prod_beta ram_fold
      del: upt_rec_numeral)

lemma boot_tasks_ram:
  assumes "quiet_boot L E"
  shows "ram (mm (boot_tasks L E k)) = ram (mm k)"
proof -
  have con: "mm (ext_console_init E k) = mm k" for k
  proof -
    obtain h c where "ext_console_init E k = k\<lparr>lists := h, tty := c\<rparr>"
      using assms unfolding quiet_boot_def by blast
    then show ?thesis
      by simp
  qed
  have "mm (fold (init_free_task L) is k) = mm k" for "is" k
    by (induction "is" arbitrary: k) simp_all
  then have "mm (init_sched L (ext_init_sched_policy E) k) = mm k"
    using assms by (simp add: init_sched_def init_freequeue_def Let_def quiet_boot_def del: upt_rec_numeral)
  moreover have "mm (init_idle L k) = mm k" for k
    by (simp add: init_idle_def Let_def)
  moreover have "ram (mm (init_task1 L k)) = ram (mm k)" for k
    by (simp add: init_task1_def Let_def set_user_pages_ram set_cr3_def)
  ultimately show ?thesis
    by (simp add: boot_tasks_def Let_def con)
qed

section \<open>main\<close>

text \<open>The state before the user's image is moved.\<close>

definition before_move :: "layout \<Rightarrow> externals \<Rightarrow> boot_layout \<Rightarrow> machine \<Rightarrow> machine" where
  "before_move L E B m =
     (let m = set_eflags m;
          m = set_seg_regs KERNEL_DS KERNEL_DS (protected_tasks L + 4096 * 5) m;
          m = upd_kern (kprint ''Kernel Loaded!    '') m;
          m = boot_tables L E B m;
          m = upd_kern (boot_mm L) m
      in upd_kern (boot_tasks L E) m)"

lemma main_eq: "main L E B m = do {
    k \<leftarrow> move_user_image (kern (before_move L E B m));
    return_gate USER_DS USER_DS USER_ESP USER_CS L_USER_START
      (enable_int (upd_kern (kprint ''Entering user mode...'') ((before_move L E B m)\<lparr>kern := k\<rparr>))) }"
  by (simp add: main_def before_move_def Let_def)

lemma boot_tables_mm: "mm (kern (boot_tables L E B m)) = mm (kern m)"
  by (simp add: boot_tables_def setIdt_def setTSS_def setSysenter_def Let_def)

lemma before_move_facts:
  assumes "layout_ok L" and "quiet_boot L E"
  shows "booted L (kern (before_move L E B m))" and "ram (mm (kern (before_move L E B m))) = ram (mm (kern m))"
proof -
  obtain k0 where "kern (before_move L E B m) = boot_tasks L E (boot_mm L k0)" "ram (mm k0) = ram (mm (kern m))"
    by (simp add: before_move_def Let_def upd_kern_def boot_tables_mm kprint_def set_seg_regs_def set_eflags_def)
  then show "booted L (kern (before_move L E B m))" "ram (mm (kern (before_move L E B m))) = ram (mm (kern m))"
    using boot_tasks_booted [OF assms] boot_tasks_ram [OF assms(2)] boot_mm_ram by simp_all
qed

text \<open>
  \<open>boot_image L r sys usr\<close>: memory as the boot loader leaves it: the three words at the start of the
  kernel lie in ordinary kernel pages, the first two give the sizes, the user's image lies
  behind the system in ordinary kernel pages and fits below the last dword of the data pages.
\<close>

definition boot_image :: "layout \<Rightarrow> memory \<Rightarrow> dword \<Rightarrow> nat \<Rightarrow> bool" where
  "boot_image L r sys usr \<longleftrightarrow> kernel_block L 0x10000 12 \<and> image_dword r 0x10000 = sys \<and>
     image_dword r 0x10004 = of_nat usr \<and> usr \<le> 0x1BFFC \<and> kernel_block L (0x10000 + sys) usr"

lemma kernel_block_part: "kernel_block L a n \<Longrightarrow> d + k \<le> n \<Longrightarrow> kernel_block L (byte_at a d) k"
  by (simp add: kernel_block_def byte_at_def add.assoc flip: of_nat_add)

lemma image_moved:
  assumes inv: "kinv L k s" and run: "p_run s \<noteq> 0" and img: "boot_image L (ram (mm k)) sys usr"
  defines "D \<equiv> \<lambda>i. phys (mm k) (pt_row L (p_run s)) (byte_at 0x100000 i)"
  shows "\<exists>r. move_user_image k = Some (upd_mm (ram_update (\<lambda>_. r)) k) \<and>
    (\<forall>i < usr. r (D i) = ram (mm k) (byte_at (0x10000 + sys) i))"
proof -
  let ?tr = "translate (mm k)" and ?r = "ram (mm k)"
  note b = img [unfolded boot_image_def]
  have "kernel_block L (byte_at 0x10000 0) 4" "kernel_block L (byte_at 0x10000 4) 4"
    using b kernel_block_part [of L "0x10000" 12 0 4] kernel_block_part [of L "0x10000" 12 4 4] by simp_all
  then have l: "load_dword ?tr ?r 0x10000 = Some sys" "load_dword ?tr ?r 0x10004 = Some (of_nat usr)"
    using load_image_dword [OF inv run, of "0x10000" ?r] load_image_dword [OF inv run, of "0x10004" ?r] b
    by (simp_all add: byte_at_def)
  have "unat (of_nat usr :: dword) = usr"
    using b by (simp add: unat_of_nat)
  then have si: "sint (of_nat usr :: dword) = int usr"
    using b by (subst sint_small) simp_all
  have n: "usr \<le> 0x1C000"
    using b by simp
  obtain m where "copy_data ?tr (0x10000 + sys) 0x100000 (int usr) ?r = Some m"
      "\<forall>i < usr. m (D i) = ?r (byte_at (0x10000 + sys) i)"
    using user_image_copied [OF inv run _ n, of "0x10000 + sys" ?r] b unfolding D_def by blast
  then show ?thesis
    by (intro exI [of _ m]) (simp add: move_user_image_def l si Let_def)
qed

text \<open>The dword \<^verbatim>\<open>return_gate\<close> stores on top of the user's stack, above the image.\<close>

lemma gate_returns:
  assumes inv: "kinv L (kern m) s" and run: "p_run s \<noteq> 0" and blk: "kernel_block L 0x10000 12" and usr: "usr \<le> 0x1BFFC"
  defines "D \<equiv> \<lambda>i. phys (mm (kern m)) (pt_row L (p_run s)) (byte_at 0x100000 i)"
  shows "\<exists>r. return_gate ds ss USER_ESP cs ip m = Some ((upd_kern (upd_cpu (\<lambda>c. c\<lparr>sel_es := ds, sel_ds := ds,
      esp := USER_ESP, eip := ip\<rparr>)) (upd_kern (upd_mm (ram_update (\<lambda>_. r))) m))\<lparr>sel_cs := cs, sel_ss := ss\<rparr>) \<and>
    (\<forall>i < usr. r (D i) = ram (mm (kern m)) (D i))"
proof -
  let ?tr = "translate (mm (kern m))" and ?r = "ram (mm (kern m))"
  let ?P = "\<lambda>i. phys (mm (kern m)) (pt_row L (p_run s)) (byte_at 0x11BFFC i)"
  have "kernel_block L (byte_at 0x10000 8) 4"
    using blk by (rule kernel_block_part) simp
  then have l: "load_dword ?tr ?r 0x10008 = Some (image_dword ?r 0x10008)"
    using load_image_dword [OF inv run, of "0x10008" ?r] by (simp add: byte_at_def)
  have u: "unat (0x11BFFC :: addr) = 0x11BFFC"
    by simp
  have "mapped ?tr 0x11BFFC 4 ?P"
    by (rule user_dword_mapped [OF inv run]) simp_all
  note st = store_dword_mapped [OF this]
  have PD: "?P j = D (0x1BFFC + j)" for j
    by (simp add: D_def byte_at_def)
  have "inj_on D {..<0x1C000}"
    unfolding D_def by (rule phys_inj [OF inv run]) simp_all
  then have inj: "D i = D j \<longleftrightarrow> i = j" if "i < 0x1C000" "j < 0x1C000" for i j
    using that by (auto simp: inj_on_def)
  let ?v = "image_dword ?r 0x10008"
  let ?m = "?r(?P 0 := byte_of 0 ?v, ?P 1 := byte_of 1 ?v, ?P 2 := byte_of 2 ?v, ?P 3 := byte_of 3 ?v)"
  have "?m (D i) = ?r (D i)" if "i < usr" for i
    using that usr unfolding PD by (simp add: inj)
  moreover have "store_dword ?tr (USER_ESP + 12) ?v ?r = Some ?m"
    using st [of ?v ?r] by simp
  ultimately show ?thesis
    using l by (intro exI [of _ ?m]) (simp add: return_gate_def Let_def upd_kern_def)
qed

text \<open>
  The boot sequence reaches user mode.  From memory as the boot loader leaves it, main returns
  with the tasks, the queues and the address space of task 1 set up, the user's image in its pages,
  and the processor at the first user instruction with the user's stack, user selectors and
  interrupts on.
\<close>

theorem main_reaches_user_mode:
  assumes "layout_ok L" and "quiet_boot L E" and "boot_image L (ram (mm (kern m))) sys usr"
  shows "\<exists>m'. main L E B m = Some m' \<and> booted L (kern m') \<and>
    eip (cpu (kern m')) = 0x100000 \<and> esp (cpu (kern m')) = 0x11BFF0 \<and>
    sel_cs m' = USER_CS \<and> sel_ss m' = USER_DS \<and> sel_ds (cpu (kern m')) = USER_DS \<and> sel_es (cpu (kern m')) = USER_DS \<and>
    bit (eflags (cpu (kern m'))) 9 \<and> int_mask m' = 0xfc \<and>
    (\<forall>i < usr. load_byte (translate (mm (kern m'))) (ram (mm (kern m'))) (byte_at 0x100000 i) =
      Some (ram (mm (kern m)) (byte_at (0x10000 + sys) i)))"
proof -
  define m1 where "m1 = before_move L E B m"
  have b: "booted L (kern m1)" and r: "ram (mm (kern m1)) = ram (mm (kern m))"
    unfolding m1_def by (rule before_move_facts [OF assms(1,2)])+
  obtain fs where inv: "kinv L (kern m1) (boot_procs fs)" (is "kinv _ _ ?s")
    using booted_kinv [OF b] by blast
  have run: "p_run ?s \<noteq> 0"
    by (simp add: boot_procs_def)
  let ?D = "\<lambda>i. phys (mm (kern m1)) (pt_row L (p_run ?s)) (byte_at 0x100000 i)"
  obtain r1 where mv: "move_user_image (kern m1) = Some (upd_mm (ram_update (\<lambda>_. r1)) (kern m1))"
      and r1: "\<forall>i < usr. r1 (?D i) = ram (mm (kern m)) (byte_at (0x10000 + sys) i)"
    using image_moved [OF inv run] assms(3) unfolding r by blast
  define m2 where "m2 = enable_int (upd_kern (kprint ''Entering user mode...'') (m1\<lparr>kern := upd_mm (ram_update (\<lambda>_. r1)) (kern m1)\<rparr>))"
  have m2: "mm (kern m2) = ram_update (\<lambda>_. r1) (mm (kern m1))" "same_core (kern m1) (kern m2)"
      "remaining_quantum (kern m2) = remaining_quantum (kern m1)" "bit (eflags (cpu (kern m2))) 9" "int_mask m2 = 0xfc"
    by (simp_all add: m2_def enable_int_def upd_kern_def kprint_def same_core_def upd_cpu_def upd_mm_def bit_simps)
  have inv2: "kinv L (kern m2) ?s"
    by (rule kinv_same_core [OF inv m2(2)])
  have ph: "phys (mm (kern m2)) = phys (mm (kern m1))"
    by (simp add: m2(1) phys_def frame_of_def get_frame_def fun_eq_iff)
  have rr: "ram (mm (kern m2)) = r1"
    by (simp add: m2(1))
  have blk: "kernel_block L 0x10000 12" "usr \<le> 0x1BFFC"
    using assms(3) by (simp_all add: boot_image_def)
  obtain r2 where gate: "return_gate USER_DS USER_DS USER_ESP USER_CS L_USER_START m2 =
      Some ((upd_kern (upd_cpu (\<lambda>c. c\<lparr>sel_es := USER_DS, sel_ds := USER_DS, esp := USER_ESP, eip := L_USER_START\<rparr>))
        (upd_kern (upd_mm (ram_update (\<lambda>_. r2))) m2))\<lparr>sel_cs := USER_CS, sel_ss := USER_DS\<rparr>)" (is "_ = Some ?m3")
      and r2: "\<forall>i < usr. r2 (?D i) = r1 (?D i)"
    using gate_returns [OF inv2 run blk, unfolded ph rr] by blast
  have core3: "same_core (kern m1) (kern ?m3)" "remaining_quantum (kern ?m3) = remaining_quantum (kern m1)"
    using m2(2,3) by (simp_all add: same_core_def upd_kern_def)
  have "load_byte (translate (mm (kern ?m3))) (ram (mm (kern ?m3))) (byte_at 0x100000 i) =
      Some (ram (mm (kern m)) (byte_at (0x10000 + sys) i))" if i: "i < usr" for i
  proof -
    have "translate (mm (kern ?m3)) = translate (mm (kern m1))"
      by (simp add: upd_kern_def m2(1))
    moreover have "unat (byte_at 0x100000 i) = 0x100000 + i"
      using i assms(3) by (subst unat_byte_at) (simp_all add: boot_image_def)
    then have "translate (mm (kern m1)) (byte_at 0x100000 i) = Some (?D i)"
      using i assms(3) by (intro user_page_mapped(1) [OF inv run]) (simp_all add: boot_image_def)
    moreover have "ram (mm (kern ?m3)) = r2"
      by (simp add: upd_kern_def)
    ultimately show ?thesis
      using i r1 r2 by (simp add: load_byte_def)
  qed
  moreover have "main L E B m = Some ?m3"
    using mv gate by (simp add: main_eq m2_def flip: m1_def)
  moreover have "booted L (kern ?m3)"
    by (rule booted_cong [OF b core3])
  ultimately show ?thesis
    using m2(4,5) by (intro exI [of _ ?m3]) (simp add: upd_kern_def upd_cpu_def)
qed

text \<open>A boot image with an 8 byte user program behind a system of 256 KiB.\<close>

definition ex_image :: memory where
  "ex_image = (\<lambda>_. 0x90)(0x10000 := 0, 0x10001 := 0, 0x10002 := 4, 0x10003 := 0,
     0x10004 := 8, 0x10005 := 0, 0x10006 := 0, 0x10007 := 0)"

definition ex_machine :: "tables \<Rightarrow> machine" where
  "ex_machine t = \<lparr>kern = upd_mm (ram_update (\<lambda>_. ex_image)) zero_kernel, tabs = t, sel_cs = 0, sel_ss = 0, int_mask = 0\<rparr>"

definition ex_boot_layout :: boot_layout where
  "ex_boot_layout = \<lparr>idt_addr = 0x12000, clock_handler_code = 0x13000, keyboard_handler_code = 0x13100,
     system_call_handler_code = 0x13200\<rparr>"

lemma ex_kernel_block:
  assumes "unat a mod 4096 + n \<le> 4096" and "unat a div 4096 \<in> {1..<256} - {32, 43}"
  shows "kernel_block ex_layout a n"
  unfolding kernel_block_def
proof (intro allI impI)
  fix d
  assume d: "d < n"
  have p: "unat a div 4096 < 256"
    using assms(2) by simp
  then have "unat a < 256 * 4096"
    by (simp add: div_less_iff_less_mult)
  then have "unat (byte_at a d) = unat a + d"
    using d assms(1) by (intro unat_byte_at) simp
  moreover obtain q r where q: "unat a = r + q * 4096" "r < 4096"
    using div_mult_mod_eq [of "unat a" 4096] mod_less_divisor [of 4096 "unat a"]
    by (metis add.commute zero_less_numeral)
  moreover from q have "unat a div 4096 = q" and "r + d < 4096"
    using d assms(1) by auto
  moreover from this have "(r + d + q * 4096) div 4096 = q"
    by (subst div_mult_self1) simp_all
  ultimately have "unat (byte_at a d) div 4096 = unat a div 4096"
    by (metis add.assoc add.commute)
  then show "kernel_addr ex_layout (byte_at a d)"
    using assms(2) by (simp add: kernel_addr_def kernel_page_def guard_page_def ex_layout_def)
qed

theorem main_reaches_user_mode_witness:
  "\<forall>t. \<exists>m'. main ex_layout quiet_externals ex_boot_layout (ex_machine t) = Some m' \<and> eip (cpu (kern m')) = 0x100000"
proof
  fix t
  have "kernel_block ex_layout 0x10000 12" "kernel_block ex_layout 0x50000 8"
    by (rule ex_kernel_block; simp)+
  then have "boot_image ex_layout ex_image 0x40000 8"
    by (simp add: boot_image_def image_dword_def ex_image_def dword_of_bytes_def)
  then have "boot_image ex_layout (ram (mm (kern (ex_machine t)))) 0x40000 8"
    by (simp add: ex_machine_def)
  from main_reaches_user_mode [OF ex_layout_ok ex_quiet this]
  show "\<exists>m'. main ex_layout quiet_externals ex_boot_layout (ex_machine t) = Some m' \<and> eip (cpu (kern m')) = 0x100000"
    by blast
qed

end
