(* ===== verification/ComponentSpec.thy ===== *)
theory ComponentSpec
  imports BootMain
begin

text \<open>
  The contracts of single components that the system's properties rest on: the lists as
  sequences, the copy routines against copying byte by byte, the descriptor tables as the
  processor reads them, and the page tables of the kernel's pages at boot and after a fork.
\<close>

section \<open>Lists\<close>

lemma remove1_middle: "e \<notin> set xs \<Longrightarrow> remove1 e (xs @ e # ys) = xs @ ys"
  by (simp add: remove1_append)

lemma family_remove:
  assumes fam: "family cdl h A" and q: "A q = Some xs" and e: "e \<in> set xs"
  shows "family cdl (list_del e h) (A(q \<mapsto> remove1 e xs)) \<and> (list_is_last e q h \<longleftrightarrow> e = last xs)"
proof -
  obtain us vs where xs: "xs = us @ e # vs" "e \<notin> set us"
    using split_list_first [OF e] by blast
  have c: "cdl h q (us @ e # vs)"
    using family_repr [OF fam q] xs(1) by simp
  then have "e \<notin> set vs"
    using cdl_distinct by fastforce
  then have "e = last xs \<longleftrightarrow> vs = []"
    using xs last_in_set [of vs] by (cases vs) auto
  then show ?thesis
    using lq.family_del [of h A q us e vs] fam q cdl_is_last [OF c] xs remove1_middle [OF xs(2)] by simp
qed

text \<open>
  C28: the operations of list.c and the macros of list.h are the operations of a family of
  sequences with no node in common: a queue in it is empty when its sequence is, its first
  node is the head of the sequence, the plain loop visits the sequence in order, adding puts a
  fresh node at the front or at the tail, deleting takes any node out of its sequence, and no
  other queue changes.  The safe loop with a body that moves the node to another queue moves
  them all, in order, in as many rounds as there are nodes.
\<close>

theorem kernel_lists_are_queues:
  assumes "family cdl h A" and "A q = Some xs"
  shows "(list_empty q h \<longleftrightarrow> xs = []) \<and> (xs \<noteq> [] \<longrightarrow> list_first q h = hd xs) \<and>
    list_for_each (length xs) q h = Some xs \<and>
    (\<forall>n. n \<notin> family_nodes A \<longrightarrow>
       family cdl (list_add n q h) (A(q \<mapsto> n # xs)) \<and>
       family cdl (list_add_tail n q h) (A(q \<mapsto> xs @ [n])) \<and>
       family cdl (INIT_LIST_HEAD n h) (A(n \<mapsto> []))) \<and>
    (\<forall>e \<in> set xs. family cdl (list_del e h) (A(q \<mapsto> remove1 e xs)) \<and>
       (list_is_last e q h \<longleftrightarrow> e = last xs)) \<and>
    (\<forall>p ys. A p = Some ys \<longrightarrow> p \<noteq> q \<longrightarrow>
       (\<exists>h'. list_for_each_safe (length xs) (\<lambda>e h. list_add_tail e p (list_del e h)) q h = Some h' \<and>
         family cdl h' (A(q \<mapsto> [], p \<mapsto> ys @ xs))))"
proof (intro conjI)
  have c: "cdl h q xs"
    by (rule family_repr [OF assms])
  show "list_empty q h \<longleftrightarrow> xs = []"
    by (rule lq.family_isempty [OF assms])
  show "xs \<noteq> [] \<longrightarrow> list_first q h = hd xs"
    using c by (cases xs) (auto dest: cdl_first)
  show "list_for_each (length xs) q h = Some xs"
    by (rule list_for_each_cdl [OF c order_refl])
  show "\<forall>n. n \<notin> family_nodes A \<longrightarrow>
      family cdl (list_add n q h) (A(q \<mapsto> n # xs)) \<and>
      family cdl (list_add_tail n q h) (A(q \<mapsto> xs @ [n])) \<and>
      family cdl (INIT_LIST_HEAD n h) (A(n \<mapsto> []))"
    using ld.family_push [OF assms] lq.family_enq [OF assms] lq.family_init [OF assms(1)] by blast
  show "\<forall>e \<in> set xs. family cdl (list_del e h) (A(q \<mapsto> remove1 e xs)) \<and>
      (list_is_last e q h \<longleftrightarrow> e = last xs)"
    using family_remove [OF assms] by blast
  show "\<forall>p ys. A p = Some ys \<longrightarrow> p \<noteq> q \<longrightarrow>
      (\<exists>h'. list_for_each_safe (length xs) (\<lambda>e h. list_add_tail e p (list_del e h)) q h = Some h' \<and>
        family cdl h' (A(q \<mapsto> [], p \<mapsto> ys @ xs)))"
    using list_for_each_safe_moves_all [OF assms _ _ order_refl] by auto
qed

theorem kernel_lists_are_queues_witness:
  "list_for_each 8 (freequeue ex_layout) (lists ex_kernel) = Some (map list_of (map (task_at ex_layout) [2..<10]))"
proof -
  have "queues ex_layout ex_kernel (boot_queues ex_layout)"
    using ex_booted by (simp add: booted_def boot_queues_def)
  then have fam: "family cdl (lists ex_kernel) (nodes (boot_queues ex_layout))"
    by (simp add: queues_def)
  have "nodes (boot_queues ex_layout) (freequeue ex_layout)
      = Some (map list_of (map (task_at ex_layout) [2..<10]))"
    using ex_layout_ok by (simp add: nodes_def boot_queues_def layout_ok_def del: upt_rec_numeral)
  from kernel_lists_are_queues [OF fam this] show ?thesis
    by (simp del: upt_rec_numeral)
qed

section \<open>Copies\<close>

lemma ex_less_add: "(\<exists>k < a + (b :: nat). P k) \<longleftrightarrow> (\<exists>k < a. P k) \<or> (\<exists>k < b. P (k + a))"
proof
  assume "\<exists>k < a + b. P k"
  then obtain k where k: "k < a + b" "P k" by blast
  show "(\<exists>k < a. P k) \<or> (\<exists>k < b. P (k + a))"
  proof (cases "k < a")
    case False
    with k have "k - a < b" "P (k - a + a)" by simp_all
    then show ?thesis by blast
  qed (use k(2) in blast)
next
  assume "(\<exists>k < a. P k) \<or> (\<exists>k < b. P (k + a))"
  then show "\<exists>k < a + b. P k"
    by (metis add.commute add_less_cancel_left less_le_trans le_add1)
qed

lemma ex_less_4: "(\<exists>k < 4 :: nat. P k) \<longleftrightarrow> P 0 \<or> P 1 \<or> P 2 \<or> P 3"
proof -
  have "k < 4 \<longleftrightarrow> k = 0 \<or> k = 1 \<or> k = 2 \<or> k = 3" for k :: nat
    by auto
  then show ?thesis
    by metis
qed

lemma byte_at_twice: "byte_at (byte_at a k) i = byte_at a (i + k)"
  by (simp add: byte_at_def ac_simps)

abbreviation (input) unmapped_byte :: "translation \<Rightarrow> addr \<Rightarrow> addr \<Rightarrow> nat \<Rightarrow> bool" where
  "unmapped_byte tr p q k \<equiv> tr (byte_at p k) = None \<or> tr (byte_at q k) = None"

lemma copy_bytes_faults:
  "copy_bytes tr p q (int n) m = None \<longleftrightarrow> (\<exists>k < n. unmapped_byte tr p q k)"
proof (induction n arbitrary: p q m)
  case (Suc n)
  have "(\<exists>k < Suc n. unmapped_byte tr p q k) \<longleftrightarrow>
      unmapped_byte tr p q 0 \<or> (\<exists>k < n. unmapped_byte tr (byte_at p 1) (byte_at q 1) k)"
    using ex_less_add [of 1 n "unmapped_byte tr p q"] by (simp add: byte_at_twice)
  then show ?case
    using Suc [of "byte_at p 1" "byte_at q 1"]
    by (cases "tr p"; cases "tr q")
      (simp_all add: copy_bytes.simps [of tr p q] load_byte_def store_byte_def byte_at_def)
qed (simp add: copy_bytes.simps)

lemma copy_dword_faults:
  "load_dword tr m p \<bind> (\<lambda>v. store_dword tr q v m) = None \<longleftrightarrow> (\<exists>k < 4. unmapped_byte tr p q k)"
  unfolding ex_less_4
  by (auto simp: load_dword_def store_dword_def load_byte_def store_byte_def byte_at_def bind_eq_None_conv)

lemma copy_data_faults:
  "copy_data tr p q (int n) m = None \<longleftrightarrow> (\<exists>k < n. unmapped_byte tr p q k)"
proof (induction n arbitrary: p q m rule: less_induct)
  case (less n)
  show ?case
  proof (cases "n > 4")
    case False
    then show ?thesis
      by (simp add: copy_data_rec copy_bytes_faults)
  next
    case True
    define k where "k = n - 4"
    with True have n: "n = 4 + k" "int n - 4 = int k" "k < n" by auto
    let ?d = "load_dword tr m p \<bind> (\<lambda>v. store_dword tr q v m)"
    have "copy_data tr p q (int n) m = ?d \<bind> copy_data tr (byte_at p 4) (byte_at q 4) (int k)"
      using True n(2) by (subst copy_data_rec) (simp add: byte_at_def)
    then have "copy_data tr p q (int n) m = None \<longleftrightarrow>
        ?d = None \<or> (\<exists>j < k. unmapped_byte tr (byte_at p 4) (byte_at q 4) j)"
      using less.IH [OF n(3)] by (cases ?d) auto
    then show ?thesis
      unfolding copy_dword_faults n(1) ex_less_add [of 4 k] by (simp add: byte_at_twice)
  qed
qed

lemma memset_from_fills:
  assumes "mapped tr s n D" and "i \<le> n"
  shows "memset_from tr s c (int i) (int n) m = Some (\<lambda>a. if a \<in> D ` {i..<n} then c else m a)"
  using assms(2)
proof (induction "n - i" arbitrary: i m)
  case 0
  then show ?case by (simp add: memset_from.simps)
next
  case (Suc j)
  then have i: "i < n" "{i..<n} = insert i {Suc i..<n}" by auto
  have "tr (s + of_nat i) = Some (D i)"
    using assms(1) i(1) by (simp add: mapped_def byte_at_def)
  moreover have "memset_from tr s c (int (Suc i)) (int n) (m(D i := c))
      = Some (\<lambda>a. if a \<in> D ` {Suc i..<n} then c else (m(D i := c)) a)"
    using Suc i(1) by (intro Suc.hyps(1)) auto
  ultimately show ?case
    using i by (simp add: memset_from.simps [of tr s c "int i"] store_byte_def add.commute fun_eq_iff)
qed

text \<open>
  C29: \<^verbatim>\<open>copy_data\<close>, which moves dwords while more than four bytes are left, computes what the
  plain byte loop computes, faults exactly when one of the bytes it would touch is not
  mapped, and otherwise puts a copy of the source at the destination and changes no other
  byte; the two user copies do the same and return 0, and \<^verbatim>\<open>memset\<close> fills its bytes.
\<close>

theorem copies_are_bytewise:
  assumes "mapped tr p n S" and "mapped tr q n D" and "apart S D n"
  shows "copy_data tr p q (int n) m = copy_bytes tr p q (int n) m \<and>
    (\<forall>p' q' j. copy_data tr p' q' (int j) m = None \<longleftrightarrow>
       (\<exists>k < j. tr (byte_at p' k) = None \<or> tr (byte_at q' k) = None)) \<and>
    (\<exists>m'. copy_data tr p q (int n) m = Some m' \<and>
       copy_from_user tr p q (int n) m = Some (0, m') \<and> copy_to_user tr p q (int n) m = Some (0, m') \<and>
       (\<forall>k < n. m' (D k) = m (S k)) \<and> (\<forall>a. a \<notin> D ` {..<n} \<longrightarrow> m' a = m a)) \<and>
    memset tr q c (int n) m = Some (\<lambda>a. if a \<in> D ` {..<n} then c else m a)"
proof (intro conjI)
  show "copy_data tr p q (int n) m = copy_bytes tr p q (int n) m"
    using assms by (simp add: copy_data_blit copy_bytes_blit)
  show "\<forall>p' q' j. copy_data tr p' q' (int j) m = None \<longleftrightarrow>
      (\<exists>k < j. tr (byte_at p' k) = None \<or> tr (byte_at q' k) = None)"
    using copy_data_faults by blast
  show "\<exists>m'. copy_data tr p q (int n) m = Some m' \<and>
      copy_from_user tr p q (int n) m = Some (0, m') \<and> copy_to_user tr p q (int n) m = Some (0, m') \<and>
      (\<forall>k < n. m' (D k) = m (S k)) \<and> (\<forall>a. a \<notin> D ` {..<n} \<longrightarrow> m' a = m a)"
    using assms blit_dst [OF assms(3)] blit_other [of _ D n S m]
    by (simp add: copy_data_blit copy_from_user_eq copy_to_user_eq)
  show "memset tr q c (int n) m = Some (\<lambda>a. if a \<in> D ` {..<n} then c else m a)"
    using memset_from_fills [OF assms(2), of 0 c m] by (simp add: memset_def atLeast0LessThan)
qed

theorem copies_are_bytewise_witness:
  "\<exists>m'. copy_data Some 0x1000 0x2000 7 (\<lambda>a. ucast a) = Some m' \<and> m' 0x2006 = 6"
proof -
  have id: "mapped Some a 7 (byte_at a)" for a
    by (simp add: mapped_def)
  have "apart (byte_at 0x1000) (byte_at 0x2000) 7"
  proof -
    have "byte_at 0x1000 i \<noteq> byte_at 0x2000 j" if "i < 7" "j < 7" for i j
    proof
      assume "byte_at 0x1000 i = byte_at 0x2000 j"
      then have "unat (byte_at 0x1000 i) = unat (byte_at 0x2000 j)"
        by simp
      with that show False
        by (subst (asm) (1 2) unat_byte_at) simp_all
    qed
    then show ?thesis
      by (auto simp: apart_def inj_on_def byte_at_inj)
  qed
  note copied = copies_are_bytewise [OF id id this, of "\<lambda>a. ucast a" 0]
  then obtain m' where
    m': "copy_data Some 0x1000 0x2000 7 (\<lambda>a. ucast a) = Some m'"
      "\<forall>k < 7. m' (byte_at 0x2000 k) = ucast (byte_at 0x1000 k)"
      "\<forall>a. a \<notin> byte_at 0x2000 ` {..<7} \<longrightarrow> m' a = ucast a"
    unfolding of_nat_numeral by (elim conjE exE) (rule that)
  have "m' 0x2006 = 6"
    using m'(2) by (auto simp: byte_at_def dest: spec [of _ 6])
  with m'(1) show ?thesis
    by blast
qed

section \<open>Descriptor tables\<close>

lemma boot_gate:
  "idt (tabs (boot_tables L E B m)) 33 = idt (setInterruptHandler 33 (keyboard_handler_code B) 0 s) 33"
  "idt (tabs (boot_tables L E B m)) 32 = idt (setInterruptHandler 32 (clock_handler_code B) 0 s) 32"
  if "\<And>h v pl t. idt (setInterruptHandler v h pl t) v = idt (setInterruptHandler v h pl s) v"
  using that by (simp_all add: boot_tables_def setIdt_def setTSS_def set_task_reg_def set_idt_reg_def Let_def case_prod_beta)

lemma setInterruptHandler_any:
  "idt (setInterruptHandler v h pl s) v = idt (setInterruptHandler v h pl t) v"
  by (simp add: setInterruptHandler_def Let_def)

lemma boot_gates:
  "idt (tabs (boot_tables L E B m)) 33 = idt (setInterruptHandler 33 (keyboard_handler_code B) 0 s) 33"
  "idt (tabs (boot_tables L E B m)) 32 = idt (setInterruptHandler 32 (clock_handler_code B) 0 s) 32"
  by (rule boot_gate, rule setInterruptHandler_any)+

text \<open>
  C27: after the boot has set up the descriptor tables, the processor finds at vectors 32 and 33
  present interrupt gates of the kernel's code segment for the clock and the keyboard handler
  that a user program cannot raise itself; the loaded IDT register covers exactly the 256
  gates; the task register selects a descriptor whose base is the TSS, which holds the kernel
  stack of task 1; and the \<^verbatim>\<open>sysenter\<close> registers name the kernel's code segment, the same
  stack and the system call entry.
  \<^verbatim>\<open>set_handlers\<close> of the binary library may install any gates before these two; it is assumed
  to leave the GDT and the image of the IDT register alone.
\<close>

theorem tables_installed:
  assumes "\<forall>s. gdt (ext_set_handlers E s) = gdt s \<and> idtR (ext_set_handlers E s) = idtR s"
  shows "let m' = boot_tables L E B m; T = tabs m'; top = task_at L 1 + 4096 in
    (\<forall>(v, h) \<in> {(32, clock_handler_code B), (33, keyboard_handler_code B)}.
       gate_offset (idt T v) = h \<and> gate_present (idt T v) \<and> gate_type (idt T v) = 0x0E \<and>
       gate_dpl (idt T v) = 0 \<and> g_segmentSelector (idt T v) = KERNEL_CS) \<and>
    r_base (loaded_idtr T) = idt_addr B \<and> unat (r_limit (loaded_idtr T)) = 256 * 8 - 1 \<and>
    descriptor_base (gdt T (unat (drop_bit 3 (loaded_tr T)))) = tss_addr L \<and>
    tss_esp0 (tss (kern m')) = top \<and> tss_ss0 (tss (kern m')) = KERNEL_DS \<and>
    msr (kern m') 0x174 = (0, KERNEL_CS) \<and> msr (kern m') 0x175 = (0, top) \<and>
    msr (kern m') 0x176 = (0, system_call_handler_code B)"
proof -
  have top: "INITIAL_ESP L = task_at L 1 + 4096"
    by (simp add: INITIAL_ESP_def stack_slot_def dword_at_def)
  have six: "unat (drop_bit 3 (KERNEL_TSS :: hword)) = 6"
    by (simp add: drop_bit_eq_div)
  have pl: "unat (0 :: cint) < 4"
    by simp
  note g = setInterruptHandler_gate [OF pl]
  show ?thesis
    using g [OF boot_gates(1)] g [OF boot_gates(2)] assms setGdt_tss(1) [of L "tabs m"]
    by (simp add: Let_def top) (simp add: boot_tables_def setIdt_def setTSS_def setSysenter_def setMSR_def
        set_task_reg_def set_idt_reg_def Let_def case_prod_beta top six)
qed

theorem tables_installed_witness:
  "\<forall>t. gate_offset (idt (tabs (boot_tables ex_layout quiet_externals ex_boot_layout (ex_machine t))) 32)
     = clock_handler_code ex_boot_layout"
proof
  fix t
  show "gate_offset (idt (tabs (boot_tables ex_layout quiet_externals ex_boot_layout (ex_machine t))) 32)
     = clock_handler_code ex_boot_layout"
    using tables_installed [of quiet_externals ex_layout ex_boot_layout "ex_machine t"]
    by (simp add: quiet_externals_def Let_def)
qed

section \<open>The kernel's pages\<close>

text \<open>
  C26: after boot has initialised the memory management, every page table maps the kernel's pages
  to the frames of their number, writable and for the supervisor only; page 0, the two guard
  pages around the task array and all user pages are absent.
\<close>

theorem boot_protects_kernel:
  assumes "layout_ok L" and "j < 10" and "p < 1024"
  shows "let e = pt_entry (mm (boot_mm L k)) (pt_row L j) p in
    (pte_present e = 1 \<longleftrightarrow> 1 \<le> p \<and> p < 256 \<and> \<not> guard_page L p) \<and> pte_user e = 0 \<and>
    (pte_present e = 1 \<longrightarrow> unat (pte_pbase_addr e) = p \<and> pte_rw e = 1)"
  using assms boot_entry_fields(1) [of p L]
  by (auto simp: pt_entry_boot_mm boot_entry_def kernel_entry_def Let_def)

theorem boot_protects_kernel_witness:
  "pte_user (pt_entry (mm (boot_mm ex_layout zero_kernel)) (pt_row ex_layout 3) 100) = 0"
  using boot_protects_kernel [OF ex_layout_ok, of 3 100 zero_kernel] by (simp add: Let_def)

text \<open>
  C17: fork shares the kernel's and the code pages through \<^verbatim>\<open>set_ss_pag\<close>, so in the child's table
  every one of them, page 0 and the guards included, is present, writable and open to user
  mode: the protection set up at boot is lost in every forked process.
\<close>

theorem fork_opens_kernel_pages:
  assumes "can_fork L k Q i j F R" and "20 \<le> card (avail (mm k))" and "p < 264"
  shows "\<exists>v k'. sys_fork L k = Some (v, k') \<and>
    (let e = pt_entry (mm k') (pt_row L i) p in
      pte_present e = 1 \<and> pte_rw e = 1 \<and> pte_user e = 1 \<and>
      pte_pbase_addr e = pte_pbase_addr (pt_entry (mm k) (pt_row L j) p) AND mask 20)"
proof -
  obtain k' where "sys_fork L k = Some (global_PID k + 1, k')"
      "forked (mm k) (mm k') (pt_row L j) (pt_row L i)"
    using sys_fork_success [OF assms(1,2)] by blast
  moreover from this have "pt_entry (mm k') (pt_row L i) p = ss_entry (get_frame (pt_row L j) p (mm k))"
    using assms(3) by (simp add: forked_def)
  ultimately show ?thesis
    by (simp add: Let_def get_frame_entry)
qed

theorem fork_opens_kernel_pages_witness:
  "\<exists>v k'. sys_fork ex_layout ex_kernel = Some (v, k') \<and>
    pte_user (pt_entry (mm k') (pt_row ex_layout 2) 0) = 1"
  using fork_opens_kernel_pages [OF ex_can_fork ex_frames, of 0] by (auto simp: Let_def)

end
