(* ===== verification/TrapSpec.thy ===== *)
theory TrapSpec
  imports StatsSpec
begin

text \<open>
  Entering and leaving the kernel: the frame \<^verbatim>\<open>SAVE_ALL\<close> leaves, what \<^verbatim>\<open>RESTORE_ALL\<close> makes of it,
  and that interrupts and system calls give the program its registers back.
\<close>

section \<open>The register frame\<close>

lemmas trap_defs = SAVE_ALL_def RESTORE_ALL_def pop_into_def push_dword_def pop_dword_def upd_cpu_def
  stack_write_def Let_def

lemma SAVE_ALL_eq:
  "SAVE_ALL k = (let e = esp (cpu k); c = cpu k in
     k\<lparr>stack := (stack k)(e - 4 := ucast (sel_gs c), e - 8 := ucast (sel_fs c), e - 12 := ucast (sel_es c),
         e - 16 := ucast (sel_ds c), e - 20 := eax c, e - 24 := ebp c, e - 28 := edi c, e - 32 := esi c,
         e - 36 := edx c, e - 40 := ecx c, e - 44 := ebx c),
       cpu := c\<lparr>esp := e - 44, edx := KERNEL_DS, sel_ds := KERNEL_DS, sel_es := KERNEL_DS\<rparr>\<rparr>)"
  by (simp add: trap_defs)

lemma RESTORE_ALL_eq:
  "RESTORE_ALL k = (let e = esp (cpu k); s = stack k in
     k\<lparr>cpu := (cpu k)\<lparr>ebx := s e, ecx := s (e + 4), edx := s (e + 8), esi := s (e + 12), edi := s (e + 16),
         ebp := s (e + 20), eax := s (e + 24), sel_ds := ucast (s (e + 28)), sel_es := ucast (s (e + 32)),
         sel_fs := ucast (s (e + 36)), sel_gs := ucast (s (e + 40)), esp := e + 44\<rparr>\<rparr>)"
  by (simp add: trap_defs ac_simps)

text \<open>\<open>frame_at s a c\<close>: the eleven dwords from \<open>a\<close> on hold the registers of \<open>c\<close>.\<close>

definition frame_at :: "(addr \<Rightarrow> dword) \<Rightarrow> addr \<Rightarrow> cpu \<Rightarrow> bool" where
  "frame_at s a c \<longleftrightarrow>
     s a = ebx c \<and> s (a + 4) = ecx c \<and> s (a + 8) = edx c \<and> s (a + 12) = esi c \<and> s (a + 16) = edi c \<and>
     s (a + 20) = ebp c \<and> s (a + 24) = eax c \<and> s (a + 28) = ucast (sel_ds c) \<and> s (a + 32) = ucast (sel_es c) \<and>
     s (a + 36) = ucast (sel_fs c) \<and> s (a + 40) = ucast (sel_gs c)"

lemma ucast_up_down: "ucast (ucast (x :: hword) :: dword) = x"
  by (rule bit_word_eqI) (simp add: bit_simps)

lemma frame_SAVE_ALL: "frame_at (stack (SAVE_ALL k)) (esp (cpu k) - 44) (cpu k)"
  by (simp add: frame_at_def SAVE_ALL_eq Let_def)

lemma frame_RESTORE_ALL:
  assumes "frame_at (stack k) (esp (cpu k)) c"
  shows "RESTORE_ALL k = k\<lparr>cpu := c\<lparr>esp := esp (cpu k) + 44, eip := eip (cpu k), eflags := eflags (cpu k)\<rparr>\<rparr>"
  using assms by (simp add: frame_at_def RESTORE_ALL_eq Let_def ucast_up_down)

text \<open>The frame survives a write below it.\<close>

lemma frame_at_below: "frame_at s (e - 44) c \<Longrightarrow> frame_at (s(e - 48 := v)) (e - 44) c"
  by (simp add: frame_at_def)

section \<open>Interrupts\<close>

lemma update_stats_record:
  "update_stats f t k = (let now = get_ticks (tsc k (tsc_reads k)); v = p_stats (tasks k t) in
     k\<lparr>tasks := (tasks k)(t := (tasks k t)\<lparr>p_stats := elapsed_total_ticks_update (\<lambda>_. now)
         (f (\<lambda>x. x + (now - elapsed_total_ticks v)) v)\<rparr>), tsc_reads := tsc_reads k + 1\<rparr>)"
  by (cases "tasks k t") (simp add: update_stats_def read_ticks_def upd_task_def Let_def)

lemma handler_enter_eq:
  assumes "on_stack k A 60"
  shows "handler_enter k = (let s = SAVE_ALL k in
    update_stats user_ticks_update A (s\<lparr>stack := (stack s)(esp (cpu s) - 4 := eax (cpu s))\<rparr>))"
proof -
  have "esp (cpu k) - 60 AND 0xfffff000 = A"
    using on_stack_page [OF assms, of 60] by simp
  then show ?thesis
    by (simp add: handler_enter_def user_to_system_def SAVE_ALL_eq update_stats_record current_def push_dword_def
        pop_into_def pop_dword_def upd_cpu_def stack_write_def Let_def)
qed

lemma handler_leave_eq:
  assumes "esp (cpu k) - 16 AND 0xfffff000 = A"
  shows "handler_leave k =
    RESTORE_ALL (update_stats system_ticks_update A (k\<lparr>stack := (stack k)(esp (cpu k) - 4 := eax (cpu k))\<rparr>))"
  using assms
  by (simp add: handler_leave_def system_to_user_def update_stats_record current_def push_dword_def
      pop_into_def pop_dword_def upd_cpu_def stack_write_def Let_def)

text \<open>Every dword that is not one of the \<open>n\<close> below the stack pointer keeps its value.\<close>

definition only_below :: "kernel \<Rightarrow> nat \<Rightarrow> kernel \<Rightarrow> bool" where
  "only_below k n k' \<longleftrightarrow> (\<forall>a. a \<notin> (\<lambda>i. esp (cpu k) - 4 * of_nat (Suc i)) ` {..<n} \<longrightarrow> stack k' a = stack k a)"

lemma below_image: "i < n \<Longrightarrow> e - 4 * of_nat (Suc i) \<in> (\<lambda>i. e - 4 * of_nat (Suc i) :: addr) ` {..<n}"
  by blast

lemma below_12:
  assumes "a \<notin> (\<lambda>i. e - 4 * of_nat (Suc i) :: addr) ` {..<12}"
  shows "a \<noteq> e - 4" "a \<noteq> e - 8" "a \<noteq> e - 12" "a \<noteq> e - 16" "a \<noteq> e - 20" "a \<noteq> e - 24" "a \<noteq> e - 28"
    "a \<noteq> e - 32" "a \<noteq> e - 36" "a \<noteq> e - 40" "a \<noteq> e - 44" "a \<noteq> e - 48"
  using assms below_image [of 0 12 e] below_image [of 1 12 e] below_image [of 2 12 e] below_image [of 3 12 e]
    below_image [of 4 12 e] below_image [of 5 12 e] below_image [of 6 12 e] below_image [of 7 12 e]
    below_image [of 8 12 e] below_image [of 9 12 e] below_image [of 10 12 e] below_image [of 11 12 e]
  by (auto simp only: of_nat_Suc of_nat_0 of_nat_1 of_nat_numeral) simp_all

lemma keyboard_routine_tty:
  "keyboard_routine behind c k = k\<lparr>tty :=
    (if c AND 0x80 \<noteq> 0 then printc_xy 0 0 (char_map_at behind (unat (c AND 0x7f))) (tty k) else tty k)\<rparr>"
  by (simp add: keyboard_routine_def)

text \<open>
  C23: an interrupt is transparent.  The keyboard handler gives the interrupted program all its
  registers and selectors back, changes no memory and no queue, uses only the twelve dwords
  below the stack pointer, leaves the cursor where it was, and charges the time since the last
  change of mode to the user and its own to the system.
\<close>

theorem keyboard_transparent:
  assumes "on_stack k A 60"
  shows "let k' = keyboard_handler behind c k; v = p_stats (tasks k A);
      t1 = get_ticks (tsc k (tsc_reads k)); t2 = get_ticks (tsc k (tsc_reads k + 1))
    in cpu k' = cpu k \<and> mm k' = mm k \<and> lists k' = lists k \<and> only_below k 12 k' \<and>
      con_x (tty k') = con_x (tty k) \<and> con_y (tty k') = con_y (tty k) \<and>
      tasks k' = (tasks k)(A := (tasks k A)\<lparr>p_stats := v\<lparr>user_ticks := user_ticks v + (t1 - elapsed_total_ticks v),
        system_ticks := system_ticks v + (t2 - t1), elapsed_total_ticks := t2\<rparr>\<rparr>)"
proof -
  let ?e = "esp (cpu k)"
  define k1 where "k1 = handler_enter k"
  define k2 where "k2 = keyboard_routine behind c (EOI k1)"
  define k3 where "k3 = update_stats system_ticks_update A (k2\<lparr>stack := (stack k2)(esp (cpu k2) - 4 := eax (cpu k2))\<rparr>)"
  have k1: "k1 = (let s = SAVE_ALL k in
      update_stats user_ticks_update A (s\<lparr>stack := (stack s)(esp (cpu s) - 4 := eax (cpu s))\<rparr>))"
    unfolding k1_def by (rule handler_enter_eq [OF assms])
  note k2 = k2_def [unfolded keyboard_routine_tty]
  have st1: "cpu k1 = cpu (SAVE_ALL k)" "stack k1 = (stack (SAVE_ALL k))(?e - 48 := eax (cpu k))"
    unfolding k1 by (simp_all add: Let_def) (simp_all add: SAVE_ALL_eq Let_def)
  obtain al where st2: "cpu k2 = (cpu k1)\<lparr>eax := al\<rparr>" "stack k2 = stack k1"
    by (simp add: k2 EOI_def upd_cpu_def)
  have e: "esp (cpu (SAVE_ALL k)) = ?e - 44" "eax (cpu (SAVE_ALL k)) = eax (cpu k)" "eip (cpu (SAVE_ALL k)) = eip (cpu k)"
      "eflags (cpu (SAVE_ALL k)) = eflags (cpu k)"
    by (simp_all add: SAVE_ALL_eq Let_def)
  have st3: "cpu k3 = (cpu (SAVE_ALL k))\<lparr>eax := al\<rparr>" "stack k3 = (stack (SAVE_ALL k))(?e - 48 := al)"
    unfolding k3_def by (simp_all add: st2 st1 e)
  have "esp (cpu k2) - 16 AND 0xfffff000 = A"
    using on_stack_page [OF assms, of 60] by (simp add: st2 st1 e)
  then have "keyboard_handler behind c k = RESTORE_ALL k3"
    by (simp add: keyboard_handler_def handler_leave_eq k3_def flip: k1_def k2_def)
  moreover have "frame_at (stack k3) (esp (cpu k3)) (cpu k)"
    unfolding st3 using frame_at_below [OF frame_SAVE_ALL] by (simp add: e)
  note frame_RESTORE_ALL [OF this]
  ultimately have h: "keyboard_handler behind c k = k3\<lparr>cpu := cpu k\<rparr>"
    by (simp add: st3 e)
  have below: "only_below k 12 (k3\<lparr>cpu := cpu k\<rparr>)"
    unfolding only_below_def using below_12 [where e = ?e] by (auto simp: st3 SAVE_ALL_eq Let_def)
  have same: "mm k3 = mm k" "lists k3 = lists k" "con_x (tty k3) = con_x (tty k)" "con_y (tty k3) = con_y (tty k)"
    by (simp_all add: k3_def k2 k1 Let_def SAVE_ALL_eq EOI_def)
  have "tasks k3 = (tasks k)(A := (tasks k A)\<lparr>p_stats := elapsed_total_ticks_update (\<lambda>_. get_ticks (tsc k (Suc (tsc_reads k))))
      (system_ticks_update (\<lambda>x. x + (get_ticks (tsc k (Suc (tsc_reads k))) - get_ticks (tsc k (tsc_reads k))))
        (user_ticks_update (\<lambda>x. x + (get_ticks (tsc k (tsc_reads k)) - elapsed_total_ticks (p_stats (tasks k A)))) (p_stats (tasks k A))))\<rparr>)"
    by (simp add: k3_def k2 k1 update_stats_record Let_def SAVE_ALL_eq EOI_def)
  then show ?thesis
    unfolding Let_def h by (cases "p_stats (tasks k A)") (simp add: below same)
qed

theorem keyboard_transparent_witness:
  "cpu (keyboard_handler (\<lambda>_. 0) 0x9E ex_kernel) = cpu ex_kernel"
proof -
  have "on_stack ex_kernel (task_at ex_layout 1) 60"
    by (rule on_stack_at [OF ex_layout_ok, of _ _ 3000]) (simp_all add: ex_kernel_def)
  then show ?thesis
    using keyboard_transparent [of ex_kernel "task_at ex_layout 1" "\<lambda>_. 0" "0x9E"] by (simp add: Let_def)
qed

section \<open>System calls\<close>

text \<open>
  The state before the checks on eax, the state in which the called routine starts, and the part
  of the stack the way out reads.
\<close>

definition entered :: "dword \<Rightarrow> kernel \<Rightarrow> kernel" where
  "entered ret k = SAVE_ALL (push_dword ret (push_dword USER_CS (push_dword (eflags (cpu k))
     (push_dword (ebp (cpu k)) (push_dword USER_DS k)))))"

definition call_state :: "layout \<Rightarrow> dword \<Rightarrow> kernel \<Rightarrow> kernel" where
  "call_state L ret k = push_dword (syscall_ret_code L) (entered ret k)"

definition call_frame :: "(addr \<Rightarrow> dword) \<Rightarrow> dword \<Rightarrow> kernel \<Rightarrow> bool" where
  "call_frame s ret k \<longleftrightarrow> (let e = esp (cpu k) in
     frame_at s (e - 64) (cpu k) \<and> s (e - 20) = ret \<and> s (e - 8) = ebp (cpu k))"

lemmas push_unfold = push_dword_def upd_cpu_def stack_write_def

lemma entered_cpu: "cpu (entered ret k) =
    (cpu k)\<lparr>esp := esp (cpu k) - 64, edx := KERNEL_DS, sel_ds := KERNEL_DS, sel_es := KERNEL_DS\<rparr>"
  by (simp add: entered_def SAVE_ALL_eq push_unfold Let_def)

lemma entered_keeps [simp, kernel_frame]:
  "mm (entered ret k) = mm k" "lists (entered ret k) = lists k" "tasks (entered ret k) = tasks k"
  "tty (entered ret k) = tty k" "tss (entered ret k) = tss k" "msr (entered ret k) = msr k"
  "zeos_ticks (entered ret k) = zeos_ticks k" "global_PID (entered ret k) = global_PID k"
  "idle_task (entered ret k) = idle_task k" "remaining_quantum (entered ret k) = remaining_quantum k"
  by (simp_all add: entered_def SAVE_ALL_eq Let_def)

lemma entered_frame: "call_frame (stack (entered ret k)) ret k"
  by (simp add: call_frame_def frame_at_def entered_def SAVE_ALL_eq push_unfold Let_def)

lemma call_frame_below: "call_frame s ret k \<Longrightarrow> call_frame (s(esp (cpu k) - 68 := v)) ret k"
  by (simp add: call_frame_def frame_at_def Let_def)

lemma call_state_cpu: "cpu (call_state L ret k) =
    (cpu k)\<lparr>esp := esp (cpu k) - 68, edx := KERNEL_DS, sel_ds := KERNEL_DS, sel_es := KERNEL_DS\<rparr>"
  by (simp add: call_state_def push_unfold Let_def entered_cpu)

lemma call_state_keeps [simp, kernel_frame]:
  "mm (call_state L ret k) = mm k" "lists (call_state L ret k) = lists k" "tasks (call_state L ret k) = tasks k"
  "tty (call_state L ret k) = tty k" "tss (call_state L ret k) = tss k" "msr (call_state L ret k) = msr k"
  "zeos_ticks (call_state L ret k) = zeos_ticks k" "global_PID (call_state L ret k) = global_PID k"
  "idle_task (call_state L ret k) = idle_task k" "remaining_quantum (call_state L ret k) = remaining_quantum k"
  by (simp_all add: call_state_def)

lemma call_state_frame: "call_frame (stack (call_state L ret k)) ret k"
  using call_frame_below [OF entered_frame]
  by (simp add: call_state_def push_unfold Let_def entered_cpu)

text \<open>The way out.\<close>

definition resumed :: "cint \<Rightarrow> dword \<Rightarrow> kernel \<Rightarrow> kernel \<Rightarrow> kernel" where
  "resumed v ret k k2 = k2\<lparr>stack := (stack k2)(esp (cpu k) - 40 := v),
     cpu := (cpu k)\<lparr>eax := v, ecx := ebp (cpu k), edx := ret, eip := ret, esp := ebp (cpu k),
       eflags := eflags (cpu k2) OR 0x200\<rparr>\<rparr>"

lemma handler_returns:
  assumes ret: "load_dword (translate (mm k)) (ram (mm k)) (ebp (cpu k) + 4) = Some ret"
    and d: "dispatch L E (entered ret k) = Inr (Some v, k2)"
    and e: "esp (cpu k2) = esp (cpu k) - 64" and f: "call_frame (stack k2) ret k"
  shows "system_call_handler L E k = Inr (Some v, resumed v ret k k2)"
proof -
  let ?k3 = "stack_write (esp (cpu k2) + 0x18) v k2" and ?c = "(cpu k)\<lparr>eax := v\<rparr>"
  have "frame_at (stack ?k3) (esp (cpu ?k3)) ?c"
    using f by (simp add: call_frame_def frame_at_def e stack_write_def Let_def)
  note R = frame_RESTORE_ALL [OF this, simplified stack_write_def e, simplified]
  show ?thesis
    using f unfolding system_call_handler_def Let_def
    by (simp add: ret flip: entered_def)
       (simp add: d R resumed_def e call_frame_def stack_write_def upd_cpu_def Let_def)
qed

lemma dispatch_unknown:
  "sint (eax (cpu k)) < 0 \<or> 36 < sint (eax (cpu k)) \<Longrightarrow> dispatch L E k = Inr (Some (- ENOSYS), k)"
  by (auto simp: dispatch_def MAX_SYSCALL_def sys_call_table_def)

lemma dispatch_wild: "eax (cpu k) = 36 \<Longrightarrow> dispatch L E k = Inl Wild_jump"
  by (simp add: dispatch_def MAX_SYSCALL_def sys_call_table_def)

lemma dispatch_entry:
  assumes "unat (eax (cpu k)) < 36"
  shows "dispatch L E k = (case run_syscall L E (sys_call_table ! unat (eax (cpu k))) (push_dword (syscall_ret_code L) k) of
     Inl e \<Rightarrow> Inl e | Inr (None, k) \<Rightarrow> Inr (None, k) | Inr (Some v, k) \<Rightarrow> Inr (Some v, snd (pop_dword k)))"
proof -
  have e: "sint (eax (cpu k)) = int (unat (eax (cpu k)))"
    using assms by (intro sint_small) simp
  have "\<not> sint (eax (cpu k)) < 0" "\<not> sint (eax (cpu k)) > 36"
    unfolding e using assms by linarith+
  moreover have "length sys_call_table = 36"
    by (simp add: sys_call_table_def)
  ultimately show ?thesis
    using assms by (simp add: dispatch_def MAX_SYSCALL_def)
qed

lemma below_17:
  assumes "a \<notin> (\<lambda>i. e - 4 * of_nat (Suc i) :: addr) ` {..<17}"
  shows "a \<noteq> e - 4" "a \<noteq> e - 8" "a \<noteq> e - 12" "a \<noteq> e - 16" "a \<noteq> e - 20" "a \<noteq> e - 24" "a \<noteq> e - 28"
    "a \<noteq> e - 32" "a \<noteq> e - 36" "a \<noteq> e - 40" "a \<noteq> e - 44" "a \<noteq> e - 48" "a \<noteq> e - 52" "a \<noteq> e - 56"
    "a \<noteq> e - 60" "a \<noteq> e - 64" "a \<noteq> e - 68"
  using assms below_image [of 0 17 e] below_image [of 1 17 e] below_image [of 2 17 e] below_image [of 3 17 e]
    below_image [of 4 17 e] below_image [of 5 17 e] below_image [of 6 17 e] below_image [of 7 17 e]
    below_image [of 8 17 e] below_image [of 9 17 e] below_image [of 10 17 e] below_image [of 11 17 e]
    below_image [of 12 17 e] below_image [of 13 17 e] below_image [of 14 17 e] below_image [of 15 17 e]
    below_image [of 16 17 e]
  by (auto simp only: of_nat_Suc of_nat_0 of_nat_1 of_nat_numeral) simp_all

lemma call_state_below: "only_below k 17 (call_state L ret k)"
  unfolding only_below_def using below_17 [where e = "esp (cpu k)"]
  by (auto simp: call_state_def entered_def SAVE_ALL_eq push_unfold Let_def)

lemma entered_below: "only_below k 17 (entered ret k)"
  unfolding only_below_def using below_17 [where e = "esp (cpu k)"]
  by (auto simp: entered_def SAVE_ALL_eq push_unfold Let_def)

lemma resumed_below:
  assumes "only_below k 17 k2"
  shows "only_below k 17 (resumed v ret k k2)"
  using assms below_17 [where e = "esp (cpu k)"] unfolding only_below_def resumed_def by simp

text \<open>The five routines that come back without switching leave stack and registers alone.\<close>

definition plain_calls :: "table_entry set" where
  "plain_calls = {T_ni_syscall, T_write, T_gettime, T_getpid, T_get_stats}"

lemma plain_call_keeps:
  assumes "run_syscall L E e k = Inr (r, k')" and "e \<in> plain_calls"
  shows "\<exists>v. r = Some v" and "stack k' = stack k" and "cpu k' = cpu k" and "lists k' = lists k"
  using assms
  by (auto simp: plain_calls_def returned_Inr dest!: sys_write_effect sys_get_stats_effect)

lemma plain_call_returns:
  assumes "load_dword (translate (mm k)) (ram (mm k)) (ebp (cpu k) + 4) = Some ret"
    and "unat (eax (cpu k)) < 36" and "sys_call_table ! unat (eax (cpu k)) \<in> plain_calls"
  shows "case run_syscall L E (sys_call_table ! unat (eax (cpu k))) (call_state L ret k) of
      Inl e \<Rightarrow> system_call_handler L E k = Inl e
    | Inr (r, k2) \<Rightarrow> \<exists>v k'. r = Some v \<and> system_call_handler L E k = Inr (Some v, k') \<and>
        cpu k' = (cpu k)\<lparr>eax := v, ecx := ebp (cpu k), edx := ret, eip := ret, esp := ebp (cpu k),
          eflags := eflags (cpu k) OR 0x200\<rparr> \<and>
        tasks k' = tasks k2 \<and> mm k' = mm k2 \<and> tty k' = tty k2 \<and> lists k' = lists k \<and> only_below k 17 k'"
proof -
  let ?run = "run_syscall L E (sys_call_table ! unat (eax (cpu k))) (call_state L ret k)"
  have eax: "eax (cpu (entered ret k)) = eax (cpu k)"
    by (simp add: entered_cpu)
  have d: "dispatch L E (entered ret k) = (case ?run of
     Inl e \<Rightarrow> Inl e | Inr (None, k) \<Rightarrow> Inr (None, k) | Inr (Some v, k) \<Rightarrow> Inr (Some v, snd (pop_dword k)))"
    using dispatch_entry [of "entered ret k"] assms(2) by (simp add: eax call_state_def)
  show ?thesis
  proof (cases ?run)
    case (Inl e)
    then show ?thesis
      using d assms(1) by (simp add: system_call_handler_def flip: entered_def)
  next
    case (Inr p)
    obtain r k2 where p: "p = (r, k2)"
      by (cases p)
    note keep = plain_call_keeps [OF Inr [unfolded p] assms(3)]
    obtain v where v: "r = Some v"
      using keep(1) by blast
    let ?k2 = "snd (pop_dword k2)"
    have "dispatch L E (entered ret k) = Inr (Some v, ?k2)"
      using d Inr p v by simp
    moreover have "esp (cpu ?k2) = esp (cpu k) - 64" "stack ?k2 = stack (call_state L ret k)"
      using keep(2,3) by (simp_all add: pop_dword_def upd_cpu_def call_state_cpu)
    moreover from this have "call_frame (stack ?k2) ret k" "only_below k 17 ?k2"
      using call_state_frame call_state_below by (simp_all add: only_below_def)
    ultimately have h: "system_call_handler L E k = Inr (Some v, resumed v ret k ?k2)" "only_below k 17 (resumed v ret k ?k2)"
      using handler_returns [OF assms(1)] resumed_below by blast+
    then show ?thesis
      using Inr p v keep(3,4) by (simp add: resumed_def call_state_cpu pop_dword_def upd_cpu_def)
  qed
qed

text \<open>The task structure the kernel finds in the handler.\<close>

lemma call_state_current:
  assumes "kinv L k s" and "esp (cpu k) = task_at L (p_run s) + 4096"
  shows "current (call_state L ret k) = task_at L (p_run s)"
proof -
  have al: "page_aligned (task_at L (p_run s))"
    using task_at_aligned [OF kinv_layout [OF assms(1)], of "p_run s"] slots_members(1) [OF kinv_slots [OF assms(1)]] by simp
  have "unat (4016 :: addr) < 4096"
    by simp
  from page_offset(1) [OF al this] show ?thesis
    by (simp add: current_def call_state_cpu assms(2) add.commute)
qed

section \<open>Calls that come back\<close>

text \<open>
  What the handler relies on of a C function it calls: the stack pointer is back where it was, and
  the dwords of the kernel stack from there on are as they were.
\<close>

definition c_returns :: "kernel \<Rightarrow> kernel \<Rightarrow> bool" where
  "c_returns k k' \<longleftrightarrow> esp (cpu k') = esp (cpu k) \<and>
     (\<forall>n < 4096. stack_page (esp (cpu k) + of_nat n) = stack_page (esp (cpu k)) \<longrightarrow>
        stack k' (esp (cpu k) + of_nat n) = stack k (esp (cpu k) + of_nat n))"

text \<open>The two calls in the binary libraries keep to it whenever they come back.\<close>

definition library_returns :: "externals \<Rightarrow> bool" where
  "library_returns E \<longleftrightarrow> (\<forall>a b c k v k'.
     (ext_sys_read E a b c k = Inr (Some v, k') \<longrightarrow> c_returns k k') \<and>
     (ext_set_sched_policy E a k = Inr (Some v, k') \<longrightarrow> c_returns k k'))"

lemma fork_c_returns:
  assumes inv: "kinv L k s" and run: "p_run s \<noteq> 0" and on: "on_stack k (task_at L (p_run s)) 40" and f: "sys_fork L k = Some (v, k')"
  shows "c_returns k k'"
proof -
  let ?e = "esp (cpu k)"
  have below: "?e + of_nat n \<noteq> ?e - 4" if "n < 4096" for n
  proof
    assume "?e + of_nat n = ?e - 4"
    then have "(of_nat (n + 4) :: addr) = 0"
      by (simp add: algebra_simps)
    moreover have "unat (of_nat (n + 4) :: addr) = n + 4"
      using that by (simp only: unat_of_nat) simp
    ultimately show False
      by simp
  qed
  show ?thesis
  proof (cases "p_free s")
    case Nil
    then have "k' = below_esp k"
      using f kinv_fork_full(1) [OF inv] by simp
    then show ?thesis
      using below by (simp add: c_returns_def below_esp_def stack_write_def)
  next
    case (Cons i F)
    have "task_at L i \<noteq> stack_page ?e"
      using can_fork_other [OF kinv_can_fork(1) [OF inv run Cons on]] on_stack_page [OF on, of 0] by simp
    then show ?thesis
      using f sys_fork_success [OF kinv_can_fork [OF inv run Cons on]] below by (auto simp: c_returns_def)
  qed
qed

lemma call_c_returns:
  assumes inv: "kinv L k s" and run: "p_run s \<noteq> 0" and on: "on_stack k (task_at L (p_run s)) 40" and lib: "library_returns E"
    and r: "run_syscall L E e k = Inr (Some v, k')"
  shows "c_returns k k'"
proof (cases e)
  case T_fork
  then show ?thesis
    using r fork_c_returns [OF inv run on] by (auto simp: returned_def split: option.splits)
qed (use r lib plain_call_keeps(2,3) [of L E e k "Some v" k'] in \<open>auto simp: plain_calls_def library_returns_def c_returns_def\<close>)

text \<open>The frame of the handler is above what a C function may use.\<close>

lemma c_returns_frame:
  assumes al: "page_aligned t" and top: "esp (cpu k) = t + 4096" and ret: "c_returns (call_state L ret k) k2"
  shows "call_frame (stack k2) ret k" and "esp (cpu (snd (pop_dword k2))) = esp (cpu k) - 64"
proof -
  let ?c = "call_state L ret k"
  have e: "esp (cpu ?c) = t + 4028"
    by (simp add: call_state_cpu top)
  have page: "stack_page (t + of_nat m) = t" if "m < 4096" for m
    using page_offset(1) [OF al, of "of_nat m"] that by (simp add: unat_of_nat)
  have same: "stack k2 (t + of_nat (4028 + n)) = stack ?c (t + of_nat (4028 + n))" if "n < 68" for n
    using ret that page [of "4028 + n"] page [of 4028] unfolding c_returns_def e by (simp add: add.assoc)
  show "call_frame (stack k2) ret k"
    using call_state_frame [of L ret k] same [of 4] same [of 8] same [of 12] same [of 16] same [of 20] same [of 24] same [of 28]
      same [of 32] same [of 36] same [of 40] same [of 44] same [of 48] same [of 60]
    by (simp add: call_frame_def frame_at_def Let_def top add.commute)
  show "esp (cpu (snd (pop_dword k2))) = esp (cpu k) - 64"
    using ret by (simp add: c_returns_def pop_dword_def upd_cpu_def call_state_cpu)
qed

text \<open>
  C22: a system call that comes back without a switch gives the program back what it had.  For every
  number of the table: the handler ends in the page fault of the routine, or in the switch of a
  routine that does not come back to it, or returns the routine's value in eax and continues at the
  return address on the stack pointer the program passed in ebp, with every other register but ecx
  and edx, which \<^verbatim>\<open>sysexit\<close> uses for these two, and the flags, as it was.  Memory, tasks and queues
  are what the routine made of them.  Of the two calls in the binary libraries this relies on the
  calling convention of C alone.
\<close>

theorem calls_return_registers:
  assumes "kinv L k s" and "p_run s \<noteq> 0" and "esp (cpu k) = task_at L (p_run s) + 4096" and "library_returns E"
    and "load_dword (translate (mm k)) (ram (mm k)) (ebp (cpu k) + 4) = Some ret" and "unat (eax (cpu k)) < 36"
  shows "case run_syscall L E (sys_call_table ! unat (eax (cpu k))) (call_state L ret k) of
      Inl e \<Rightarrow> system_call_handler L E k = Inl e
    | Inr (None, k2) \<Rightarrow> system_call_handler L E k = Inr (None, k2)
    | Inr (Some v, k2) \<Rightarrow> \<exists>k'. system_call_handler L E k = Inr (Some v, k') \<and>
        cpu k' = (cpu k)\<lparr>eax := v, ecx := ebp (cpu k), edx := ret, eip := ret, esp := ebp (cpu k),
          eflags := eflags (cpu k2) OR 0x200\<rparr> \<and>
        tasks k' = tasks k2 \<and> mm k' = mm k2 \<and> tty k' = tty k2 \<and> lists k' = lists k2 \<and>
        (sys_call_table ! unat (eax (cpu k)) \<in> plain_calls \<longrightarrow> eflags (cpu k2) = eflags (cpu k) \<and> lists k' = lists k \<and> only_below k 17 k')"
proof -
  let ?c = "call_state L ret k" and ?e = "sys_call_table ! unat (eax (cpu k))"
  let ?run = "run_syscall L E ?e ?c"
  have eax: "eax (cpu (entered ret k)) = eax (cpu k)"
    by (simp add: entered_cpu)
  have d: "dispatch L E (entered ret k) = (case ?run of
     Inl e \<Rightarrow> Inl e | Inr (None, k) \<Rightarrow> Inr (None, k) | Inr (Some v, k) \<Rightarrow> Inr (Some v, snd (pop_dword k)))"
    using dispatch_entry [of "entered ret k"] assms(6) by (simp add: eax call_state_def)
  consider e where "?run = Inl e" | k2 where "?run = Inr (None, k2)" | v k2 where "?run = Inr (Some v, k2)"
    by (cases ?run) (auto, metis option.exhaust)
  then show ?thesis
  proof cases
    case (3 v k2)
    have inv: "kinv L ?c s"
      by (rule kinv_same_core [OF assms(1)]) (simp add: same_core_def)
    have al: "page_aligned (task_at L (p_run s))"
      using task_at_aligned [OF kinv_layout [OF assms(1)], of "p_run s"] slots_members(1) [OF kinv_slots [OF assms(1)]] by simp
    have "on_stack ?c (task_at L (p_run s)) 40"
      using al by (simp add: on_stack_def call_state_cpu assms(3))
    from call_c_returns [OF inv assms(2) this assms(4) 3] have ret: "c_returns ?c k2" .
    let ?k2 = "snd (pop_dword k2)"
    have "stack ?k2 = stack k2"
      by (simp add: pop_dword_def upd_cpu_def)
    then have h: "system_call_handler L E k = Inr (Some v, resumed v ret k ?k2)"
      using d 3 c_returns_frame [OF al assms(3) ret] by (intro handler_returns [OF assms(5)]) simp_all
    have "eflags (cpu k2) = eflags (cpu k) \<and> lists k2 = lists k \<and> only_below k 17 (resumed v ret k ?k2)" if "?e \<in> plain_calls"
    proof -
      note keep = plain_call_keeps [OF 3 that]
      then have "only_below k 17 ?k2"
        using call_state_below by (simp add: only_below_def)
      then show ?thesis
        using keep(3,4) resumed_below by (simp add: call_state_cpu)
    qed
    then show ?thesis
      using 3 h by (auto simp: resumed_def pop_dword_def upd_cpu_def)
  qed (use d assms(5) in \<open>simp_all add: system_call_handler_def flip: entered_def\<close>)
qed

text \<open>The example process asks for its PID; its stack holds a return address.\<close>

definition ex_caller :: "cint \<Rightarrow> kernel" where
  "ex_caller nr = upd_cpu (\<lambda>c. c\<lparr>eax := nr, ebp := 0x11BF00\<rparr>) ex_kernel"

lemma ex_caller_simps [simp]:
  "mm (ex_caller nr) = mm ex_kernel" "eax (cpu (ex_caller nr)) = nr" "ebp (cpu (ex_caller nr)) = 0x11BF00"
  "tasks (ex_caller nr) = tasks ex_kernel" "esp (cpu (ex_caller nr)) = esp (cpu ex_kernel)"
  "lists (ex_caller nr) = lists ex_kernel"
  by (simp_all add: ex_caller_def)

lemma ex_caller_ret: "\<exists>ret. load_dword (translate (mm ex_kernel)) (ram (mm ex_kernel)) 0x11BF04 = Some ret"
proof -
  obtain fs where inv: "kinv ex_layout ex_kernel (boot_procs fs)"
    using ex_kernel_kinv by blast
  have "p_run (boot_procs fs) \<noteq> 0"
    by (simp add: boot_procs_def)
  from load_dword_mapped [OF user_dword_mapped [OF inv this, of "0x11BF04"]] show ?thesis
    by simp
qed

text \<open>The example process, about to ask for its PID through the fast entry.\<close>

definition ex_entry :: kernel where
  "ex_entry = upd_cpu (\<lambda>c. c\<lparr>esp := task_at ex_layout 1 + 4096\<rparr>) (ex_caller 20)"

lemma ex_entry_simps [simp]:
  "mm ex_entry = mm ex_kernel" "tasks ex_entry = tasks ex_kernel" "eax (cpu ex_entry) = 20"
  "ebp (cpu ex_entry) = 0x11BF00" "esp (cpu ex_entry) = task_at ex_layout 1 + 4096" "same_core ex_kernel ex_entry"
  by (simp_all add: ex_entry_def ex_caller_def same_core_def)

lemma ex_library: "library_returns quiet_externals"
  by (simp add: library_returns_def quiet_externals_def c_returns_def)

theorem calls_return_registers_witness:
  "\<exists>k'. system_call_handler ex_layout quiet_externals ex_entry = Inr (Some 1, k') \<and>
     eax (cpu k') = 1 \<and> ebx (cpu k') = ebx (cpu ex_kernel) \<and> esp (cpu k') = 0x11BF00"
proof -
  obtain fs where "kinv ex_layout ex_kernel (boot_procs fs)" (is "kinv _ _ ?s")
    using ex_kernel_kinv by blast
  then have inv: "kinv ex_layout ex_entry ?s"
    by (rule kinv_same_core) simp
  have run: "p_run ?s = 1"
    by (simp add: boot_procs_def)
  obtain ret where ret: "load_dword (translate (mm ex_entry)) (ram (mm ex_entry)) (ebp (cpu ex_entry) + 4) = Some ret"
    using ex_caller_ret by auto
  have e: "sys_call_table ! 20 = T_getpid"
    by (simp add: sys_call_table_def)
  have top: "esp (cpu ex_entry) = task_at ex_layout (p_run ?s) + 4096"
    by (simp add: run)
  have "sys_getpid (call_state ex_layout ret ex_entry) = 1"
    using call_state_current [OF inv top] ex_booted by (simp add: sys_getpid_def booted_def run)
  then show ?thesis
    using calls_return_registers [OF inv _ top ex_library ret] by (simp add: e run plain_calls_def) (auto simp: ex_entry_def ex_caller_def)
qed

text \<open>
  C24: a number that is negative or greater than 36 gets -ENOSYS in eax and changes nothing but
  the stack below the stack pointer.  The table has 36 entries, numbered 0 to 35, and the check
  lets 36 through: the handler then jumps through the word behind the table.
\<close>

theorem unknown_calls:
  assumes "load_dword (translate (mm k)) (ram (mm k)) (ebp (cpu k) + 4) = Some ret"
  shows "if sint (eax (cpu k)) < 0 \<or> 36 < sint (eax (cpu k))
    then \<exists>k'. system_call_handler L E k = Inr (Some (-38), k') \<and> eax (cpu k') = -38 \<and> eip (cpu k') = ret \<and>
      ebx (cpu k') = ebx (cpu k) \<and> esi (cpu k') = esi (cpu k) \<and> edi (cpu k') = edi (cpu k) \<and>
      tasks k' = tasks k \<and> mm k' = mm k \<and> lists k' = lists k \<and> tty k' = tty k \<and> only_below k 17 k'
    else eax (cpu k) = 36 \<longrightarrow> system_call_handler L E k = Inl Wild_jump"
proof -
  have eax: "eax (cpu (entered ret k)) = eax (cpu k)" "esp (cpu (entered ret k)) = esp (cpu k) - 64"
    by (simp_all add: entered_cpu)
  show ?thesis
  proof (cases "sint (eax (cpu k)) < 0 \<or> 36 < sint (eax (cpu k))")
    case True
    then have "dispatch L E (entered ret k) = Inr (Some (- ENOSYS), entered ret k)"
      by (intro dispatch_unknown) (simp add: eax)
    from handler_returns [OF assms this eax(2) entered_frame] resumed_below [OF entered_below] True
    show ?thesis
      by (simp add: resumed_def)
  next
    case False
    then show ?thesis
      using dispatch_wild [of "entered ret k"] assms
      by (auto simp: eax system_call_handler_def simp flip: entered_def)
  qed
qed

theorem unknown_calls_witness:
  "(\<exists>k'. system_call_handler ex_layout quiet_externals (ex_caller 37) = Inr (Some (-38), k')) \<and>
   system_call_handler ex_layout quiet_externals (ex_caller 36) = Inl Wild_jump"
proof -
  obtain ret where "load_dword (translate (mm ex_kernel)) (ram (mm ex_kernel)) 0x11BF04 = Some ret"
    using ex_caller_ret by blast
  then show ?thesis
    using unknown_calls [of "ex_caller 37" ret ex_layout quiet_externals]
      unknown_calls [of "ex_caller 36" ret ex_layout quiet_externals] by auto
qed

end
