(* ===== verification/TimeSpec.thy ===== *)
theory TimeSpec
  imports TrapSpec
begin

text \<open>
  Time: the division by which cycles become ticks, and that the four counters of a task account
  for all of its time.
\<close>

section \<open>The counters balance\<close>

text \<open>The ticks the four counters hold, less the time of the last update.\<close>

definition balance :: "stats \<Rightarrow> dword" where
  "balance v = user_ticks v + system_ticks v + blocked_ticks v + ready_ticks v - elapsed_total_ticks v"

definition balanced :: "kernel \<Rightarrow> kernel \<Rightarrow> bool" where
  "balanced k k' \<longleftrightarrow> (\<forall>t. balance (p_stats (tasks k' t)) = balance (p_stats (tasks k t)))"

lemma balance_charge:
  "balance (charge user_ticks_update now v) = balance v" "balance (charge system_ticks_update now v) = balance v"
  "balance (charge blocked_ticks_update now v) = balance v" "balance (charge ready_ticks_update now v) = balance v"
  by (simp_all add: balance_def charge_def)

lemma balanced_refl [intro, simp]: "balanced k k"
  by (simp add: balanced_def)

lemma balanced_trans: "balanced k k' \<Longrightarrow> balanced k' k'' \<Longrightarrow> balanced k k''"
  by (simp add: balanced_def)

lemma balanced_cong: "tasks k' = tasks k \<Longrightarrow> balanced k k'"
  by (simp add: balanced_def)

lemma balanced_stats: "(\<And>t. p_stats (tasks k' t) = p_stats (tasks k t)) \<Longrightarrow> balanced k k'"
  by (simp add: balanced_def)

lemma balanced_update:
  "balanced k (update_stats user_ticks_update t k)" "balanced k (update_stats system_ticks_update t k)"
  "balanced k (update_stats blocked_ticks_update t k)" "balanced k (update_stats ready_ticks_update t k)"
  by (simp_all add: balanced_def balance_charge)

lemma inner_task_switch_stats: "p_stats (tasks (inner_task_switch new k) t) = p_stats (tasks k t)"
  by (simp add: inner_task_switch_def switch_stack_def Let_def case_prod_beta)

lemma switch_call_tasks: "tasks (switch_call L new k) = tasks k"
  by (simp add: switch_call_def Let_def)

lemma task_switch_stats: "p_stats (tasks (task_switch L new k) t) = p_stats (tasks k t)"
  by (simp add: task_switch_call Let_def inner_task_switch_stats switch_call_tasks)

lemma balanced_process_state: "balanced k (update_process_state_rr L t q k)"
  by (auto simp: balanced_def update_process_state_rr_def Let_def balance_charge upd_task_def)

lemma balanced_next: "balanced k (sched_next_rr L k)"
proof -
  obtain t k1 where p: "pick_next_rr L k = (t, k1)"
    by (cases "pick_next_rr L k")
  have t1: "tasks k1 = tasks k"
    using p by (auto simp: pick_next_rr_def Let_def split: if_splits)
  show ?thesis
    by (simp add: balanced_def sched_next_rr_def p Let_def task_switch_stats balance_charge)
       (auto simp: t1 balance_charge upd_task_def balance_def charge_def)
qed

lemma balanced_schedule: "balanced k (schedule L (rr_policy L) k)"
proof -
  obtain b k1 where n: "needs_sched_rr L (update_sched_data_rr k) = (b, k1)"
    by (cases "needs_sched_rr L (update_sched_data_rr k)")
  then have "tasks k1 = tasks k"
    by (auto simp: needs_sched_rr_def update_sched_data_rr_def split: if_splits)
  from balanced_cong [OF this] show ?thesis
    using balanced_trans [OF balanced_trans [OF _ balanced_process_state] balanced_next]
    by (simp add: schedule_def rr_policy_def n)
qed

lemma balanced_exit: "balanced k (sys_exit L k)"
proof -
  have "balanced k (exit_release L k)"
    by (rule balanced_stats) (simp add: exit_release_def Let_def)
  then show ?thesis
    unfolding sys_exit_def using balanced_next by (rule balanced_trans)
qed

lemma balanced_handlers: "balanced k (handler_enter k)" "balanced k (handler_leave k)"
  by (auto simp: balanced_def handler_enter_def handler_leave_def user_to_system_def system_to_user_def SAVE_ALL_eq
      RESTORE_ALL_eq pop_into_def pop_dword_def push_unfold Let_def balance_charge)

text \<open>
  \<^verbatim>\<open>block_process\<close> and \<^verbatim>\<open>unblock_process\<close> read the clock twice, for the charge and for the time of the
  update, and charge nothing for the time between.
\<close>

lemma balance_late:
  "balance (elapsed_total_ticks_update (\<lambda>_. b) (system_ticks_update (\<lambda>x. x + (a - elapsed_total_ticks v)) v)) =
    balance v - (b - a)"
  by (simp add: balance_def)

lemma block_process_lost:
  assumes "q \<noteq> readyqueue L"
  shows "balance (p_stats (tasks (block_process (rr_policy L) q k) t)) = balance (p_stats (tasks k t)) -
    (if t = current k then get_ticks (tsc k (Suc (tsc_reads k))) - get_ticks (tsc k (tsc_reads k)) else 0)"
proof -
  let ?k1 = "update_process_state_rr L (current k) q k"
  have r: "tsc ?k1 = tsc k" "tsc_reads ?k1 = tsc_reads k"
    using assms by (auto simp: update_process_state_rr_def Let_def)
  have b: "balance (p_stats (tasks ?k1 t)) = balance (p_stats (tasks k t))"
    using balanced_process_state [of k L "current k" q] by (simp add: balanced_def)
  show ?thesis
    using balanced_next [of _ L] b
    by (auto simp: block_process_def rr_policy_def read_ticks_def Let_def balanced_def r upd_task_def balance_late)
qed

text \<open>
  C25: no time is lost by scheduling.  Through clock ticks, yield, exit and the entry and exit of the
  interrupt handlers, the sum of the user, system, blocked and ready ticks of every task grows
  exactly by the growth of its time of last update, modulo 2 ^ 32.  Blocking the running task
  loses the ticks between the two clock reads.
\<close>

theorem time_is_accounted:
  assumes "q \<noteq> readyqueue L"
  shows "balanced k (schedule L (rr_policy L) k) \<and> balanced k (snd (sys_yield L k)) \<and> balanced k (sys_exit L k) \<and>
    balanced k (handler_enter k) \<and> balanced k (handler_leave k) \<and>
    (\<forall>t. balance (p_stats (tasks (block_process (rr_policy L) q k) t)) = balance (p_stats (tasks k t)) -
      (if t = current k then get_ticks (tsc k (Suc (tsc_reads k))) - get_ticks (tsc k (tsc_reads k)) else 0))"
  using balanced_schedule balanced_exit balanced_handlers block_process_lost [OF assms]
    balanced_trans [OF balanced_process_state balanced_next]
  by (simp add: sys_yield_def force_task_switch_def)

theorem time_is_accounted_witness: "balanced ex_kernel (schedule ex_layout (rr_policy ex_layout) ex_kernel)"
  using time_is_accounted [of "freequeue ex_layout" ex_layout ex_kernel] ex_layout_ok by (simp add: layout_ok_def)

section \<open>Cycles to ticks\<close>

text \<open>
  C30: do_div is the 64 by 32 bit division.  Its two steps, the plain division of the upper half and
  divl, give quotient and remainder for every dividend and every base but 0, divl never faults,
  and so get_ticks is the time stamp counter divided by the cycles of a tick, cut to 32 bits.
\<close>

theorem do_div_is_division:
  fixes n :: "64 word" and base :: dword
  assumes "base \<noteq> 0"
  shows "unat (fst (do_div n base)) = unat n div unat base \<and> unat (snd (do_div n base)) = unat n mod unat base \<and>
    \<not> divl_faults base (ucast n) (fst (do_div_upper (ucast (drop_bit 32 n)) base)) \<and>
    unat (get_ticks n) = unat n div 109000 mod 2 ^ 32"
proof -
  have "unat (get_ticks n) = unat n div 109000 mod 2 ^ 32"
    by (simp add: get_ticks_div unat_low unat_div)
  then show ?thesis
    using do_div_parts [OF assms, of n] by blast
qed

theorem do_div_is_division_witness: "unat (fst (do_div 0x123456789ABCDEF0 1000)) = 1311768467463790"
  using do_div_is_division [of 1000 "0x123456789ABCDEF0"] by simp

end
