(* ===== verification/Errno.thy ===== *)
theory Errno
  imports Reach
begin

text \<open>
  include/errno.h: the error numbers by name, and that what the calls of this kernel return below
  zero is the negation of one of them, so that errno in a program always names an error.
\<close>

text \<open>The two names defined by other names have the numbers of those.\<close>

definition errno_h :: "(string \<times> int) list" where
  "errno_h = [
    (''EPERM'', 1), (''ENOENT'', 2), (''ESRCH'', 3), (''EINTR'', 4), (''EIO'', 5),
    (''ENXIO'', 6), (''E2BIG'', 7), (''ENOEXEC'', 8), (''EBADF'', 9), (''ECHILD'', 10),
    (''EAGAIN'', 11), (''ENOMEM'', 12), (''EACCES'', 13), (''EFAULT'', 14), (''ENOTBLK'', 15),
    (''EBUSY'', 16), (''EEXIST'', 17), (''EXDEV'', 18), (''ENODEV'', 19), (''ENOTDIR'', 20),
    (''EISDIR'', 21), (''EINVAL'', 22), (''ENFILE'', 23), (''EMFILE'', 24), (''ENOTTY'', 25),
    (''ETXTBSY'', 26), (''EFBIG'', 27), (''ENOSPC'', 28), (''ESPIPE'', 29), (''EROFS'', 30),
    (''EMLINK'', 31), (''EPIPE'', 32), (''EDOM'', 33), (''ERANGE'', 34), (''EDEADLK'', 35),
    (''ENAMETOOLONG'', 36), (''ENOLCK'', 37), (''ENOSYS'', 38), (''ENOTEMPTY'', 39),
    (''ELOOP'', 40), (''EWOULDBLOCK'', 11), (''ENOMSG'', 42), (''EIDRM'', 43), (''ECHRNG'', 44),
    (''EL2NSYNC'', 45), (''EL3HLT'', 46), (''EL3RST'', 47), (''ELNRNG'', 48), (''EUNATCH'', 49),
    (''ENOCSI'', 50), (''EL2HLT'', 51), (''EBADE'', 52), (''EBADR'', 53), (''EXFULL'', 54),
    (''ENOANO'', 55), (''EBADRQC'', 56), (''EBADSLT'', 57), (''EDEADLOCK'', 35),
    (''EBFONT'', 59), (''ENOSTR'', 60), (''ENODATA'', 61), (''ETIME'', 62), (''ENOSR'', 63),
    (''ENONET'', 64), (''ENOPKG'', 65), (''EREMOTE'', 66), (''ENOLINK'', 67), (''EADV'', 68),
    (''ESRMNT'', 69), (''ECOMM'', 70), (''EPROTO'', 71), (''EMULTIHOP'', 72), (''EDOTDOT'', 73),
    (''EBADMSG'', 74), (''EOVERFLOW'', 75), (''ENOTUNIQ'', 76), (''EBADFD'', 77),
    (''EREMCHG'', 78), (''ELIBACC'', 79), (''ELIBBAD'', 80), (''ELIBSCN'', 81),
    (''ELIBMAX'', 82), (''ELIBEXEC'', 83), (''EILSEQ'', 84), (''ERESTART'', 85),
    (''ESTRPIPE'', 86), (''EUSERS'', 87), (''ENOTSOCK'', 88), (''EDESTADDRREQ'', 89),
    (''EMSGSIZE'', 90), (''EPROTOTYPE'', 91), (''ENOPROTOOPT'', 92), (''EPROTONOSUPPORT'', 93),
    (''ESOCKTNOSUPPORT'', 94), (''EOPNOTSUPP'', 95), (''EPFNOSUPPORT'', 96),
    (''EAFNOSUPPORT'', 97), (''EADDRINUSE'', 98), (''EADDRNOTAVAIL'', 99), (''ENETDOWN'', 100),
    (''ENETUNREACH'', 101), (''ENETRESET'', 102), (''ECONNABORTED'', 103), (''ECONNRESET'', 104),
    (''ENOBUFS'', 105), (''EISCONN'', 106), (''ENOTCONN'', 107), (''ESHUTDOWN'', 108),
    (''ETOOMANYREFS'', 109), (''ETIMEDOUT'', 110), (''ECONNREFUSED'', 111), (''EHOSTDOWN'', 112),
    (''EHOSTUNREACH'', 113), (''EALREADY'', 114), (''EINPROGRESS'', 115), (''ESTALE'', 116),
    (''EUCLEAN'', 117), (''ENOTNAM'', 118), (''ENAVAIL'', 119), (''EISNAM'', 120),
    (''EREMOTEIO'', 121), (''EDQUOT'', 122), (''ENOMEDIUM'', 123), (''EMEDIUMTYPE'', 124),
    (''ECANCELED'', 125), (''ENOKEY'', 126), (''EKEYEXPIRED'', 127), (''EKEYREVOKED'', 128),
    (''EKEYREJECTED'', 129)]"

definition named_error :: "cint \<Rightarrow> bool" where
  "named_error v \<longleftrightarrow> - sint v \<in> snd ` set errno_h"

lemma errno_names_distinct: "distinct (map fst errno_h)"
  unfolding errno_h_def by code_simp

lemma errno_synonyms:
  "map snd (filter (\<lambda>(n, _). n \<noteq> ''EWOULDBLOCK'' \<and> n \<noteq> ''EDEADLOCK'') errno_h) = [1..40] @ [42..57] @ [59..129] \<and> map_of errno_h ''EWOULDBLOCK'' = map_of errno_h ''EAGAIN'' \<and>
   map_of errno_h ''EDEADLOCK'' = map_of errno_h ''EDEADLK''"
  unfolding errno_h_def by code_simp

text \<open>The numbers the routines of this kernel use are those of the header.\<close>

lemma kernel_errors:
  "map (map_of errno_h) [''ESRCH'', ''EBADF'', ''EAGAIN'', ''ENOMEM'', ''EACCES'', ''EFAULT'', ''EINVAL'', ''ENOSYS''] =
   map Some [ESRCH, EBADF, EAGAIN, ENOMEM, EACCES, EFAULT, EINVAL, ENOSYS]"
  unfolding errno_h_def by code_simp

lemma named_errors [simp]:
  "named_error (- ESRCH)" "named_error (- EBADF)" "named_error (- EAGAIN)" "named_error (- ENOMEM)"
  "named_error (- EFAULT)" "named_error (- EINVAL)" "named_error (- ENOSYS)"
  by (simp_all add: named_error_def errno_h_def image_iff)

section \<open>The results of the calls\<close>

lemma write_loop_nonneg:
  "sys_write_loop tr lb b n m c = Some (b', n', m', c') \<Longrightarrow> 0 \<le> n \<Longrightarrow> 0 \<le> n'"
proof (induction tr lb b n m c rule: sys_write_loop.induct)
  case (1 tr lb b n m c)
  show ?case
  proof (cases "n > 512")
    case False
    with "1.prems" show ?thesis
      by (simp add: sys_write_loop.simps)
  next
    case True
    then obtain x m1 r c1 where s: "copy_from_user tr b lb 512 m = Some (x, m1)"
        "sys_write_console tr m1 lb 512 c = Some (r, c1)"
        "sys_write_loop tr lb (b + of_int r) (n - r) m1 c1 = Some (b', n', m', c')"
      using "1.prems" by (auto simp: sys_write_loop.simps [of tr lb b n] split: bind_splits)
    show ?thesis
      using "1.IH" [OF True s(1) refl s(2) refl s(3)] sys_write_console_ret [OF s(2)] True by simp
  qed
qed

lemma sys_write_result:
  assumes "sys_write lb fd b n k = Some (v, k')"
  shows "0 \<le> sint v \<or> named_error v"
proof (cases "check_fd fd ESCRIPTURA \<noteq> 0 \<or> sint n < 0 \<or> \<not> access_ok VERIFY_READ b n")
  case True
  then show ?thesis
    using assms by (auto simp: sys_write_def check_fd_def Let_def split: if_splits)
next
  case False
  then have "v = n"
    using assms
    by (auto simp: sys_write_def Let_def dest!: sys_write_console_ret write_loop_nonneg split: bind_splits if_splits)
  then show ?thesis
    using False by simp
qed

lemma get_stats_from_result:
  "get_stats_from L i pid st k = Some (v, k') \<Longrightarrow> v = 0 \<or> v = - ESRCH"
proof (induction L i pid st k rule: get_stats_from.induct)
  case (1 L i pid st k)
  then show ?case
    by (auto simp: get_stats_from.simps [of L i] Let_def split: bind_splits if_splits)
qed

lemma sys_fork_result:
  assumes "sys_fork L k = Some (v, k')"
  shows "v = - ENOMEM \<or> v = - EAGAIN \<or> v = global_PID k'"
  using assms
  by (auto simp: sys_fork_def sys_fork_body_def Let_def case_prod_beta bind_eq_Some_conv fork_finish_def frame_leave_def
      init_stats_eq split: if_splits)

theorem errors_are_named:
  assumes "run_syscall L E e k = Inr (Some v, k')" and "e \<notin> {T_read, T_set_sched_policy, T_getpid, T_gettime}"
  shows "0 \<le> sint v \<or> named_error v \<or> e = T_fork \<and> v = global_PID k'"
proof (cases e)
  case T_write
  then show ?thesis
    using assms sys_write_result by (auto simp: returned_Inr)
next
  case T_fork
  then show ?thesis
    using assms sys_fork_result [of L k v k'] by (auto simp: returned_Inr)
next
  case T_get_stats
  then show ?thesis
    using assms by (auto simp: returned_Inr sys_get_stats_def dest: get_stats_from_result split: if_splits)
qed (use assms in \<open>auto simp: sys_ni_syscall_def\<close>)

end
