(* ===== verification/UserEntry.thy ===== *)
theory UserEntry
  imports Traps
begin

text \<open>
  The user side of a system call: the wrappers of user-utils.S, instruction by instruction on
  the user's stack.  The state is the kernel's record, whose registers and page tables the
  running program uses too.  A fault in user mode is the error \<^const>\<open>Page_fault\<close>; a call that
  ends with another task running is \<open>Inr (None, k)\<close> as in the handler.
\<close>

section \<open>The user's stack\<close>

text \<open>
  In user mode the processor also checks the user bit of both entries, and for a write their
  write bit.
\<close>

definition user_page :: "bool \<Rightarrow> mm_state \<Rightarrow> addr \<Rightarrow> bool" where
  "user_page w m a =
     (let pde = pte m ((cr3 m AND 0xfffff000) + 4 * drop_bit 22 a)
      in case page_entry (pte m) (cr3 m) a of
           None \<Rightarrow> False
         | Some e \<Rightarrow> pte_user pde = 1 \<and> pte_user e = 1 \<and> (w \<longrightarrow> pte_rw pde = 1 \<and> pte_rw e = 1))"

definition user_translate :: "bool \<Rightarrow> mm_state \<Rightarrow> translation" where
  "user_translate w m a = (if bit (cr0 m) 31 \<and> \<not> user_page w m a then None else translate m a)"

definition user_load :: "addr \<Rightarrow> kernel \<Rightarrow> dword option" where
  "user_load a k = load_dword (user_translate False (mm k)) (ram (mm k)) a"

definition user_store :: "addr \<Rightarrow> dword \<Rightarrow> kernel \<Rightarrow> kernel option" where
  "user_store a v k = do {
     m \<leftarrow> store_dword (user_translate True (mm k)) a v (ram (mm k));
     Some (upd_mm (ram_update (\<lambda>_. m)) k) }"

definition user_push :: "dword \<Rightarrow> kernel \<Rightarrow> kernel option" where
  "user_push v k = do {
     k \<leftarrow> user_store (esp (cpu k) - 4) v k;
     Some (upd_cpu (\<lambda>c. c\<lparr>esp := esp c - 4\<rparr>) k) }"

definition user_pop :: "(dword \<Rightarrow> cpu \<Rightarrow> cpu) \<Rightarrow> kernel \<Rightarrow> kernel option" where
  "user_pop f k = do {
     v \<leftarrow> user_load (esp (cpu k)) k;
     Some (upd_cpu (\<lambda>c. f v (c\<lparr>esp := esp c + 4\<rparr>)) k) }"

definition user_ret :: "kernel \<Rightarrow> kernel option" where
  "user_ret k = user_pop (\<lambda>v. eip_update (\<lambda>_. v)) k"

definition then_call :: "kernel option \<Rightarrow> (kernel \<Rightarrow> call_result) \<Rightarrow> call_result" where
  "then_call r f = (case r of None \<Rightarrow> Inl Page_fault | Some k \<Rightarrow> f k)"

definition then_back :: "call_result \<Rightarrow> (kernel \<Rightarrow> kernel option) \<Rightarrow> call_result" where
  "then_back r f = (case r of
     Inl e \<Rightarrow> Inl e
   | Inr (None, k) \<Rightarrow> Inr (None, k)
   | Inr (Some v, k) \<Rightarrow> (case f k of None \<Rightarrow> Inl Page_fault | Some k \<Rightarrow> Inr (Some (eax (cpu k)), k)))"

section \<open>sysenter and the way back\<close>

text \<open>Addresses the linker fixes: the two labels and the variable \<^verbatim>\<open>errno\<close>.\<close>

record user_labels =
  sysenter_return :: addr
  wrapper_return :: "nat \<Rightarrow> addr"
  errno_var :: addr

text \<open>The instruction takes stack and program counter from the model specific registers.\<close>

definition sysenter :: "kernel \<Rightarrow> kernel" where
  "sysenter k = upd_cpu (\<lambda>c. c\<lparr>esp := snd (msr k 0x175), eip := snd (msr k 0x176),
     eflags := eflags c AND NOT 0x200\<rparr>) k"

definition SYSENTER_RETURN :: "kernel \<Rightarrow> kernel option" where
  "SYSENTER_RETURN k = do {
     k \<leftarrow> user_pop (\<lambda>v. ebp_update (\<lambda>_. v)) k;
     k \<leftarrow> user_pop (\<lambda>v. edx_update (\<lambda>_. v)) k;
     k \<leftarrow> user_pop (\<lambda>v. edx_update (\<lambda>_. v)) k;
     k \<leftarrow> user_pop (\<lambda>v. ecx_update (\<lambda>_. v)) k;
     user_ret k }"

definition syscall_sysenter :: "layout \<Rightarrow> externals \<Rightarrow> user_labels \<Rightarrow> kernel \<Rightarrow> call_result" where
  "syscall_sysenter L E U k =
     then_call
       (do { k \<leftarrow> user_push (ecx (cpu k)) k;
             k \<leftarrow> user_push (edx (cpu k)) k;
             k \<leftarrow> user_push (sysenter_return U) k;
             k \<leftarrow> user_push (ebp (cpu k)) k;
             Some (upd_cpu (\<lambda>c. c\<lparr>ebp := esp c\<rparr>) k) })
       (\<lambda>k. then_back (system_call_handler L E (sysenter k)) SYSENTER_RETURN)"

section \<open>The wrappers\<close>

definition wrapper_enter :: "kernel \<Rightarrow> kernel option" where
  "wrapper_enter k = do {
     k \<leftarrow> user_push (ebp (cpu k)) k;
     Some (upd_cpu (\<lambda>c. c\<lparr>ebp := esp c\<rparr>) k) }"

definition wrapper_leave :: "kernel \<Rightarrow> kernel option" where
  "wrapper_leave k = do { k \<leftarrow> user_pop (\<lambda>v. ebp_update (\<lambda>_. v)) k; user_ret k }"

definition nok :: "user_labels \<Rightarrow> kernel \<Rightarrow> kernel option" where
  "nok U k = do {
     let k = upd_cpu (\<lambda>c. c\<lparr>eax := - eax c\<rparr>) k;
     k \<leftarrow> user_store (errno_var U) (eax (cpu k)) k;
     wrapper_leave (upd_cpu (\<lambda>c. c\<lparr>eax := -1\<rparr>) k) }"

text \<open>\<^verbatim>\<open>test %eax, %eax; js nok; popl %ebp; ret\<close>\<close>

definition wrapper_result :: "user_labels \<Rightarrow> kernel \<Rightarrow> kernel option" where
  "wrapper_result U k = (if sint (eax (cpu k)) < 0 then nok U k else wrapper_leave k)"

definition load_arg :: "nat \<Rightarrow> (dword \<Rightarrow> cpu \<Rightarrow> cpu) \<Rightarrow> kernel \<Rightarrow> kernel option" where
  "load_arg off f k = do {
     v \<leftarrow> user_load (ebp (cpu k) + of_nat off) k;
     Some (upd_cpu (f v) k) }"

text \<open>\<^verbatim>\<open>movl $nr, %eax; ...; call syscall_sysenter\<close>\<close>

definition call_sysenter :: "layout \<Rightarrow> externals \<Rightarrow> user_labels \<Rightarrow> nat \<Rightarrow> kernel \<Rightarrow> call_result" where
  "call_sysenter L E U nr k = then_call (user_push (wrapper_return U nr) k) (syscall_sysenter L E U)"

definition set_nr :: "nat \<Rightarrow> kernel \<Rightarrow> kernel" where
  "set_nr nr k = upd_cpu (\<lambda>c. c\<lparr>eax := of_nat nr\<rparr>) k"

definition pop_ebx :: "kernel \<Rightarrow> kernel option" where
  "pop_ebx k = user_pop (\<lambda>v. ebx_update (\<lambda>_. v)) k"

definition lib_write :: "layout \<Rightarrow> externals \<Rightarrow> user_labels \<Rightarrow> kernel \<Rightarrow> call_result" where
  "lib_write L E U k =
     then_back
       (then_call
         (do { k \<leftarrow> wrapper_enter k;
               k \<leftarrow> user_push (ebx (cpu k)) k;
               let k = set_nr 4 k;
               k \<leftarrow> load_arg 0x8 (\<lambda>v. ebx_update (\<lambda>_. v)) k;
               k \<leftarrow> load_arg 0xC (\<lambda>v. ecx_update (\<lambda>_. v)) k;
               load_arg 0x10 (\<lambda>v. edx_update (\<lambda>_. v)) k })
         (call_sysenter L E U 4))
       (\<lambda>k. do { k \<leftarrow> pop_ebx k; wrapper_result U k })"

definition lib_read :: "layout \<Rightarrow> externals \<Rightarrow> user_labels \<Rightarrow> kernel \<Rightarrow> call_result" where
  "lib_read L E U k =
     then_back
       (then_call
         (do { k \<leftarrow> wrapper_enter k;
               k \<leftarrow> user_push (ebx (cpu k)) k;
               let k = set_nr 3 k;
               k \<leftarrow> load_arg 0x8 (\<lambda>v. ebx_update (\<lambda>_. v)) k;
               k \<leftarrow> load_arg 0xC (\<lambda>v. ecx_update (\<lambda>_. v)) k;
               load_arg 0x10 (\<lambda>v. edx_update (\<lambda>_. v)) k })
         (call_sysenter L E U 3))
       (\<lambda>k. do { k \<leftarrow> pop_ebx k; wrapper_result U k })"

definition lib_set_sched_policy :: "layout \<Rightarrow> externals \<Rightarrow> user_labels \<Rightarrow> kernel \<Rightarrow> call_result" where
  "lib_set_sched_policy L E U k =
     then_back
       (then_call
         (do { k \<leftarrow> wrapper_enter k;
               k \<leftarrow> user_push (ebx (cpu k)) k;
               let k = set_nr 17 k;
               load_arg 0x8 (\<lambda>v. ebx_update (\<lambda>_. v)) k })
         (call_sysenter L E U 17))
       (\<lambda>k. do { k \<leftarrow> pop_ebx k; wrapper_result U k })"

definition lib_get_stats :: "layout \<Rightarrow> externals \<Rightarrow> user_labels \<Rightarrow> kernel \<Rightarrow> call_result" where
  "lib_get_stats L E U k =
     then_back
       (then_call
         (do { k \<leftarrow> wrapper_enter k;
               k \<leftarrow> user_push (ebx (cpu k)) k;
               let k = set_nr 35 k;
               k \<leftarrow> load_arg 0x8 (\<lambda>v. ebx_update (\<lambda>_. v)) k;
               load_arg 0xC (\<lambda>v. ecx_update (\<lambda>_. v)) k })
         (call_sysenter L E U 35))
       (\<lambda>k. do { k \<leftarrow> pop_ebx k; wrapper_result U k })"

definition lib_gettime :: "layout \<Rightarrow> externals \<Rightarrow> user_labels \<Rightarrow> kernel \<Rightarrow> call_result" where
  "lib_gettime L E U k =
     then_back
       (then_call (wrapper_enter k) (\<lambda>k. call_sysenter L E U 10 (set_nr 10 k))) wrapper_leave"

definition lib_getpid :: "layout \<Rightarrow> externals \<Rightarrow> user_labels \<Rightarrow> kernel \<Rightarrow> call_result" where
  "lib_getpid L E U k =
     then_back
       (then_call (wrapper_enter k) (\<lambda>k. call_sysenter L E U 20 (set_nr 20 k))) wrapper_leave"

definition lib_fork :: "layout \<Rightarrow> externals \<Rightarrow> user_labels \<Rightarrow> kernel \<Rightarrow> call_result" where
  "lib_fork L E U k =
     then_back
       (then_call (wrapper_enter k) (\<lambda>k. call_sysenter L E U 2 (set_nr 2 k))) (wrapper_result U)"

definition lib_exit :: "layout \<Rightarrow> externals \<Rightarrow> user_labels \<Rightarrow> kernel \<Rightarrow> call_result" where
  "lib_exit L E U k =
     then_back
       (then_call (wrapper_enter k) (\<lambda>k. call_sysenter L E U 1 (set_nr 1 k))) wrapper_leave"

definition lib_yield :: "layout \<Rightarrow> externals \<Rightarrow> user_labels \<Rightarrow> kernel \<Rightarrow> call_result" where
  "lib_yield L E U k =
     then_back
       (then_call (wrapper_enter k) (\<lambda>k. call_sysenter L E U 13 (set_nr 13 k))) wrapper_leave"

end
