(* ===== verification/UserEntrySpec.thy ===== *)
theory UserEntrySpec
  imports TrapSpec UserEntry
begin

text \<open>
  System calls as the user program sees them: from the call of a wrapper through \<^verbatim>\<open>sysenter\<close>, the
  handler, the routine and \<^verbatim>\<open>sysexit\<close> back to the instruction after the call.
\<close>

section \<open>The data pages as dwords\<close>

text \<open>
  \<open>user_map L k s i\<close>: where byte \<open>i\<close> of the data pages, from 0x108000 to 0x11C000, lies.  The
  kernel reaches it, and so does the program, for reading and for writing.
\<close>

definition user_map :: "layout \<Rightarrow> kernel \<Rightarrow> procs \<Rightarrow> nat \<Rightarrow> addr" where
  "user_map L k s i = phys (mm k) (pt_row L (p_run s)) (byte_at 0x108000 i)"

definition region :: "translation \<Rightarrow> (nat \<Rightarrow> addr) \<Rightarrow> bool" where
  "region tr D \<longleftrightarrow> mapped tr 0x108000 0x14000 D \<and> inj_on D {..<0x14000}"

lemma kernel_region:
  assumes "kinv L k s" and "p_run s \<noteq> 0"
  shows "region (translate (mm k)) (user_map L k s)"
proof -
  have "mapped (translate (mm k)) 0x108000 0x14000 (user_map L k s)"
    unfolding user_map_def by (rule call_buffers(1) [OF assms, of _ _ 0]) simp_all
  moreover have "inj_on (user_map L k s) {..<0x14000}"
    unfolding user_map_def by (rule phys_inj [OF assms]) simp_all
  ultimately show ?thesis
    by (simp add: region_def)
qed

lemma data_user_page:
  assumes inv: "kinv L k s" and run: "p_run s \<noteq> 0" and p: "unat a div 4096 \<in> {264..<284}"
  shows "user_page w (mm k) a"
proof -
  let ?p = "unat a div 4096" and ?PT = "pt_row L (p_run s)" and ?D = "dir_row L (p_run s)"
  have r: "p_run s \<in> users s"
    using run by (simp add: users_def run_alive)
  have sub: "?p - 264 < 20" "264 + (?p - 264) = ?p"
    using p by auto
  have e: "pt_entry (mm k) ?PT ?p = ss_entry (of_nat (p_frames s (p_run s) ! (?p - 264)))"
    using good_space_owns [OF kinv_users(1) [OF inv r]] sub unfolding owns_def by metis
  have "p_run s < 10"
    by (rule slots_members(1) [OF kinv_slots [OF inv]])
  then have d: "pte_user (pte (mm k) ?D) = 1" "pte_rw (pte (mm k) ?D) = 1"
    using inv by (simp_all add: kinv_def table_rows_def pt_entry_def)
  have "page_addr ?p (unat a mod 4096) = a"
    by (rule page_addr_of)
  then show ?thesis
    using walk_page [OF kinv_space [OF inv], of ?p "unat a mod 4096"] inv d p
    by (simp add: user_page_def Let_def kinv_def e)
qed

lemma user_region:
  assumes "kinv L k s" and "p_run s \<noteq> 0"
  shows "region (user_translate w (mm k)) (user_map L k s)"
proof -
  have "user_translate w (mm k) (byte_at 0x108000 i) = translate (mm k) (byte_at 0x108000 i)" if "i < 0x14000" for i
  proof -
    have "unat (byte_at 0x108000 i) = 0x108000 + i"
      using that by (subst unat_byte_at) simp_all
    moreover have "(0x108000 + i) div 4096 \<in> {264..<284}"
      using that div_le_mono [of "0x108000" "0x108000 + i" 4096] by (simp add: div_less_iff_less_mult)
    ultimately show ?thesis
      using data_user_page [OF assms, of "byte_at 0x108000 i"] by (simp add: user_translate_def)
  qed
  then show ?thesis
    using kernel_region [OF assms] by (simp add: region_def mapped_def)
qed

text \<open>The offset of a user address in the region, and the addresses a dword fits at.\<close>

abbreviation (input) off :: "addr \<Rightarrow> nat" where "off a \<equiv> unat a - 0x108000"

definition user_addr :: "addr \<Rightarrow> nat \<Rightarrow> bool" where
  "user_addr a n \<longleftrightarrow> 0x108000 \<le> unat a \<and> unat a + n \<le> 0x11C000"

lemma user_addr_off: "user_addr a n \<Longrightarrow> n + off a \<le> 0x14000"
  unfolding user_addr_def by linarith

lemma region_mapped:
  assumes "region tr D" and "user_addr a n"
  shows "mapped tr a n (\<lambda>i. D (i + off a))"
proof -
  have a: "byte_at 0x108000 (off a) = a"
  proof -
    have "(of_nat (0x108000 + off a) :: addr) = of_nat (unat a)"
      using assms(2) by (simp only: user_addr_def le_add_diff_inverse)
    then show ?thesis
      by (simp add: byte_at_def)
  qed
  have "mapped tr 0x108000 (n + off a) D"
    using assms(1) user_addr_off [OF assms(2)] unfolding region_def by (blast intro: mapped_less)
  from mapped_shift [OF this] show ?thesis
    by (simp add: a)
qed

lemma region_inj: "region tr D \<Longrightarrow> i < 0x14000 \<Longrightarrow> j < 0x14000 \<Longrightarrow> D i = D j \<longleftrightarrow> i = j"
  by (auto simp: region_def inj_on_def)

text \<open>The dword at a user address, as the bytes of the data pages give it.\<close>

definition user_dword :: "(nat \<Rightarrow> addr) \<Rightarrow> memory \<Rightarrow> addr \<Rightarrow> dword" where
  "user_dword D m a =
     dword_of_bytes (m (D (off a))) (m (D (1 + off a))) (m (D (2 + off a))) (m (D (3 + off a)))"

lemma region_load:
  assumes "region tr D" and "user_addr a 4"
  shows "load_dword tr m a = Some (user_dword D m a)"
  using load_dword_mapped [OF region_mapped [OF assms]] by (simp add: user_dword_def)

lemma user_dword_cong:
  assumes "\<And>i. off a \<le> i \<Longrightarrow> i < 4 + off a \<Longrightarrow> m' (D i) = m (D i)"
  shows "user_dword D m' a = user_dword D m a"
  using assms by (simp add: user_dword_def)

lemma region_store:
  assumes R: "region tr D" and a: "user_addr a 4"
  shows "\<exists>m'. store_dword tr a v m = Some m' \<and> user_dword D m' a = v \<and>
    (\<forall>x. (\<forall>i. off a \<le> i \<longrightarrow> i < 4 + off a \<longrightarrow> x \<noteq> D i) \<longrightarrow> m' x = m x)"
proof -
  let ?o = "off a"
  let ?m = "m(D ?o := byte_of 0 v, D (1 + ?o) := byte_of 1 v, D (2 + ?o) := byte_of 2 v, D (3 + ?o) := byte_of 3 v)"
  have s: "store_dword tr a v m = Some ?m"
    using store_dword_mapped [OF region_mapped [OF R a]] by simp
  have o: "?o + 3 < 0x14000"
    using user_addr_off [OF a] by simp
  have ne: "D (i + ?o) \<noteq> D (j + ?o)" if "i < 4" "j < 4" "i \<noteq> j" for i j
    using region_inj [OF R, of "i + ?o" "j + ?o"] that o by simp
  have "user_dword D ?m a = v"
    using ne [of 0 1] ne [of 0 2] ne [of 0 3] ne [of 1 2] ne [of 1 3] ne [of 2 3]
    by (simp add: user_dword_def dword_of_bytes_of [unfolded One_nat_def])
  moreover have "?m x = m x" if "\<forall>i. ?o \<le> i \<longrightarrow> i < 4 + ?o \<longrightarrow> x \<noteq> D i" for x
    using that by simp
  ultimately show ?thesis
    using s by blast
qed

section \<open>Pushes\<close>

fun push_all :: "translation \<Rightarrow> addr \<Rightarrow> dword list \<Rightarrow> memory \<Rightarrow> memory option" where
  "push_all tr e [] m = Some m"
| "push_all tr e (v # vs) m = do { m \<leftarrow> store_dword tr (e - 4) v m; push_all tr (e - 4) vs m }"

text \<open>What lies in the dwords below an address, the one pushed first at the top.\<close>

definition pushed :: "(nat \<Rightarrow> addr) \<Rightarrow> addr \<Rightarrow> dword list \<Rightarrow> memory \<Rightarrow> bool" where
  "pushed D e vs m \<longleftrightarrow> (\<forall>i < length vs. user_dword D m (e - 4 * of_nat (Suc i)) = vs ! i)"

lemma unat_down: "n \<le> unat (e :: addr) \<Longrightarrow> unat (e - of_nat n) = unat e - n"
  using unat_bound32 [of e] by (simp add: unat_sub word_le_nat_alt unat_of_nat)

lemma push_all_region:
  assumes "region tr D" and "0x108000 + 4 * length vs \<le> unat e" and "unat e \<le> 0x11C000"
  shows "\<exists>m'. push_all tr e vs m = Some m' \<and> pushed D e vs m' \<and>
    (\<forall>x. (\<forall>i. off e - 4 * length vs \<le> i \<longrightarrow> i < off e \<longrightarrow> x \<noteq> D i) \<longrightarrow> m' x = m x)"
  using assms(2,3)
proof (induction vs arbitrary: e m)
  case (Cons v vs)
  have u: "unat (e - 4) = unat e - 4"
    using unat_down [of 4 e] Cons.prems by simp
  have a: "user_addr (e - 4) 4"
    using Cons.prems by (simp add: user_addr_def u)
  obtain m1 where m1: "store_dword tr (e - 4) v m = Some m1" "user_dword D m1 (e - 4) = v"
      "\<And>x. (\<And>i. off (e - 4) \<le> i \<Longrightarrow> i < 4 + off (e - 4) \<Longrightarrow> x \<noteq> D i) \<Longrightarrow> m1 x = m x"
    using region_store [OF assms(1) a, of v m] by blast
  obtain m' where m': "push_all tr (e - 4) vs m1 = Some m'" "pushed D (e - 4) vs m'"
      "\<And>x. (\<And>i. off (e - 4) - 4 * length vs \<le> i \<Longrightarrow> i < off (e - 4) \<Longrightarrow> x \<noteq> D i) \<Longrightarrow> m' x = m1 x"
    using Cons.IH [of "e - 4" m1] Cons.prems unfolding u by (simp only: list.size) (elim meta_impE exE conjE; simp; blast?)
  have "user_dword D m' (e - 4) = user_dword D m1 (e - 4)"
  proof (rule user_dword_cong)
    fix i
    assume i: "off (e - 4) \<le> i" "i < 4 + off (e - 4)"
    then have "D i \<noteq> D j" if "j < off (e - 4)" for j
      using that region_inj [OF assms(1), of i j] Cons.prems by (simp add: u)
    then show "m' (D i) = m1 (D i)"
      by (intro m'(3))
  qed
  then have "pushed D e (v # vs) m'"
    using m1(2) m'(2) by (auto simp: pushed_def less_Suc_eq_0_disj algebra_simps)
  moreover have "m' x = m x"
    if x: "\<And>i. off e - 4 * length (v # vs) \<le> i \<Longrightarrow> i < off e \<Longrightarrow> x \<noteq> D i" for x
  proof -
    have "m' x = m1 x"
      using Cons.prems by (intro m'(3) x) (simp_all add: u)
    also have "\<dots> = m x"
      using Cons.prems by (intro m1(3) x) (simp_all add: u)
    finally show ?thesis .
  qed
  ultimately show ?case
    using m1(1) m'(1) by (intro exI [of _ m']) simp
qed (simp add: pushed_def)

lemma push_all_append:
  "push_all tr e (vs @ ws) m = do { m \<leftarrow> push_all tr e vs m; push_all tr (e - 4 * of_nat (length vs)) ws m }"
  by (induction vs arbitrary: e m) (auto simp: algebra_simps split: bind_splits)

lemma pushed_nth:
  "pushed D e vs m \<Longrightarrow> i < length vs \<Longrightarrow> user_dword D m (e - 4 * of_nat (Suc i)) = vs ! i"
  by (simp add: pushed_def)

lemma user_translate_ram [simp]: "user_translate w (ram_update f m) = user_translate w m"
  by (simp add: user_translate_def user_page_def fun_eq_iff)

lemma user_push_Some:
  "store_dword (user_translate True (mm k)) (esp (cpu k) - 4) v (ram (mm k)) = Some m \<Longrightarrow>
   user_push v k = Some (upd_cpu (\<lambda>c. c\<lparr>esp := esp c - 4\<rparr>) (upd_mm (ram_update (\<lambda>_. m)) k))"
  by (simp add: user_push_def user_store_def)

section \<open>From user mode to user mode\<close>

text \<open>The state in which the handler starts, with the user's memory after the pushes.\<close>

definition in_kernel :: "addr \<Rightarrow> memory \<Rightarrow> kernel \<Rightarrow> kernel" where
  "in_kernel e m k = sysenter (upd_cpu (\<lambda>c. c\<lparr>esp := e, ebp := e\<rparr>) (upd_mm (ram_update (\<lambda>_. m)) k))"

lemma in_kernel_simps [simp]:
  "translate (mm (in_kernel e m k)) = translate (mm k)" "ram (mm (in_kernel e m k)) = m"
  "tasks (in_kernel e m k) = tasks k" "lists (in_kernel e m k) = lists k" "tty (in_kernel e m k) = tty k"
  "msr (in_kernel e m k) = msr k" "zeos_ticks (in_kernel e m k) = zeos_ticks k"
  "same_core k (in_kernel e m k)"
  by (simp_all add: in_kernel_def sysenter_def same_core_def upd_mm_def)

lemma in_kernel_cpu: "cpu (in_kernel e m k) = (cpu k)\<lparr>esp := snd (msr k 0x175), ebp := e, eip := snd (msr k 0x176),
    eflags := eflags (cpu k) AND NOT 0x200\<rparr>"
  by (simp add: in_kernel_def sysenter_def upd_cpu_def upd_mm_def)

lemma sysenter_enters:
  assumes "push_all (user_translate True (mm k)) (esp (cpu k))
      [wrapper_return U nr, ecx (cpu k), edx (cpu k), sysenter_return U, ebp (cpu k)] (ram (mm k)) = Some m"
  shows "call_sysenter L E U nr k =
    then_back (system_call_handler L E (in_kernel (esp (cpu k) - 20) m k)) SYSENTER_RETURN"
proof -
  let ?e = "esp (cpu k)"
  obtain m1 m2 m3 m4 where "store_dword (user_translate True (mm k)) (?e - 4) (wrapper_return U nr) (ram (mm k)) = Some m1"
      "store_dword (user_translate True (mm k)) (?e - 8) (ecx (cpu k)) m1 = Some m2"
      "store_dword (user_translate True (mm k)) (?e - 12) (edx (cpu k)) m2 = Some m3"
      "store_dword (user_translate True (mm k)) (?e - 16) (sysenter_return U) m3 = Some m4"
      "store_dword (user_translate True (mm k)) (?e - 20) (ebp (cpu k)) m4 = Some m"
    using assms by (auto split: bind_splits)
  then show ?thesis
    by (simp add: call_sysenter_def syscall_sysenter_def user_push_Some then_call_def in_kernel_def upd_cpu_def upd_mm_def)
qed

lemma SYSENTER_RETURN_pops:
  assumes "\<And>i. i < 5 \<Longrightarrow> user_load (esp (cpu k) + 4 * of_nat i) k = Some (vs ! i)"
  shows "SYSENTER_RETURN k = Some (upd_cpu (\<lambda>c. c\<lparr>ebp := vs ! 0, edx := vs ! 2, ecx := vs ! 3, esp := esp c + 20, eip := vs ! 4\<rparr>) k)"
  using assms [of 0] assms [of 1] assms [of 2] assms [of 3] assms [of 4]
  by (simp add: SYSENTER_RETURN_def user_ret_def user_pop_def user_load_def upd_cpu_def add.commute [of "esp (cpu k)"])

text \<open>
  The pushes change the user's memory only below the stack pointer.  \<open>calls k m v k2\<close>: with the
  memory \<open>m\<close> after the pushes, the routine the number in eax names returns \<open>v\<close> and leaves the
  state \<open>k2\<close>.
\<close>

definition calls :: "layout \<Rightarrow> externals \<Rightarrow> user_labels \<Rightarrow> kernel \<Rightarrow> memory \<Rightarrow> cint \<Rightarrow> kernel \<Rightarrow> bool" where
  "calls L E U k m v k2 \<longleftrightarrow>
     unat (eax (cpu k)) < 36 \<and> sys_call_table ! unat (eax (cpu k)) \<in> plain_calls \<and>
     run_syscall L E (sys_call_table ! unat (eax (cpu k)))
       (call_state L (sysenter_return U) (in_kernel (esp (cpu k) - 20) m k)) = Inr (Some v, k2)"

lemma call_sysenter_round_trip:
  assumes inv: "kinv L k s" and run: "p_run s \<noteq> 0"
    and sp: "0x108000 + 20 \<le> unat (esp (cpu k))" "unat (esp (cpu k)) \<le> 0x11C000"
    and push: "push_all (user_translate True (mm k)) (esp (cpu k))
      [wrapper_return U nr, ecx (cpu k), edx (cpu k), sysenter_return U, ebp (cpu k)] (ram (mm k)) = Some m"
    and call: "calls L E U k m v k2" and mem: "mm k2 = ram_update (\<lambda>_. r) (mm k)"
    and same: "\<And>i. off (esp (cpu k)) - 20 \<le> i \<Longrightarrow> i < off (esp (cpu k)) \<Longrightarrow> r (user_map L k s i) = m (user_map L k s i)"
  shows "\<exists>k'. call_sysenter L E U nr k = Inr (Some v, k') \<and>
    cpu k' = (cpu k)\<lparr>eax := v, eip := wrapper_return U nr, eflags := (eflags (cpu k) AND NOT 0x200) OR 0x200\<rparr> \<and>
    mm k' = mm k2 \<and> tasks k' = tasks k2 \<and> tty k' = tty k2 \<and> lists k' = lists k"
proof -
  let ?e = "esp (cpu k)" and ?D = "user_map L k s"
  let ?vs = "[wrapper_return U nr, ecx (cpu k), edx (cpu k), sysenter_return U, ebp (cpu k)]"
  let ?K = "in_kernel (?e - 20) m k"
  have pd: "pushed ?D ?e ?vs m"
    using push_all_region [OF user_region [OF inv run, of True], of ?vs ?e "ram (mm k)"] sp push by auto
  have u: "unat (?e - 20 + 4 * of_nat i) = unat ?e - 20 + 4 * i" if "i < 5" for i
    using that sp unat_down [of 20 ?e] unat_byte_at [of "?e - 20" "4 * i"] by (simp add: byte_at_def)
  have ua: "user_addr (?e - 20 + 4 * of_nat i) 4" if "i < 5" for i
    unfolding user_addr_def u [OF that] using that sp by linarith
  have word: "user_dword ?D r (?e - 20 + 4 * of_nat i) = rev ?vs ! i" and wordm: "user_dword ?D m (?e - 20 + 4 * of_nat i) = rev ?vs ! i"
    if "i < 5" for i
  proof -
    have "?e - 4 * of_nat (Suc (4 - i)) = ?e - 20 + 4 * of_nat i"
      using that by (simp add: of_nat_diff)
    moreover have "user_dword ?D m (?e - 4 * of_nat (Suc (4 - i))) = ?vs ! (4 - i)"
      by (rule pushed_nth [OF pd]) (use that in simp)
    moreover have "rev ?vs ! i = ?vs ! (4 - i)"
      using that rev_nth [of i ?vs] by (simp add: eval_nat_numeral del: rev.simps)
    ultimately show m: "user_dword ?D m (?e - 20 + 4 * of_nat i) = rev ?vs ! i"
      by metis
    have "user_dword ?D r (?e - 20 + 4 * of_nat i) = user_dword ?D m (?e - 20 + 4 * of_nat i)"
      using that sp by (intro user_dword_cong same) (simp_all add: u)
    then show "user_dword ?D r (?e - 20 + 4 * of_nat i) = rev ?vs ! i"
      using m by simp
  qed
  have "load_dword (translate (mm ?K)) (ram (mm ?K)) (ebp (cpu ?K) + 4) = Some (sysenter_return U)"
    using region_load [OF kernel_region [OF inv run] ua [of 1], of m] wordm [of 1] by (simp add: in_kernel_cpu)
  from plain_call_returns [OF this, of L E] call obtain kk where
    kk: "system_call_handler L E ?K = Inr (Some v, kk)" "mm kk = mm k2" "tasks kk = tasks k2" "tty kk = tty k2" "lists kk = lists k"
      "cpu kk = (cpu ?K)\<lparr>eax := v, ecx := ?e - 20, edx := sysenter_return U, eip := sysenter_return U,
         esp := ?e - 20, eflags := eflags (cpu ?K) OR 0x200\<rparr>"
    by (auto simp: calls_def in_kernel_cpu)
  have "user_load (esp (cpu kk) + 4 * of_nat i) kk = Some (rev ?vs ! i)" if "i < 5" for i
    using region_load [OF user_region [OF inv run, of False] ua [OF that], of r] word [OF that]
    by (simp add: user_load_def kk mem)
  from SYSENTER_RETURN_pops [of kk, OF this] show ?thesis
    unfolding sysenter_enters [OF push]
    by (simp add: then_back_def kk(1)) (simp add: upd_cpu_def kk in_kernel_cpu)
qed

section \<open>Wrappers without arguments\<close>

lemma user_map_mem: "pte (mm k') = pte (mm k) \<Longrightarrow> user_map L k' s = user_map L k s"
  by (simp add: user_map_def phys_def frame_of_def get_frame_def fun_eq_iff)

lemma in_kernel_mm: "mm (in_kernel e m k) = ram_update (\<lambda>_. m) (mm k)"
  by (simp add: in_kernel_def sysenter_def upd_cpu_def upd_mm_def)

text \<open>
  What the caller finds when a wrapper without arguments has returned \<open>v\<close>: its registers, the
  stack pointer behind the return address, and all memory but the six dwords below.
\<close>

definition user_returned :: "(nat \<Rightarrow> addr) \<Rightarrow> kernel \<Rightarrow> cint \<Rightarrow> kernel \<Rightarrow> bool" where
  "user_returned D k v k' \<longleftrightarrow>
     cpu k' = (cpu k)\<lparr>eax := v, esp := esp (cpu k) + 4, eip := user_dword D (ram (mm k)) (esp (cpu k)),
       eflags := (eflags (cpu k) AND NOT 0x200) OR 0x200\<rparr> \<and>
     tasks k' = tasks k \<and> tty k' = tty k \<and> lists k' = lists k \<and>
     (\<forall>x. (\<forall>i. off (esp (cpu k)) - 24 \<le> i \<longrightarrow> i < off (esp (cpu k)) \<longrightarrow> x \<noteq> D i) \<longrightarrow>
        ram (mm k') x = ram (mm k) x)"

definition noarg_call :: "layout \<Rightarrow> externals \<Rightarrow> user_labels \<Rightarrow> nat \<Rightarrow> kernel \<Rightarrow> call_result" where
  "noarg_call L E U nr k =
     then_back (then_call (wrapper_enter k) (\<lambda>k. call_sysenter L E U nr (set_nr nr k))) wrapper_leave"

definition after_enter :: "nat \<Rightarrow> memory \<Rightarrow> kernel \<Rightarrow> kernel" where
  "after_enter nr m k = set_nr nr (upd_cpu (\<lambda>c. c\<lparr>esp := esp c - 4, ebp := esp c - 4\<rparr>) (upd_mm (ram_update (\<lambda>_. m)) k))"

lemma after_enter_simps [simp]:
  "mm (after_enter nr m k) = ram_update (\<lambda>_. m) (mm k)" "tasks (after_enter nr m k) = tasks k"
  "tty (after_enter nr m k) = tty k" "lists (after_enter nr m k) = lists k" "msr (after_enter nr m k) = msr k"
  "zeos_ticks (after_enter nr m k) = zeos_ticks k"
  "cpu (after_enter nr m k) = (cpu k)\<lparr>eax := of_nat nr, esp := esp (cpu k) - 4, ebp := esp (cpu k) - 4\<rparr>"
  "same_core k (after_enter nr m k)"
  by (simp_all add: after_enter_def set_nr_def upd_cpu_def upd_mm_def same_core_def)

lemma noarg_round_trip:
  assumes inv: "kinv L k s" and run: "p_run s \<noteq> 0"
    and sp: "0x108000 + 24 \<le> unat (esp (cpu k))" "unat (esp (cpu k)) + 4 \<le> 0x11C000"
    and call: "\<And>m0 m. \<exists>k2. calls L E U (after_enter nr m0 k) m v k2 \<and> mm k2 = ram_update (\<lambda>_. m) (mm k) \<and>
      tasks k2 = tasks k \<and> tty k2 = tty k"
  shows "\<exists>k'. noarg_call L E U nr k = Inr (Some v, k') \<and> user_returned (user_map L k s) k v k'"
proof -
  let ?e = "esp (cpu k)" and ?D = "user_map L k s" and ?tr = "user_translate True (mm k)"
  have u4: "unat (?e - 4) = unat ?e - 4"
    using unat_down [of 4 ?e] sp by simp
  have ua: "user_addr (?e - 4) 4" "user_addr ?e 4"
    using sp by (simp_all add: user_addr_def u4)
  obtain m0 where m0: "store_dword ?tr (?e - 4) (ebp (cpu k)) (ram (mm k)) = Some m0" "user_dword ?D m0 (?e - 4) = ebp (cpu k)"
      "\<And>x. (\<And>i. off (?e - 4) \<le> i \<Longrightarrow> i < 4 + off (?e - 4) \<Longrightarrow> x \<noteq> ?D i) \<Longrightarrow> m0 x = ram (mm k) x"
    using region_store [OF user_region [OF inv run, of True] ua(1), of "ebp (cpu k)" "ram (mm k)"] by blast
  define k1 where "k1 = after_enter nr m0 k"
  have enter: "then_call (wrapper_enter k) (\<lambda>k. call_sysenter L E U nr (set_nr nr k)) = call_sysenter L E U nr k1"
    using m0(1) by (simp add: then_call_def wrapper_enter_def user_push_Some k1_def after_enter_def)
      (simp add: upd_cpu_def upd_mm_def)
  have inv1: "kinv L k1 s" and D1: "user_map L k1 s = ?D"
    using kinv_same_core [OF inv, of k1] user_map_mem [of k1 k] by (simp_all add: k1_def)
  let ?vs = "[wrapper_return U nr, ecx (cpu k1), edx (cpu k1), sysenter_return U, ebp (cpu k1)]"
  have sp1: "0x108000 + 20 \<le> unat (esp (cpu k1))" "unat (esp (cpu k1)) \<le> 0x11C000" "esp (cpu k1) = ?e - 4"
    using sp by (simp_all add: k1_def u4)
  obtain m where m: "push_all (user_translate True (mm k1)) (esp (cpu k1)) ?vs (ram (mm k1)) = Some m"
      "\<And>x. (\<And>i. off (esp (cpu k1)) - 20 \<le> i \<Longrightarrow> i < off (esp (cpu k1)) \<Longrightarrow> x \<noteq> ?D i) \<Longrightarrow> m x = ram (mm k1) x"
    using push_all_region [OF user_region [OF inv1 run, of True], of ?vs "esp (cpu k1)" "ram (mm k1)"] sp1(1,2)
    by (auto simp: D1)
  obtain k2 where k2: "calls L E U k1 m v k2" "mm k2 = ram_update (\<lambda>_. m) (mm k1)" "tasks k2 = tasks k" "tty k2 = tty k"
    using call [of m0 m] by (auto simp: k1_def)
  obtain k3 where k3: "call_sysenter L E U nr k1 = Inr (Some v, k3)" "mm k3 = ram_update (\<lambda>_. m) (mm k)"
      "tasks k3 = tasks k" "tty k3 = tty k" "lists k3 = lists k"
      "cpu k3 = (cpu k1)\<lparr>eax := v, eip := wrapper_return U nr, eflags := (eflags (cpu k) AND NOT 0x200) OR 0x200\<rparr>"
    using call_sysenter_round_trip [OF inv1 run sp1(1,2) m(1) k2(1,2)] k2 by (auto simp: k1_def)
  have above: "m (?D i) = m0 (?D i)" if "off (?e - 4) \<le> i" "i < 0x14000" for i
  proof -
    have "?D i \<noteq> ?D j" if "j < off (esp (cpu k1))" for j
      using that \<open>off (?e - 4) \<le> i\<close> \<open>i < 0x14000\<close> region_inj [OF kernel_region [OF inv run], of i j] sp1(3) by simp
    then show ?thesis
      using m(2) [of "?D i"] by (simp add: k1_def)
  qed
  have top: "off ?e + 4 \<le> 0x14000"
    using sp by linarith
  have "user_dword ?D m (?e - 4) = ebp (cpu k)"
    using user_dword_cong [of "?e - 4" m ?D m0] above top m0(2) by (simp add: u4)
  then have l1: "user_load (?e - 4) k3 = Some (ebp (cpu k))"
    using region_load [OF user_region [OF inv run, of False] ua(1), of m] by (simp add: user_load_def k3(2))
  have "user_dword ?D m ?e = user_dword ?D (ram (mm k)) ?e"
  proof (rule user_dword_cong)
    fix i
    assume i: "off ?e \<le> i" "i < 4 + off ?e"
    then have "?D i \<noteq> ?D j" if "j < 4 + off (?e - 4)" for j
      using that sp top region_inj [OF kernel_region [OF inv run], of i j] by (simp add: u4)
    then have "m0 (?D i) = ram (mm k) (?D i)"
      by (intro m0(3))
    then show "m (?D i) = ram (mm k) (?D i)"
      using above [of i] i top by (simp add: u4)
  qed
  then have l2: "user_load ?e k3 = Some (user_dword ?D (ram (mm k)) ?e)"
    using region_load [OF user_region [OF inv run, of False] ua(2), of m] by (simp add: user_load_def k3(2))
  have "m x = ram (mm k) x" if x: "\<And>i. off ?e - 24 \<le> i \<Longrightarrow> i < off ?e \<Longrightarrow> x \<noteq> ?D i" for x
  proof -
    have "m x = ram (mm k1) x"
      using sp by (intro m(2) x) (simp_all add: sp1(3) u4)
    also have "\<dots> = ram (mm k) x"
      using sp m0(3) [of x] x by (simp add: k1_def u4)
    finally show ?thesis .
  qed
  moreover have "user_load a (upd_cpu f k3) = user_load a k3" for a f
    by (simp add: user_load_def upd_cpu_def)
  ultimately show ?thesis
    using l1 l2 unfolding noarg_call_def enter k3(1)
    by (simp add: then_back_def wrapper_leave_def user_ret_def user_pop_def k3(6) k1_def)
      (simp add: user_returned_def upd_cpu_def k3 k1_def)
qed

section \<open>Wrappers with arguments\<close>

lemma syscall_args:
  "syscall_arg 0 (call_state L ret k) = ebx (cpu k)" "syscall_arg 1 (call_state L ret k) = ecx (cpu k)"
  "syscall_arg 2 (call_state L ret k) = edx (cpu k)"
  using call_state_frame [of L ret k]
  by (simp_all add: syscall_arg_def call_state_cpu call_frame_def frame_at_def Let_def)

definition arg3_enter :: "nat \<Rightarrow> kernel \<Rightarrow> kernel option" where
  "arg3_enter nr k = do {
     k \<leftarrow> wrapper_enter k;
     k \<leftarrow> user_push (ebx (cpu k)) k;
     let k = set_nr nr k;
     k \<leftarrow> load_arg 0x8 (\<lambda>v. ebx_update (\<lambda>_. v)) k;
     k \<leftarrow> load_arg 0xC (\<lambda>v. ecx_update (\<lambda>_. v)) k;
     load_arg 0x10 (\<lambda>v. edx_update (\<lambda>_. v)) k }"

definition arg3_leave :: "user_labels \<Rightarrow> kernel \<Rightarrow> kernel option" where
  "arg3_leave U k = do { k \<leftarrow> pop_ebx k; wrapper_result U k }"

definition arg3_call :: "layout \<Rightarrow> externals \<Rightarrow> user_labels \<Rightarrow> nat \<Rightarrow> kernel \<Rightarrow> call_result" where
  "arg3_call L E U nr k = then_back (then_call (arg3_enter nr k) (call_sysenter L E U nr)) (arg3_leave U)"

lemma lib_write_arg3: "lib_write L E U k = arg3_call L E U 4 k" "lib_read L E U k = arg3_call L E U 3 k"
  by (simp_all add: lib_write_def lib_read_def arg3_call_def arg3_enter_def arg3_leave_def [abs_def])

text \<open>The state when the wrapper calls \<^verbatim>\<open>syscall_sysenter\<close>.\<close>

definition after_args :: "nat \<Rightarrow> memory \<Rightarrow> dword \<Rightarrow> dword \<Rightarrow> dword \<Rightarrow> kernel \<Rightarrow> kernel" where
  "after_args nr m x y z k = upd_cpu (\<lambda>c. c\<lparr>eax := of_nat nr, ebx := x, ecx := y, edx := z, esp := esp c - 8, ebp := esp c - 4\<rparr>)
     (upd_mm (ram_update (\<lambda>_. m)) k)"

lemma after_args_simps [simp]:
  "mm (after_args nr m x y z k) = ram_update (\<lambda>_. m) (mm k)" "tasks (after_args nr m x y z k) = tasks k"
  "tty (after_args nr m x y z k) = tty k" "lists (after_args nr m x y z k) = lists k" "msr (after_args nr m x y z k) = msr k"
  "cpu (after_args nr m x y z k) =
     (cpu k)\<lparr>eax := of_nat nr, ebx := x, ecx := y, edx := z, esp := esp (cpu k) - 8, ebp := esp (cpu k) - 4\<rparr>"
  "same_core k (after_args nr m x y z k)"
  by (simp_all add: after_args_def upd_cpu_def upd_mm_def same_core_def)

text \<open>Two memories agree on the data pages outside the \<open>n\<close> bytes below an address.\<close>

definition agree_outside :: "(nat \<Rightarrow> addr) \<Rightarrow> addr \<Rightarrow> nat \<Rightarrow> memory \<Rightarrow> memory \<Rightarrow> bool" where
  "agree_outside D e n m m' \<longleftrightarrow> (\<forall>i < 0x14000. i < off e - n \<or> off e \<le> i \<longrightarrow> m' (D i) = m (D i))"

lemma agree_dword:
  assumes "agree_outside D e n m m'" and "user_addr a 4" and "unat a + 4 \<le> unat e - n \<or> unat e \<le> unat a"
    and "user_addr e 0"
  shows "user_dword D m' a = user_dword D m a"
  using assms(1,3,4) user_addr_off [OF assms(2)] assms(2) unfolding user_addr_def
  by (intro user_dword_cong) (auto simp: agree_outside_def)

lemma agree_trans:
  assumes "agree_outside D e n m m'" and "agree_outside D (e - of_nat n) n' m' m''" and "n \<le> unat e"
    and "0x108000 + n + n' \<le> unat e"
  shows "agree_outside D e (n + n') m m''"
  using assms unat_down [OF assms(3)] unfolding agree_outside_def by auto

lemma push_all_agree:
  assumes inv: "kinv L k s" and run: "p_run s \<noteq> 0"
    and sp: "0x108000 + 4 * length vs \<le> unat e" "unat e \<le> 0x11C000"
  shows "\<exists>m'. push_all (user_translate True (mm k)) e vs m = Some m' \<and> pushed (user_map L k s) e vs m' \<and>
    agree_outside (user_map L k s) e (4 * length vs) m m' \<and>
    (\<forall>x. (\<forall>i. off e - 4 * length vs \<le> i \<longrightarrow> i < off e \<longrightarrow> x \<noteq> user_map L k s i) \<longrightarrow> m' x = m x)"
proof -
  let ?D = "user_map L k s"
  obtain m' where m': "push_all (user_translate True (mm k)) e vs m = Some m'" "pushed ?D e vs m'"
      "\<And>x. (\<And>i. off e - 4 * length vs \<le> i \<Longrightarrow> i < off e \<Longrightarrow> x \<noteq> ?D i) \<Longrightarrow> m' x = m x"
    using push_all_region [OF user_region [OF inv run, of True] sp] by blast
  have "agree_outside ?D e (4 * length vs) m m'"
    unfolding agree_outside_def
  proof (intro allI impI)
    fix i
    assume i: "i < 0x14000" "i < off e - 4 * length vs \<or> off e \<le> i"
    have "off e \<le> 0x14000"
      using sp by linarith
    then show "m' (?D i) = m (?D i)"
      using i region_inj [OF kernel_region [OF inv run], of i] by (intro m'(3)) auto
  qed
  with m' show ?thesis by blast
qed

lemma user_load_cpu [simp]: "user_load a (cpu_update f k) = user_load a k"
  by (simp add: user_load_def)

lemma user_load_region:
  assumes "kinv L k s" and "p_run s \<noteq> 0" and "user_addr a 4" and "mm k' = ram_update (\<lambda>_. m) (mm k)"
  shows "user_load a k' = Some (user_dword (user_map L k s) m a)"
  using region_load [OF user_region [OF assms(1,2), of False] assms(3), of m] assms(4) by (simp add: user_load_def)

lemma arg3_enters:
  assumes inv: "kinv L k s" and run: "p_run s \<noteq> 0"
    and sp: "0x108000 + 8 \<le> unat (esp (cpu k))" "unat (esp (cpu k)) + 16 \<le> 0x11C000"
  defines "e \<equiv> esp (cpu k)" and "D \<equiv> user_map L k s"
  defines "x \<equiv> user_dword D (ram (mm k)) (e + 4)" and "y \<equiv> user_dword D (ram (mm k)) (e + 8)"
    and "z \<equiv> user_dword D (ram (mm k)) (e + 12)"
  shows "\<exists>m0. arg3_enter nr k = Some (after_args nr m0 x y z k) \<and> pushed D e [ebp (cpu k), ebx (cpu k)] m0 \<and>
    agree_outside D e 8 (ram (mm k)) m0 \<and>
    (\<forall>p. (\<forall>i. off e - 8 \<le> i \<longrightarrow> i < off e \<longrightarrow> p \<noteq> D i) \<longrightarrow> m0 p = ram (mm k) p)"
proof -
  obtain m0 where m0: "push_all (user_translate True (mm k)) e [ebp (cpu k), ebx (cpu k)] (ram (mm k)) = Some m0"
      "pushed D e [ebp (cpu k), ebx (cpu k)] m0" "agree_outside D e 8 (ram (mm k)) m0"
      "\<And>p. (\<And>i. off e - 8 \<le> i \<Longrightarrow> i < off e \<Longrightarrow> p \<noteq> D i) \<Longrightarrow> m0 p = ram (mm k) p"
    using push_all_agree [OF inv run, of "[ebp (cpu k), ebx (cpu k)]" e "ram (mm k)"] sp unfolding e_def D_def by auto
  obtain m' where st: "store_dword (user_translate True (mm k)) (e - 4) (ebp (cpu k)) (ram (mm k)) = Some m'"
      "store_dword (user_translate True (mm k)) (e - 8) (ebx (cpu k)) m' = Some m0"
    using m0(1) by (auto split: bind_splits)
  have u: "unat (e + of_nat n) = unat e + n" if "n < 16" for n
    using unat_byte_at [of e n] sp that by (simp add: byte_at_def e_def)
  have ua: "user_addr (e + of_nat n) 4" "unat e \<le> unat (e + of_nat n)" if "n \<le> 12" for n
    using u [of n] that sp by (simp_all add: user_addr_def e_def)
  have ld: "user_load (e + of_nat n) k' = Some (user_dword D (ram (mm k)) (e + of_nat n))"
    if "n \<le> 12" "mm k' = ram_update (\<lambda>_. m0) (mm k)" for n k'
    using user_load_region [OF inv run ua(1) [OF that(1)] that(2)] agree_dword [OF m0(3) ua(1) [OF that(1)]]
      ua(2) [OF that(1)] sp by (simp add: D_def user_addr_def e_def)
  have "arg3_enter nr k = Some (after_args nr m0 x y z k)"
    using st ld [of 4] ld [of 8] ld [of 12] unfolding e_def [symmetric]
    by (simp add: arg3_enter_def wrapper_enter_def user_push_Some load_arg_def set_nr_def upd_cpu_def upd_mm_def
        add.commute [of "esp (cpu k)"] e_def)
      (simp add: after_args_def upd_cpu_def upd_mm_def x_def y_def z_def e_def add.commute)
  with m0 show ?thesis
    by blast
qed

text \<open>The way out of the wrapper, from a state whose data pages hold what the prologue pushed.\<close>

lemma arg3_leaves:
  assumes inv: "kinv L k s" and run: "p_run s \<noteq> 0" and mm: "mm k3 = ram_update (\<lambda>_. r) (mm k)"
    and e: "esp (cpu k3) = e - 8" "0x108000 + 8 \<le> unat e" "unat e + 4 \<le> 0x11C000"
    and pd: "pushed (user_map L k s) e [bp, bx] r" and here: "user_dword (user_map L k s) r e = here"
    and errno_ok: "sint (eax (cpu k3)) < 0 \<Longrightarrow> user_addr (errno_var U) 4 \<and>
      (unat (errno_var U) + 4 \<le> unat e - 8 \<or> unat e + 4 \<le> unat (errno_var U))"
  shows "\<exists>r'. arg3_leave U k3 = Some (upd_cpu (\<lambda>c. c\<lparr>eax := if sint (eax c) < 0 then -1 else eax c, ebx := bx, ebp := bp,
      esp := e + 4, eip := here\<rparr>) (upd_mm (ram_update (\<lambda>_. r')) k3)) \<and>
    (if sint (eax (cpu k3)) < 0 then user_dword (user_map L k s) r' (errno_var U) = - eax (cpu k3) else r' = r)"
proof -
  let ?D = "user_map L k s" and ?v = "eax (cpu k3)"
  have u: "unat (e - 8) = unat e - 8" "unat (e - 4) = unat e - 4"
    using unat_down [of 8 e] unat_down [of 4 e] e(2) by simp_all
  have ua: "user_addr (e - 8) 4" "user_addr (e - 4) 4" "user_addr e 4"
    using e(2,3) unfolding user_addr_def u by linarith+
  have w: "user_dword ?D r (e - 8) = bx" "user_dword ?D r (e - 4) = bp"
    using pushed_nth [OF pd, of 0] pushed_nth [OF pd, of 1] by simp_all
  note ld = user_load_region [OF inv run]
  let ?k4 = "upd_cpu (\<lambda>c. c\<lparr>ebx := bx, esp := e - 4\<rparr>) k3"
  have popped: "pop_ebx k3 = Some ?k4"
    using ld [OF ua(1) mm] by (simp add: pop_ebx_def user_pop_def e w upd_cpu_def)
  have leave: "wrapper_leave k' = Some (upd_cpu (\<lambda>c. c\<lparr>ebp := bp, esp := e + 4, eip := here\<rparr>) k')"
    if "mm k' = ram_update (\<lambda>_. r') (mm k)" "esp (cpu k') = e - 4"
      "user_dword ?D r' (e - 4) = bp" "user_dword ?D r' e = here" for k' r'
    using ld [OF ua(2) that(1)] ld [OF ua(3) that(1)] that
    by (simp add: wrapper_leave_def user_ret_def user_pop_def upd_cpu_def)
  have same: "upd_mm (ram_update (\<lambda>_. r)) k3 = k3"
    by (rule kernel.equality) (simp_all add: upd_mm_def mm)
  show ?thesis
  proof (cases "sint ?v < 0")
    case False
    then have "arg3_leave U k3 = Some (upd_cpu (\<lambda>c. c\<lparr>ebp := bp, esp := e + 4, eip := here\<rparr>) ?k4)"
      using leave [of ?k4 r] w here mm by (simp add: arg3_leave_def popped wrapper_result_def)
    then show ?thesis
      using False by (intro exI [of _ r]) (simp add: same upd_cpu_def)
  next
    case True
    note errno = conjunct1 [OF errno_ok [OF True]] conjunct2 [OF errno_ok [OF True]]
    obtain r' where r': "store_dword (user_translate True (mm k)) (errno_var U) (- ?v) r = Some r'"
        "user_dword ?D r' (errno_var U) = - ?v"
        "\<And>x. (\<And>i. off (errno_var U) \<le> i \<Longrightarrow> i < 4 + off (errno_var U) \<Longrightarrow> x \<noteq> ?D i) \<Longrightarrow> r' x = r x"
      using region_store [OF user_region [OF inv run, of True] errno(1), of "- ?v" r] by blast
    have keep: "user_dword ?D r' a = user_dword ?D r a"
      if a: "user_addr a 4" "unat a + 4 \<le> unat (errno_var U) \<or> unat (errno_var U) + 4 \<le> unat a" for a
    proof (rule user_dword_cong)
      fix i
      assume i: "off a \<le> i" "i < 4 + off a"
      have "?D i \<noteq> ?D j" if "off (errno_var U) \<le> j" "j < 4 + off (errno_var U)" for j
      proof -
        have "i \<noteq> j" "i < 0x14000" "j < 0x14000"
          using i that a errno(1) unfolding user_addr_def by linarith+
        then show ?thesis
          using region_inj [OF kernel_region [OF inv run], of i j] by simp
      qed
      then show "r' (?D i) = r (?D i)"
        by (intro r'(3))
    qed
    have sep: "unat (e - 4) + 4 \<le> unat (errno_var U) \<or> unat (errno_var U) + 4 \<le> unat (e - 4)"
        "unat e + 4 \<le> unat (errno_var U) \<or> unat (errno_var U) + 4 \<le> unat e"
      using errno(2) e(2) unfolding u by linarith+
    have "user_dword ?D r' (e - 4) = bp" "user_dword ?D r' e = here"
      using keep [OF ua(2) sep(1)] keep [OF ua(3) sep(2)] w(2) here by simp_all
    moreover have "mm (upd_cpu (\<lambda>c. c\<lparr>eax := -1\<rparr>) (upd_mm (ram_update (\<lambda>_. r')) (upd_cpu (\<lambda>c. c\<lparr>eax := - eax c\<rparr>) ?k4))) = ram_update (\<lambda>_. r') (mm k)"
      by (simp add: upd_mm_def upd_cpu_def mm)
    ultimately have "arg3_leave U k3 = Some (upd_cpu (\<lambda>c. c\<lparr>ebp := bp, esp := e + 4, eip := here\<rparr>)
        (upd_cpu (\<lambda>c. c\<lparr>eax := -1\<rparr>) (upd_mm (ram_update (\<lambda>_. r')) (upd_cpu (\<lambda>c. c\<lparr>eax := - eax c\<rparr>) ?k4))))"
      using True r'(1,2) leave [of "upd_cpu (\<lambda>c. c\<lparr>eax := -1\<rparr>) (upd_mm (ram_update (\<lambda>_. r')) (upd_cpu (\<lambda>c. c\<lparr>eax := - eax c\<rparr>) ?k4))" r']
      by (simp add: arg3_leave_def popped wrapper_result_def nok_def user_store_def mm)
    then show ?thesis
      using True r'(2) by (intro exI [of _ r']) (simp add: upd_cpu_def upd_mm_def)
  qed
qed

text \<open>
  The whole way of a wrapper with three arguments.  The routine runs with a memory \<open>m\<close> that
  differs from the caller's only in the 28 bytes below the stack pointer, and leaves the data
  pages as they are.
\<close>

lemma arg3_round_trip:
  fixes k :: kernel and s :: procs and L :: layout
  assumes inv: "kinv L k s" and run: "p_run s \<noteq> 0"
    and sp: "0x108000 + 28 \<le> unat (esp (cpu k))" "unat (esp (cpu k)) + 16 \<le> 0x11C000"
    and errno: "sint v < 0 \<Longrightarrow> user_addr (errno_var U) 4 \<and>
      (unat (errno_var U) + 4 \<le> unat (esp (cpu k)) - 28 \<or> unat (esp (cpu k)) + 4 \<le> unat (errno_var U))"
  defines "e \<equiv> esp (cpu k)" and "D \<equiv> user_map L k s"
  defines "x \<equiv> user_dword D (ram (mm k)) (e + 4)" and "y \<equiv> user_dword D (ram (mm k)) (e + 8)"
    and "z \<equiv> user_dword D (ram (mm k)) (e + 12)"
  assumes call: "\<And>m0 m. (\<And>p. (\<And>i. off e - 28 \<le> i \<Longrightarrow> i < off e \<Longrightarrow> p \<noteq> D i) \<Longrightarrow> m p = ram (mm k) p) \<Longrightarrow>
      \<exists>k2 r. calls L E U (after_args nr m0 x y z k) m v k2 \<and> mm k2 = ram_update (\<lambda>_. r) (mm k) \<and>
        (\<forall>i < 0x14000. r (D i) = m (D i)) \<and> tasks k2 = tasks k \<and> tty k2 = T"
  shows "\<exists>k'. arg3_call L E U nr k = Inr (Some (if sint v < 0 then -1 else v), k') \<and>
    cpu k' = (cpu k)\<lparr>eax := if sint v < 0 then -1 else v, ecx := y, edx := z, esp := e + 4,
      eip := user_dword D (ram (mm k)) e, eflags := (eflags (cpu k) AND NOT 0x200) OR 0x200\<rparr> \<and>
    tasks k' = tasks k \<and> tty k' = T \<and> lists k' = lists k \<and>
    (if sint v < 0 then user_dword D (ram (mm k')) (errno_var U) = - v
     else agree_outside D e 28 (ram (mm k)) (ram (mm k')))"
proof -
  have u8: "unat (e - 8) = unat e - 8"
    using unat_down [of 8 e] sp by (simp add: e_def)
  obtain m0 where m0: "arg3_enter nr k = Some (after_args nr m0 x y z k)" "pushed D e [ebp (cpu k), ebx (cpu k)] m0"
      "agree_outside D e 8 (ram (mm k)) m0"
      "\<And>p. (\<And>i. off e - 8 \<le> i \<Longrightarrow> i < off e \<Longrightarrow> p \<noteq> D i) \<Longrightarrow> m0 p = ram (mm k) p"
    using arg3_enters [OF inv run] sp unfolding e_def D_def x_def y_def z_def by fastforce
  define k1 where "k1 = after_args nr m0 x y z k"
  have inv1: "kinv L k1 s" and D1: "user_map L k1 s = D"
    using kinv_same_core [OF inv, of k1] user_map_mem [of k1 k] by (simp_all add: k1_def D_def)
  have e1: "esp (cpu k1) = e - 8"
    by (simp add: k1_def e_def)
  have sp1: "0x108000 + 20 \<le> unat (e - 8)" "unat (e - 8) \<le> 0x11C000"
    using sp [folded e_def] unfolding u8 by linarith+
  let ?vs = "[wrapper_return U nr, ecx (cpu k1), edx (cpu k1), sysenter_return U, ebp (cpu k1)]"
  obtain m where m: "push_all (user_translate True (mm k1)) (e - 8) ?vs (ram (mm k1)) = Some m"
      "agree_outside D (e - 8) 20 m0 m"
      "\<And>p. (\<And>i. off (e - 8) - 20 \<le> i \<Longrightarrow> i < off (e - 8) \<Longrightarrow> p \<noteq> D i) \<Longrightarrow> m p = m0 p"
  proof -
    have len: "0x108000 + 4 * length ?vs \<le> unat (e - 8)" and ram1: "ram (mm k1) = m0"
      using sp1 by (simp_all add: k1_def)
    show thesis
      using push_all_agree [OF inv1 run len sp1(2), of m0] that unfolding D1 ram1 by auto
  qed
  have off8: "off (e - 8) = off e - 8"
    using u8 by simp
  have "m p = ram (mm k) p" if p: "\<And>i. off e - 28 \<le> i \<Longrightarrow> i < off e \<Longrightarrow> p \<noteq> D i" for p
    using m(3) [of p] m0(4) [of p] p by (simp add: off8)
  then obtain k2 r where k2: "calls L E U k1 m v k2" "mm k2 = ram_update (\<lambda>_. r) (mm k)" "\<And>i. i < 0x14000 \<Longrightarrow> r (D i) = m (D i)"
      "tasks k2 = tasks k" "tty k2 = T"
    using call [of m m0] unfolding k1_def by blast
  have "off (e - 8) \<le> 0x14000"
    using sp1(2) by linarith
  then obtain k3 where k3: "call_sysenter L E U nr k1 = Inr (Some v, k3)" "mm k3 = ram_update (\<lambda>_. r) (mm k)"
      "tasks k3 = tasks k" "tty k3 = T" "lists k3 = lists k"
      "cpu k3 = (cpu k1)\<lparr>eax := v, eip := wrapper_return U nr, eflags := (eflags (cpu k) AND NOT 0x200) OR 0x200\<rparr>"
  proof -
    have "mm k2 = ram_update (\<lambda>_. r) (mm k1)"
      by (simp add: k2(2) k1_def)
    note round = call_sysenter_round_trip [OF inv1 run _ _ _ k2(1) this, unfolded e1 D1, OF sp1 m(1)]
    have "\<exists>k'. call_sysenter L E U nr k1 = Inr (Some v, k') \<and>
        cpu k' = (cpu k1)\<lparr>eax := v, eip := wrapper_return U nr, eflags := (eflags (cpu k1) AND NOT 0x200) OR 0x200\<rparr> \<and>
        mm k' = mm k2 \<and> tasks k' = tasks k2 \<and> tty k' = tty k2 \<and> lists k' = lists k1"
      using \<open>off (e - 8) \<le> 0x14000\<close> by (intro round k2(3)) simp
    then show thesis
      using k2 by (auto intro!: that simp: k1_def)
  qed
  have ag: "agree_outside D e 28 (ram (mm k)) r"
    using m0(3) m(2) k2(3) sp1 unfolding agree_outside_def off8 by auto
  have ue: "user_addr e 4" "user_addr e 0" "user_addr (e - 8) 0" "user_addr (e - 8) 4" "user_addr (e - 4) 4"
    using sp [folded e_def] unat_down [of 4 e] by (auto simp: user_addr_def u8)
  have rm: "user_dword D r a = user_dword D m0 a" if "user_addr a 4" "unat (e - 8) \<le> unat a" for a
  proof -
    have "user_dword D r a = user_dword D m a"
      using user_addr_off [OF that(1)] by (intro user_dword_cong k2(3)) simp
    then show ?thesis
      using agree_dword [OF m(2) that(1) _ ue(3)] that(2) by simp
  qed
  have kept: "pushed D e [ebp (cpu k), ebx (cpu k)] r"
    using m0(2) rm [OF ue(4)] rm [OF ue(5)] unat_down [of 4 e] sp [folded e_def]
    by (auto simp: pushed_def less_Suc_eq u8)
  have here: "user_dword D r e = user_dword D (ram (mm k)) e"
    by (rule agree_dword [OF ag ue(1) _ ue(2)]) simp
  obtain r' where r': "arg3_leave U k3 = Some (upd_cpu (\<lambda>c. c\<lparr>eax := if sint (eax c) < 0 then -1 else eax c, ebx := ebx (cpu k), ebp := ebp (cpu k),
      esp := e + 4, eip := user_dword D (ram (mm k)) e\<rparr>) (upd_mm (ram_update (\<lambda>_. r')) k3))"
    "if sint v < 0 then user_dword D r' (errno_var U) = - v else r' = r"
  proof -
    have k3_cpu: "esp (cpu k3) = e - 8" "eax (cpu k3) = v"
      by (simp_all add: k3(6) e1)
    have "unat (errno_var U) + 4 \<le> unat e - 8 \<or> unat e + 4 \<le> unat (errno_var U)" if "sint v < 0"
      using conjunct2 [OF errno [OF that]] sp unfolding e_def by linarith
    moreover have "0x108000 + 8 \<le> unat e" "unat e + 4 \<le> 0x11C000"
      using sp unfolding e_def by linarith+
    ultimately show thesis
      using arg3_leaves [OF inv run k3(2) k3_cpu(1), of "ebp (cpu k)" "ebx (cpu k)" _ U] conjunct1 [OF errno] kept here that
      unfolding k3_cpu(2) D_def by blast
  qed
  then show ?thesis
    using ag unfolding arg3_call_def m0(1) then_call_def k1_def [symmetric]
    by (simp add: then_back_def k3(1)) (auto simp: upd_cpu_def upd_mm_def k3 k1_def)
qed

end
