(* ===== verification/TrapEvents.thy ===== *)
theory TrapEvents
  imports TrapSpec SystemSpec UserEntrySpec
begin

text \<open>
  The traps as runs of the system: what the assembly of entry.S does around a routine is an event
  \<open>Moves\<close>, so a whole trap is a run of events, and what holds of every reachable state holds
  after every trap.
\<close>

section \<open>Writes to the kernel stack\<close>


section \<open>System calls\<close>













section \<open>Interrupts\<close>





lemma EOI_moves [simp]: "moves k (EOI k)" "esp (cpu (EOI k)) = esp (cpu k)" "on_cpu (EOI k) = on_cpu k"
  by (simp_all add: EOI_def moves_def same_core_def on_cpu_def)







section \<open>Every trap\<close>














end
