(* ===== verification/UserCallSpec.thy ===== *)
theory UserCallSpec
  imports UserEntrySpec
begin

text \<open>
  \<^verbatim>\<open>write\<close> from the call in the user program to the console and back: the arguments on the user's
  stack, the wrapper, \<^verbatim>\<open>sysenter\<close>, the handler, \<^verbatim>\<open>sys_write\<close> with its copies through the page
  table of the process, and the result, or the number in \<^verbatim>\<open>errno\<close>, behind the call.
\<close>

text \<open>What the program passes: dword \<open>i\<close> above the return address.\<close>

definition user_arg :: "layout \<Rightarrow> kernel \<Rightarrow> procs \<Rightarrow> nat \<Rightarrow> dword" where
  "user_arg L k s i = user_dword (user_map L k s) (ram (mm k)) (esp (cpu k) + 4 * of_nat i)"

text \<open>The bytes of a buffer, where the page table of the running process puts them.\<close>

definition user_bytes :: "layout \<Rightarrow> kernel \<Rightarrow> procs \<Rightarrow> addr \<Rightarrow> nat \<Rightarrow> byte list" where
  "user_bytes L k s b n = bytes_at (ram (mm k)) (\<lambda>i. phys (mm k) (pt_row L (p_run s)) (byte_at b i)) n"

text \<open>
  A program that calls a wrapper with three arguments: a user process, the kernel stack of its
  task in the model specific register, 28 bytes of room on its stack and the arguments above.
\<close>

definition user_caller :: "layout \<Rightarrow> kernel \<Rightarrow> procs \<Rightarrow> bool" where
  "user_caller L k s \<longleftrightarrow> kinv L k s \<and> p_run s \<noteq> 0 \<and> snd (msr k 0x175) = task_at L (p_run s) + 4096 \<and>
     0x108000 + 28 \<le> unat (esp (cpu k)) \<and> unat (esp (cpu k)) + 16 \<le> 0x11C000"

text \<open>What it finds when the wrapper has returned \<open>v\<close>.\<close>

definition called_back :: "layout \<Rightarrow> kernel \<Rightarrow> procs \<Rightarrow> cint \<Rightarrow> kernel \<Rightarrow> bool" where
  "called_back L k s v k' \<longleftrightarrow>
     cpu k' = (cpu k)\<lparr>eax := v, ecx := user_arg L k s 2, edx := user_arg L k s 3, esp := esp (cpu k) + 4,
       eip := user_arg L k s 0, eflags := (eflags (cpu k) AND NOT 0x200) OR 0x200\<rparr> \<and>
     tasks k' = tasks k \<and> lists k' = lists k"

lemma user_bytes_kept:
  assumes inv: "kinv L k s" and run: "p_run s \<noteq> 0"
    and b: "0x100000 \<le> unat b" "unat b + n \<le> 0x11C000"
    and e: "0x108000 + r \<le> unat e" "unat e \<le> 0x11C000" "unat b + n \<le> unat e - r \<or> unat e \<le> unat b"
    and same: "\<And>p. (\<And>i. off e - r \<le> i \<Longrightarrow> i < off e \<Longrightarrow> p \<noteq> user_map L k s i) \<Longrightarrow> m p = ram (mm k) p"
  shows "bytes_at m (\<lambda>i. phys (mm k) (pt_row L (p_run s)) (byte_at b i)) n = user_bytes L k s b n"
  unfolding user_bytes_def
proof (rule bytes_at_cong)
  fix i
  assume i: "i < n"
  let ?P = "\<lambda>i. phys (mm k) (pt_row L (p_run s)) (byte_at 0x100000 i)"
  have P: "inj_on ?P {..<0x1C000}"
    by (rule phys_inj [OF inv run]) simp_all
  have at: "byte_at a j = byte_at 0x100000 (unat a - 0x100000 + j)" if "0x100000 \<le> unat a" for a :: addr and j
  proof -
    have "of_nat (unat a - 0x100000) = a - 0x100000"
      using that by (simp add: of_nat_diff)
    then show ?thesis
      by (simp add: byte_at_def)
  qed
  show "m (phys (mm k) (pt_row L (p_run s)) (byte_at b i)) = ram (mm k) (phys (mm k) (pt_row L (p_run s)) (byte_at b i))"
  proof (rule same)
    fix j
    assume j: "off e - r \<le> j" "j < off e"
    have "unat b - 0x100000 + i \<noteq> 0x8000 + j" "unat b - 0x100000 + i < 0x1C000" "0x8000 + j < 0x1C000"
      using i j b e by linarith+
    then have "?P (unat b - 0x100000 + i) \<noteq> ?P (0x8000 + j)"
      using inj_onD [OF P] by blast
    moreover have "byte_at 0x108000 j = byte_at 0x100000 (0x8000 + j)"
      using at [of "0x108000" j] by simp
    ultimately show "phys (mm k) (pt_row L (p_run s)) (byte_at b i) \<noteq> user_map L k s j"
      unfolding user_map_def at [OF b(1)] by simp
  qed
qed

text \<open>\<^verbatim>\<open>sys_write\<close> as the handler calls it.\<close>

lemma handler_current:
  assumes inv: "kinv L k s" and msr: "snd (msr k 0x175) = task_at L (p_run s) + 4096"
  shows "current (call_state L ret (in_kernel e m (after_args nr m0 x y z k))) = task_at L (p_run s)"
proof -
  let ?K = "in_kernel e m (after_args nr m0 x y z k)"
  have "kinv L ?K s"
    by (intro kinv_same_core [OF kinv_same_core [OF inv, of "after_args nr m0 x y z k"]]) simp_all
  then show ?thesis
    by (rule call_state_current) (simp add: in_kernel_cpu msr)
qed

lemma handler_write:
  fixes k :: kernel and L :: layout
  defines "K \<equiv> \<lambda>x y z U m m0. call_state L (sysenter_return U) (in_kernel (esp (cpu k) - 28) m (after_args 4 m0 x y z k))"
  assumes "sys_write (write_buffer E (K x y z U m m0)) x y z (K x y z U m m0) = Some (v, k2)"
  shows "calls L E U (after_args 4 m0 x y z k) m v k2"
  using assms
  by (simp add: calls_def sys_call_table_def plain_calls_def syscall_args [unfolded One_nat_def] in_kernel_cpu returned_def)

lemma user_args:
  "user_arg L k s 0 = user_dword (user_map L k s) (ram (mm k)) (esp (cpu k))"
  "user_arg L k s 1 = user_dword (user_map L k s) (ram (mm k)) (esp (cpu k) + 4)"
  "user_arg L k s 2 = user_dword (user_map L k s) (ram (mm k)) (esp (cpu k) + 8)"
  "user_arg L k s 3 = user_dword (user_map L k s) (ram (mm k)) (esp (cpu k) + 12)"
  by (simp_all add: user_arg_def)

lemma arg3_called_back:
  assumes "user_caller L k s"
    and "sint v < 0 \<Longrightarrow> user_addr (errno_var U) 4 \<and>
      (unat (errno_var U) + 4 \<le> unat (esp (cpu k)) - 28 \<or> unat (esp (cpu k)) + 4 \<le> unat (errno_var U))"
    and "\<And>m0 m. (\<And>p. (\<And>i. off (esp (cpu k)) - 28 \<le> i \<Longrightarrow> i < off (esp (cpu k)) \<Longrightarrow> p \<noteq> user_map L k s i) \<Longrightarrow>
        m p = ram (mm k) p) \<Longrightarrow>
      \<exists>k2 r. calls L E U (after_args nr m0 (user_arg L k s 1) (user_arg L k s 2) (user_arg L k s 3) k) m v k2 \<and>
        mm k2 = ram_update (\<lambda>_. r) (mm k) \<and> (\<forall>i < 0x14000. r (user_map L k s i) = m (user_map L k s i)) \<and>
        tasks k2 = tasks k \<and> tty k2 = T"
  shows "\<exists>k'. arg3_call L E U nr k = Inr (Some (if sint v < 0 then -1 else v), k') \<and>
    called_back L k s (if sint v < 0 then -1 else v) k' \<and> tty k' = T \<and>
    (if sint v < 0 then user_dword (user_map L k s) (ram (mm k')) (errno_var U) = - v
     else agree_outside (user_map L k s) (esp (cpu k)) 28 (ram (mm k)) (ram (mm k')))"
proof -
  have u: "kinv L k s" "p_run s \<noteq> 0" "0x108000 + 28 \<le> unat (esp (cpu k))" "unat (esp (cpu k)) + 16 \<le> 0x11C000"
    using assms(1) by (simp_all add: user_caller_def)
  show ?thesis
    using arg3_round_trip [where L = L and k = k and s = s and U = U and v = v and E = E and nr = nr and T = T,
        OF u assms(2), folded user_args, OF _ assms(3)]
    unfolding called_back_def by blast
qed

text \<open>A caller for the witnesses: task 1 after boot, with three arguments on its stack.\<close>

lemma ex_user_caller:
  "\<exists>k s. user_caller ex_layout k s \<and> p_run s = 1 \<and> esp (cpu k) = 0x11BF00 \<and>
     user_arg ex_layout k s 1 = x \<and> user_arg ex_layout k s 2 = y \<and> user_arg ex_layout k s 3 = z"
proof -
  obtain fs where inv: "kinv ex_layout ex_kernel (boot_procs fs)"
    using ex_kernel_kinv by blast
  let ?s = "boot_procs fs" and ?vs = "[z, y, x, 0]"
  have run: "p_run ?s = 1" "p_run ?s \<noteq> 0"
    by (simp_all add: boot_procs_def)
  obtain m where m: "pushed (user_map ex_layout ex_kernel ?s) 0x11BF10 ?vs m"
    using push_all_region [OF user_region [OF inv run(2), of True], of ?vs "0x11BF10"] by auto
  define k where "k = upd_cpu (\<lambda>c. c\<lparr>esp := 0x11BF00\<rparr>) (upd_mm (ram_update (\<lambda>_. m))
    (ex_kernel\<lparr>msr := (msr ex_kernel)(0x175 := (0, task_at ex_layout 1 + 4096))\<rparr>))"
  have k: "mm k = ram_update (\<lambda>_. m) (mm ex_kernel)" "esp (cpu k) = 0x11BF00" "snd (msr k 0x175) = task_at ex_layout 1 + 4096"
    by (simp_all add: k_def upd_cpu_def upd_mm_def)
  have "same_core ex_kernel k"
    by (simp add: k_def upd_cpu_def upd_mm_def same_core_def)
  then have "user_caller ex_layout k ?s"
    using kinv_same_core [OF inv] run k by (simp add: user_caller_def)
  moreover have "user_map ex_layout k ?s = user_map ex_layout ex_kernel ?s"
    by (rule user_map_mem) (simp add: k)
  then have "user_arg ex_layout k ?s 1 = x" "user_arg ex_layout k ?s 2 = y" "user_arg ex_layout k ?s 3 = z"
    using pushed_nth [OF m, of 0] pushed_nth [OF m, of 1] pushed_nth [OF m, of 2] unfolding user_args by (simp_all add: k)
  ultimately show ?thesis
    using run(1) k(2) by blast
qed

section \<open>Asking the kernel\<close>

text \<open>
  Asking the kernel and coming back.  With the kernel stack of the running task in the model
  specific register, as every switch leaves it, a user program with six dwords of room on its
  stack that calls getpid or gettime gets the PID of the task, or the tick count, and is back
  behind its call with every register but eax as it was, arithmetic flags aside, and its memory
  untouched but for the six dwords.
\<close>

theorem user_asks:
  assumes "kinv L k s" and "p_run s \<noteq> 0" and "snd (msr k 0x175) = task_at L (p_run s) + 4096"
    and "0x108000 + 24 \<le> unat (esp (cpu k))" and "unat (esp (cpu k)) + 4 \<le> 0x11C000"
  shows "(\<exists>k'. lib_getpid L E U k = Inr (Some (PID (tasks k (task_at L (p_run s)))), k') \<and>
      user_returned (user_map L k s) k (PID (tasks k (task_at L (p_run s)))) k') \<and>
    (\<exists>k'. lib_gettime L E U k = Inr (Some (zeos_ticks k), k') \<and>
      user_returned (user_map L k s) k (zeos_ticks k) k')"
proof -
  let ?K = "\<lambda>nr m0 m. in_kernel (esp (cpu k) - 24) m (after_enter nr m0 k)"
  have cur: "current (call_state L (sysenter_return U) (?K nr m0 m)) = task_at L (p_run s)" for nr m0 m
  proof (rule call_state_current)
    have "kinv L (after_enter nr m0 k) s"
      by (rule kinv_same_core [OF assms(1)]) simp
    then show "kinv L (?K nr m0 m) s"
      by (rule kinv_same_core) simp
  qed (simp add: in_kernel_cpu assms(3))
  have "\<exists>k2. calls L E U (after_enter 20 m0 k) m (PID (tasks k (task_at L (p_run s)))) k2 \<and>
      mm k2 = ram_update (\<lambda>_. m) (mm k) \<and> tasks k2 = tasks k \<and> tty k2 = tty k" for m0 m
    using cur [where nr = 20 and ?m0.0 = m0 and m = m] by (simp add: calls_def sys_call_table_def plain_calls_def sys_getpid_def in_kernel_mm)
  moreover have "\<exists>k2. calls L E U (after_enter 10 m0 k) m (zeos_ticks k) k2 \<and>
      mm k2 = ram_update (\<lambda>_. m) (mm k) \<and> tasks k2 = tasks k \<and> tty k2 = tty k" for m0 m
    by (simp add: calls_def sys_call_table_def plain_calls_def sys_gettime_def in_kernel_mm)
  ultimately show ?thesis
    using noarg_round_trip [OF assms(1,2,4,5), where nr = 20 and E = E and U = U]
      noarg_round_trip [OF assms(1,2,4,5), where nr = 10 and E = E and U = U]
    unfolding noarg_call_def lib_getpid_def lib_gettime_def by blast
qed

theorem user_asks_witness:
  "\<forall>U. \<exists>k k'. lib_getpid ex_layout quiet_externals U k = Inr (Some (PID (tasks k (task_at ex_layout 1))), k')"
proof
  fix U
  obtain k s where k: "user_caller ex_layout k s" "p_run s = 1" "esp (cpu k) = 0x11BF00"
    using ex_user_caller [of 0 0 0] by blast
  then show "\<exists>k k'. lib_getpid ex_layout quiet_externals U k = Inr (Some (PID (tasks k (task_at ex_layout 1))), k')"
    using conjunct1 [OF user_asks [of ex_layout k s quiet_externals U]] by (auto simp: user_caller_def)
qed

section \<open>What a write does\<close>

text \<open>
  C6: a program that prints.  A user program with the arguments 1, b and n on its stack that
  calls write, for a buffer of n bytes in its code or data that does not overlap the 28 bytes
  below its stack pointer, is back behind its call with n in eax, the bytes of the buffer on
  the console in order, every other register but ecx, edx and the flags as it was, and its data
  pages untouched but for the 28 bytes.
\<close>

theorem user_write:
  assumes u: "user_caller L k s" and fd: "user_arg L k s 1 = 1"
    and n: "unat (user_arg L k s 3) = n" and b: "0x100000 \<le> unat (user_arg L k s 2)" "unat (user_arg L k s 2) + n \<le> 0x11C000"
    and apart: "unat (user_arg L k s 2) + n \<le> unat (esp (cpu k)) - 28 \<or> unat (esp (cpu k)) \<le> unat (user_arg L k s 2)"
    and q: "q + 512 \<le> 4096"
    and wb: "\<And>k'. current k' = task_at L (p_run s) \<Longrightarrow> write_buffer E k' = task_at L (p_run s) + of_nat q"
  shows "\<exists>k'. lib_write L E U k = Inr (Some (of_nat n), k') \<and> called_back L k s (of_nat n) k' \<and>
    tty k' = fold printc (user_bytes L k s (user_arg L k s 2) n) (tty k) \<and>
    agree_outside (user_map L k s) (esp (cpu k)) 28 (ram (mm k)) (ram (mm k'))"
proof -
  let ?b = "user_arg L k s 2" and ?n = "user_arg L k s 3" and ?D = "user_map L k s"
  let ?S = "\<lambda>i. phys (mm k) (pt_row L (p_run s)) (byte_at ?b i)" and ?lb = "task_at L (p_run s) + of_nat q"
  let ?T = "print_all (user_bytes L k s ?b n) (tty k)"
  from u have inv: "kinv L k s" and run: "p_run s \<noteq> 0" and msr: "snd (msr k 0x175) = task_at L (p_run s) + 4096"
    and sp: "0x108000 + 28 \<le> unat (esp (cpu k))" "unat (esp (cpu k)) + 16 \<le> 0x11C000"
    by (simp_all add: user_caller_def)
  have small: "unat ?n < 2 ^ 31"
    using n b by simp
  have ok: "access_ok VERIFY_READ ?b ?n"
    using access_ok_range [OF small, of VERIFY_READ ?b] n b by simp
  have nn: "?n = of_nat n" "\<not> sint ?n < 0"
    using sint_small [OF small] n [symmetric] by simp_all
  have call: "\<exists>k2 r. calls L E U (after_args 4 m0 (user_arg L k s 1) ?b ?n k) m ?n k2 \<and> mm k2 = ram_update (\<lambda>_. r) (mm k) \<and>
      (\<forall>i < 0x14000. r (?D i) = m (?D i)) \<and> tasks k2 = tasks k \<and> tty k2 = ?T"
    if same: "\<And>p. (\<And>i. off (esp (cpu k)) - 28 \<le> i \<Longrightarrow> i < off (esp (cpu k)) \<Longrightarrow> p \<noteq> ?D i) \<Longrightarrow> m p = ram (mm k) p" for m0 m
  proof -
    let ?K = "call_state L (sysenter_return U) (in_kernel (esp (cpu k) - 28) m (after_args 4 m0 1 ?b ?n k))"
    have K: "mm ?K = ram_update (\<lambda>_. m) (mm k)" "tty ?K = tty k" "tasks ?K = tasks k"
      by (simp_all add: in_kernel_mm)
    have "bytes_at m ?S n = user_bytes L k s ?b n"
      using same sp by (intro user_bytes_kept [OF inv run b _ _ apart]) simp_all
    then obtain r where r: "sys_write ?lb 1 ?b ?n ?K = Some (?n, (upd_mm (ram_update (\<lambda>_. r)) ?K)\<lparr>tty := ?T\<rparr>)"
        "\<forall>x. x \<notin> byte_at ?lb ` {..<512} \<longrightarrow> r x = m x"
      using sys_write_mapped [where k = ?K and S = ?S and D = "byte_at ?lb" and b = ?b and n = ?n and lb = ?lb]
        call_buffers [OF inv run b q] small ok unfolding n K(1,2) by auto
    have keep: "r (?D i) = m (?D i)" if "i < 0x14000" for i
      using call_buffers(3) [OF inv run _ _ q, of "0x108000" "0x14000"] that
      by (intro r(2) [rule_format] apart_buffers_src) (simp_all add: user_map_def)
    have c: "calls L E U (after_args 4 m0 1 ?b ?n k) m ?n ((upd_mm (ram_update (\<lambda>_. r)) ?K)\<lparr>tty := ?T\<rparr>)"
      using handler_write r(1) wb [OF handler_current [OF inv msr]] by simp
    show ?thesis
      unfolding fd by (rule exI, rule exI [of _ r], intro conjI, rule c) (simp_all add: upd_mm_def K keep in_kernel_mm)
  qed
  show ?thesis
    using arg3_called_back [OF u _ call] nn unfolding lib_write_arg3 print_all_def by simp
qed

theorem user_write_witness:
  "\<forall>U. \<exists>k k'. lib_write ex_layout quiet_externals U k = Inr (Some 600, k') \<and> length (port_e9 (tty k')) = length (port_e9 (tty k)) + 600"
proof
  fix U
  obtain k s where k: "user_caller ex_layout k s" "p_run s = 1" "esp (cpu k) = 0x11BF00"
      "user_arg ex_layout k s 1 = 1" "user_arg ex_layout k s 2 = 0x108000" "user_arg ex_layout k s 3 = 600"
    using ex_user_caller [of 1 "0x108000" 600] by blast
  obtain k' where "lib_write ex_layout quiet_externals U k = Inr (Some (of_nat 600), k')"
      "tty k' = fold printc (user_bytes ex_layout k s (user_arg ex_layout k s 2) 600) (tty k)"
    using user_write [OF k(1,4), of 600 1024 quiet_externals U] by (auto simp: k quiet_externals_def)
  then show "\<exists>k k'. lib_write ex_layout quiet_externals U k = Inr (Some 600, k') \<and> length (port_e9 (tty k')) = length (port_e9 (tty k)) + 600"
    using print_all_port [of "user_bytes ex_layout k s (user_arg ex_layout k s 2) 600" "tty k"]
    by (intro exI [of _ k] exI [of _ k']) (simp add: print_all_def user_bytes_def bytes_at_def)
qed

text \<open>
  C21: how a refused write ends.  For a file descriptor other than 1, a negative size or a
  buffer outside the user's range, the wrapper returns -1 with EBADF, EINVAL or EFAULT, the
  first that applies, in the variable errno; the console and the task structures are as before.
\<close>

theorem user_write_refused:
  assumes u: "user_caller L k s"
    and no: "user_arg L k s 1 \<noteq> 1 \<or> sint (user_arg L k s 3) < 0 \<or>
      \<not> access_ok VERIFY_READ (user_arg L k s 2) (user_arg L k s 3)"
    and errno: "user_addr (errno_var U) 4"
      "unat (errno_var U) + 4 \<le> unat (esp (cpu k)) - 28 \<or> unat (esp (cpu k)) + 4 \<le> unat (errno_var U)"
  shows "\<exists>k'. lib_write L E U k = Inr (Some (-1), k') \<and> called_back L k s (-1) k' \<and> tty k' = tty k \<and>
    user_dword (user_map L k s) (ram (mm k')) (errno_var U) =
      (if user_arg L k s 1 \<noteq> 1 then EBADF else if sint (user_arg L k s 3) < 0 then EINVAL else EFAULT)"
proof -
  let ?x = "user_arg L k s 1" and ?b = "user_arg L k s 2" and ?n = "user_arg L k s 3"
  define err :: cint where "err = (if ?x \<noteq> 1 then EBADF else if sint ?n < 0 then EINVAL else EFAULT)"
  have neg: "sint (- err) < 0"
    by (simp add: err_def)
  have "calls L E U (after_args 4 m0 ?x ?b ?n k) m (- err)
      (call_state L (sysenter_return U) (in_kernel (esp (cpu k) - 28) m (after_args 4 m0 ?x ?b ?n k)))" for m0 m
    by (rule handler_write) (use no in \<open>auto simp: err_def sys_write_def check_fd_def\<close>)
  then have "\<exists>k'. arg3_call L E U 4 k = Inr (Some (-1), k') \<and> called_back L k s (-1) k' \<and> tty k' = tty k \<and>
      user_dword (user_map L k s) (ram (mm k')) (errno_var U) = err"
    using arg3_called_back [OF u, where U = U and v = "- err" and E = E and nr = 4 and T = "tty k"] errno neg
    by (fastforce simp: in_kernel_mm)
  then show ?thesis
    unfolding lib_write_arg3 err_def .
qed

theorem user_write_refused_witness:
  "\<exists>k k'. lib_write ex_layout quiet_externals \<lparr>sysenter_return = 0, wrapper_return = (\<lambda>_. 0), errno_var = 0x109000\<rparr> k =
     Inr (Some (-1), k') \<and> tty k' = tty k"
proof -
  obtain k s where k: "user_caller ex_layout k s" "esp (cpu k) = 0x11BF00" "user_arg ex_layout k s 1 = 2"
    using ex_user_caller [of 2] by blast
  show ?thesis
    using user_write_refused [OF k(1), of "\<lparr>sysenter_return = 0, wrapper_return = (\<lambda>_. 0), errno_var = 0x109000\<rparr>" quiet_externals] k(2,3)
    by (fastforce simp: user_addr_def)
qed

end
