(* ===== verification/Loader.thy ===== *)
theory Loader
  imports Utils "HOL-Library.While_Combinator" "HOL-Library.Monad_Syntax"
begin

text \<open>
  bootsect.S, the boot loader in sector 0: the BIOS puts it at 0x7C00, it moves itself to
  0x90000, reads the system behind it with BIOS calls, opens address line 20 and waits until it is
  open, programs the interrupt controllers, loads the descriptor table and jumps to the kernel in
  protected mode.

  The state is memory by physical address, the registers and the three variables the code keeps
  in words of its own sector, what it has sent to the screen and to ports.  \<^verbatim>\<open>int 0x13\<close> is a
  parameter: a function of the registers it is called with and of memory, which answers with the
  carry flag, ah and memory.  What the ports of the keyboard controller deliver and whether line
  20 is open, access after access, are streams.
\<close>

section \<open>Real mode\<close>

definition seg_addr :: "hword \<Rightarrow> hword \<Rightarrow> addr" where
  "seg_addr s d = 16 * ucast s + ucast d"

definition word_at :: "memory \<Rightarrow> addr \<Rightarrow> hword" where
  "word_at m a = ucast (m a) OR push_bit 8 (ucast (m (a + 1)))"

definition put_word :: "addr \<Rightarrow> hword \<Rightarrow> memory \<Rightarrow> memory" where
  "put_word a w m = m(a := ucast w, a + 1 := ucast (drop_bit 8 w))"

record disk_answer =
  carry :: bool
  ah_status :: byte
  disk_mem :: memory

type_synonym bios = "byte \<Rightarrow> byte \<Rightarrow> byte \<Rightarrow> byte \<Rightarrow> byte \<Rightarrow> hword \<Rightarrow> hword \<Rightarrow> memory \<Rightarrow> disk_answer"

record loader =
  l_ram :: memory
  l_es :: hword
  l_bx :: hword
  sread :: hword
  head :: hword
  track :: hword
  screen :: "byte list"
  outs :: "(hword \<times> byte) list"
  kbc :: "nat \<Rightarrow> byte"
  kbc_reads :: nat
  a20_open :: "nat \<Rightarrow> bool"
  a20_tests :: nat
  l_gdtr :: Register
  l_idtr :: Register
  l_cs :: hword
  l_eip :: addr

abbreviation (input) BOOTSEG :: hword where "BOOTSEG \<equiv> 0x07C0"
abbreviation (input) INITSEG :: hword where "INITSEG \<equiv> 0x9000"
abbreviation (input) SYSSEG :: hword where "SYSSEG \<equiv> 0x1000"
abbreviation (input) KERNEL_CS :: hword where "KERNEL_CS \<equiv> 0x10"
abbreviation (input) SEC_PISTA :: hword where "SEC_PISTA \<equiv> 18"

text \<open>Places in the sector, after the \<^verbatim>\<open>.org 435\<close> of the table.\<close>

abbreviation (input) gdt_label :: hword where "gdt_label \<equiv> 435"
abbreviation (input) idt_48 :: hword where "idt_48 \<equiv> 491"
abbreviation (input) setup_sects :: hword where "setup_sects \<equiv> 497"
abbreviation (input) syssize :: hword where "syssize \<equiv> 500"
abbreviation (input) gdt_48 :: hword where "gdt_48 \<equiv> 502"

section \<open>The move to 0x90000\<close>

text \<open>\<^verbatim>\<open>rep movsw\<close> with the direction flag clear.\<close>

fun rep_movsw :: "nat \<Rightarrow> hword \<Rightarrow> hword \<Rightarrow> hword \<Rightarrow> hword \<Rightarrow> memory \<Rightarrow> memory" where
  "rep_movsw 0 ds si es di m = m"
| "rep_movsw (Suc cx) ds si es di m =
     rep_movsw cx ds (si + 2) es (di + 2)
       (m(seg_addr es di := m (seg_addr ds si), seg_addr es (di + 1) := m (seg_addr ds (si + 1))))"

definition move_sector :: "loader \<Rightarrow> loader" where
  "move_sector s = s\<lparr>l_ram := rep_movsw 256 BOOTSEG 0 INITSEG 0 (l_ram s)\<rparr>"

section \<open>Reading the system\<close>

text \<open>
  The status in ah goes with the registers \<^verbatim>\<open>popa\<close> restores, and the next addition overwrites the
  carry flag: of the answer only memory stays.
\<close>

definition read_track :: "bios \<Rightarrow> hword \<Rightarrow> loader \<Rightarrow> loader" where
  "read_track B ax s =
     (let s = s\<lparr>screen := screen s @ [0x2e]\<rparr>;
          cx = sread s + 1; ch = ucast (track s); dh = ucast (head s) AND 1; dl = 0;
          answer = B (ucast ax) ch (ucast cx) dh dl (l_es s) (l_bx s) (l_ram s)
      in s\<lparr>l_ram := disk_mem answer\<rparr>)"

text \<open>\<open>carries a b\<close>: the carry flag after an addition of words.\<close>

definition carries :: "hword \<Rightarrow> hword \<Rightarrow> bool" where
  "carries a b \<longleftrightarrow> 2 ^ 16 \<le> unat a + unat b"

text \<open>How many sectors to read: to the end of the track or of the segment.\<close>

definition sectors_now :: "loader \<Rightarrow> hword" where
  "sectors_now s =
     (let ax = SEC_PISTA - sread s; cx = push_bit 9 ax
      in if carries cx (l_bx s) \<and> cx + l_bx s \<noteq> 0 then drop_bit 9 (0 - l_bx s) else ax)"

text \<open>The position on the disk and the place in memory after \<open>ax\<close> sectors.\<close>

definition next_track :: "hword \<Rightarrow> loader \<Rightarrow> loader" where
  "next_track ax s =
     (if ax = SEC_PISTA then
        let ax = 1 - head s;
            s = (if ax = 0 then s\<lparr>track := track s + 1\<rparr> else s)
        in s\<lparr>head := ax, sread := 0\<rparr>
      else s\<lparr>sread := ax\<rparr>)"

definition next_place :: "hword \<Rightarrow> loader \<Rightarrow> loader" where
  "next_place cx s =
     (let cx = push_bit 9 cx
      in if carries cx (l_bx s) then s\<lparr>l_es := l_es s + 0x1000, l_bx := 0\<rparr> else s\<lparr>l_bx := l_bx s + cx\<rparr>)"

definition ok1_read :: "bios \<Rightarrow> loader \<Rightarrow> loader" where
  "ok1_read B s =
     (let ax = sectors_now s;
          s = read_track B ax s;
          cx = ax;
          s = next_track (ax + sread s) s
      in next_place cx s)"

definition more_to_load :: "loader \<Rightarrow> bool" where
  "more_to_load s \<longleftrightarrow> l_es s - SYSSEG \<le> word_at (l_ram s) (seg_addr INITSEG syssize)"

definition rp_read :: "bios \<Rightarrow> loader \<Rightarrow> loader option" where
  "rp_read B s = while_option more_to_load (ok1_read B) s"

text \<open>A segment that is not on a boundary of 64 KiB hangs at \<^verbatim>\<open>die\<close>.\<close>

definition read_it :: "bios \<Rightarrow> loader \<Rightarrow> loader option" where
  "read_it B s =
     (let al = l_ram s (seg_addr INITSEG setup_sects) + 1;
          s = s\<lparr>sread := (sread s AND 0xFF00) OR ucast al\<rparr>
      in if l_es s AND 0xFFF \<noteq> 0 then None else rp_read B (s\<lparr>l_bx := 0\<rparr>))"

section \<open>The rest of the way\<close>

definition outb :: "hword \<Rightarrow> byte \<Rightarrow> loader \<Rightarrow> loader" where
  "outb p v s = s\<lparr>outs := outs s @ [(p, v)]\<rparr>"

definition inb_kbc :: "loader \<Rightarrow> byte \<times> loader" where
  "inb_kbc s = (kbc s (kbc_reads s), s\<lparr>kbc_reads := kbc_reads s + 1\<rparr>)"

definition kill_motor :: "loader \<Rightarrow> loader" where
  "kill_motor s = outb 0x3f2 0 s"

text \<open>The loop over ecx: it ends when the controller is ready, and after 2 ^ 24 rounds anyway.\<close>

fun empty_8042_loop :: "nat \<Rightarrow> loader \<Rightarrow> loader" where
  "empty_8042_loop 0 s = s"
| "empty_8042_loop (Suc ecx) s =
     (if ecx = 0 then s
      else let (al, s) = inb_kbc s
           in if al AND 1 \<noteq> 0 then let (al, s) = inb_kbc s in empty_8042_loop ecx s
              else if al AND 2 \<noteq> 0 then empty_8042_loop ecx s
              else s)"

definition empty_8042 :: "loader \<Rightarrow> loader" where
  "empty_8042 s = empty_8042_loop 0xFFFFFF s"

definition enable_A20 :: "loader \<Rightarrow> loader" where
  "enable_A20 s = empty_8042 (outb 0x60 0xDF (empty_8042 (outb 0x64 0xD1 (empty_8042 s))))"

text \<open>
  While line 20 is closed an address wraps at 1 MiB.  The loop writes a counter to 0x7c and reads the
  word 1 MiB above it, until they differ; then it restores the word at 0x7c.
\<close>

abbreviation (input) TEST_ADDR :: hword where "TEST_ADDR \<equiv> 0x7c"

definition gate_a20 :: "bool \<Rightarrow> addr \<Rightarrow> addr" where
  "gate_a20 opened a = (if opened then a else a AND NOT 0x100000)"

partial_function (option) a20_wait_loop :: "hword \<Rightarrow> loader \<Rightarrow> loader option" where
  "a20_wait_loop ax s =
     (let ax = ax + 1;
          s = s\<lparr>l_ram := put_word (seg_addr 0 TEST_ADDR) ax (l_ram s)\<rparr>;
          v = word_at (l_ram s) (gate_a20 (a20_open s (a20_tests s)) (seg_addr 0xFFFF (TEST_ADDR + 0x10)));
          s = s\<lparr>a20_tests := a20_tests s + 1\<rparr>
      in if ax = v then a20_wait_loop ax s else Some s)"

definition a20_wait :: "loader \<Rightarrow> loader option" where
  "a20_wait s =
     (let bx = word_at (l_ram s) (seg_addr 0 TEST_ADDR)
      in do {
        s \<leftarrow> a20_wait_loop (0 - 1) s;
        Some (s\<lparr>l_ram := put_word (seg_addr 0 TEST_ADDR) bx (l_ram s)\<rparr>) })"

definition set_8259 :: "loader \<Rightarrow> loader" where
  "set_8259 s = fold (\<lambda>(p, v). outb p v)
     [(0x20, 0x11), (0xA0, 0x11), (0x21, 0x20), (0xA1, 0x28), (0x21, 0x04), (0xA1, 0x02),
      (0x21, 0x01), (0xA1, 0x01), (0xA1, 0xFF), (0x21, 0xFB)] s"

definition register_at :: "memory \<Rightarrow> hword \<Rightarrow> Register" where
  "register_at m d = \<lparr>r_limit = word_at m (seg_addr INITSEG d),
     r_base = ucast (word_at m (seg_addr INITSEG (d + 2))) OR push_bit 16 (ucast (word_at m (seg_addr INITSEG (d + 4))))\<rparr>"

definition enter_protected :: "loader \<Rightarrow> loader" where
  "enter_protected s = s\<lparr>l_idtr := register_at (l_ram s) idt_48, l_gdtr := register_at (l_ram s) gdt_48,
     l_cs := KERNEL_CS, l_eip := 0x10010\<rparr>"

definition msg1 :: "byte list" where
  "msg1 = [13, 10] @ map (\<lambda>c. of_nat (of_char c)) ''Loading..''"

definition bootsect :: "bios \<Rightarrow> loader \<Rightarrow> loader option" where
  "bootsect B s =
     (let s = move_sector s;
          s = s\<lparr>screen := screen s @ msg1\<rparr>;
          s = s\<lparr>l_es := SYSSEG\<rparr>
      in do {
        s \<leftarrow> read_it B s;
        let s = kill_motor s;
            s = outb 0x70 0x80 s
        in do {
          s \<leftarrow> a20_wait (enable_A20 s);
          Some (enter_protected (set_8259 s)) } })"

section \<open>The data of the sector\<close>

text \<open>From \<^verbatim>\<open>gdt\<close> to the end, as the assembler lays it out, before build fills in size and device.\<close>

definition sector_data :: "byte list" where
  "sector_data =
     [0, 0, 0, 0, 0, 0, 0, 0,
      0, 0, 0, 0, 0, 0, 0, 0,
      0xFF, 0xFF, 0, 0, 0, 0x9a, 0xcf, 0,
      0xFF, 0xFF, 0, 0, 0, 0x92, 0xcf, 0,
      0xFF, 0xFF, 0, 0, 0, 0xfa, 0xcf, 0,
      0xFF, 0xFF, 0, 0, 0, 0xf2, 0xcf, 0,
      104, 0, 0, 0, 0, 0x89, 0, 0,
      0, 0, 0, 0, 0, 0,
      0, 0, 0, 0x00, 0x7F,
      0x00, 0x80, 0xb3, 0x01, 0x09, 0x00, 0, 0,
      0x55, 0xAA]"

end
