(* ===== verification/LoaderLoop.thy ===== *)
theory LoaderLoop
  imports Loader
begin

text \<open>
  The loops of the boot loader: the move of the sector and the reading of the system, which ends
  with the segments it counts filled from the disk, sector after sector.
\<close>

section \<open>Words as numbers\<close>

lemma unat_of_nat16: "n < 2 ^ 16 \<Longrightarrow> unat (of_nat n :: hword) = n"
  by (simp add: unat_of_nat)

lemma unat_bound16: "unat (x :: hword) < 2 ^ 16"
  using unsigned_less [of x] by simp

lemma ucast_of_nat8: "(ucast (of_nat n :: hword) :: byte) = of_nat n"
  by (simp add: unsigned_of_nat word_of_nat_eq_iff)

lemma of_nat_diff16: "m \<le> n \<Longrightarrow> (of_nat n :: hword) - of_nat m = of_nat (n - m)"
  by (simp add: of_nat_diff)

lemma push_bit_9: "push_bit 9 (of_nat n :: hword) = of_nat (512 * n)"
  by (simp add: push_bit_of_nat push_bit_eq_mult)

lemma drop_bit_9: "n < 2 ^ 16 \<Longrightarrow> drop_bit 9 (of_nat n :: hword) = of_nat (n div 512)"
proof -
  assume n: "n < 2 ^ 16"
  have "unat (drop_bit 9 (of_nat n :: hword)) = n div 512"
    using n unat_bound16 [of "of_nat n"] unfolding unsigned_drop_bit_eq
    by (simp only: unat_of_nat16 drop_bit_eq_div take_bit_eq_mod) simp
  then show ?thesis
    by (metis of_nat_unat ucast_id)
qed

lemma seg_addr_nat: "unat (seg_addr s d) = 16 * unat s + unat d"
proof -
  have "seg_addr s d = of_nat (16 * unat s + unat d)"
    by (simp add: seg_addr_def unsigned_of_nat)
  moreover have "unat (of_nat (16 * unat s + unat d) :: addr) = 16 * unat s + unat d"
    using unat_bound16 [of s] unat_bound16 [of d] by (simp only: unat_of_nat) simp
  ultimately show ?thesis
    by simp
qed

section \<open>The registers of the loop\<close>

text \<open>
  After \<open>p\<close> sectors of the system: the position in memory, counted from 0x10000, and on the
  disk, whose sector 0 is the boot sector.
\<close>

definition loaded :: "nat \<Rightarrow> loader \<Rightarrow> bool" where
  "loaded p s \<longleftrightarrow> l_es s = of_nat (0x1000 * (p div 128 + 1)) \<and> l_bx s = of_nat (512 * (p mod 128)) \<and>
     sread s = of_nat ((p + 1) mod 18) \<and> head s = of_nat ((p + 1) div 18 mod 2) \<and> track s = of_nat ((p + 1) div 36)"

definition chunk :: "nat \<Rightarrow> nat" where
  "chunk p = min (18 - (p + 1) mod 18) (128 - p mod 128)"

lemma chunk_bounds: "0 < chunk p" "(p + 1) mod 18 + chunk p \<le> 18" "p mod 128 + chunk p \<le> 128" "chunk p \<le> 18"
proof -
  have "(p + 1) mod 18 < 18" "p mod 128 < 128"
    by simp_all
  then show "0 < chunk p" "(p + 1) mod 18 + chunk p \<le> 18" "p mod 128 + chunk p \<le> 128" "chunk p \<le> 18"
    unfolding chunk_def by linarith+
qed

lemma sectors_now_chunk:
  assumes "loaded p s"
  shows "sectors_now s = of_nat (chunk p)"
proof -
  define r b where "r = (p + 1) mod 18" and "b = p mod 128"
  have rb: "r < 18" "b < 128"
    by (simp_all add: r_def b_def)
  have s: "sread s = of_nat r" "l_bx s = of_nat (512 * b)"
    using assms by (simp_all add: loaded_def r_def b_def)
  have ax: "SEC_PISTA - sread s = of_nat (18 - r)"
    using of_nat_diff16 [of r 18] rb s by simp
  have cx: "push_bit 9 (SEC_PISTA - sread s) = of_nat (512 * (18 - r))"
    unfolding ax by (rule push_bit_9)
  have u: "unat (of_nat (512 * (18 - r)) :: hword) = 512 * (18 - r)" "unat (of_nat (512 * b) :: hword) = 512 * b"
    using rb by (intro unat_of_nat16; simp)+
  have carry: "carries (of_nat (512 * (18 - r))) (of_nat (512 * b)) \<longleftrightarrow> 128 \<le> 18 - r + b"
    unfolding carries_def u by auto
  have sum: "(of_nat (512 * (18 - r)) :: hword) + of_nat (512 * b) = of_nat (512 * (18 - r + b))"
    by (simp add: algebra_simps)
  have zero: "(of_nat (512 * (18 - r + b)) :: hword) = 0 \<longleftrightarrow> 18 - r + b = 128" if "128 \<le> 18 - r + b"
  proof -
    have "(of_nat (512 * (18 - r + b)) :: hword) = 0 \<longleftrightarrow> 65536 dvd 512 * (18 - r + b)"
      by (simp only: word_of_nat_eq_0_iff) simp
    also have "\<dots> \<longleftrightarrow> 128 dvd 18 - r + b"
      using nat_mult_dvd_cancel1 [of 512 128 "18 - r + b"] by simp
    also have "\<dots> \<longleftrightarrow> 18 - r + b = 128"
    proof
      assume "128 dvd 18 - r + b"
      then obtain q where q: "18 - r + b = 128 * q" ..
      then have "q < 2" "q \<noteq> 0"
        using that rb by auto
      then show "18 - r + b = 128"
        using q by simp
    qed simp
    finally show ?thesis .
  qed
  have neg: "drop_bit 9 (0 - of_nat (512 * b) :: hword) = of_nat (128 - b)" if "0 < b"
  proof -
    have "(0 - of_nat (512 * b) :: hword) = of_nat (512 * (128 - b))"
      using that rb of_nat_diff [of "512 * b" 65536, where 'a = hword] by (simp add: diff_mult_distrib2)
    moreover have "drop_bit 9 (of_nat (512 * (128 - b)) :: hword) = of_nat (128 - b)"
      using that drop_bit_9 [of "512 * (128 - b)"] by simp
    ultimately show ?thesis
      by simp
  qed
  have "sectors_now s = (if 128 \<le> 18 - r + b \<and> (of_nat (512 * (18 - r + b)) :: hword) \<noteq> 0
      then drop_bit 9 (0 - of_nat (512 * b)) else of_nat (18 - r))"
    unfolding sectors_now_def Let_def cx s(2) sum carry unfolding ax ..
  also have "\<dots> = (if 128 < 18 - r + b then of_nat (128 - b) else of_nat (18 - r))"
    using zero neg rb by (cases "128 \<le> 18 - r + b") (simp_all del: of_nat_mult of_nat_add of_nat_diff, linarith?)
  also have "\<dots> = of_nat (chunk p)"
  proof -
    have "chunk p = (if 128 < 18 - r + b then 128 - b else 18 - r)"
      unfolding chunk_def r_def [symmetric] b_def [symmetric] using rb by (simp add: min_def)
    then show ?thesis
      by simp
  qed
  finally show ?thesis .
qed

lemma div_mod_step:
  fixes q k n :: nat
  assumes "q mod k + n \<le> k" and "0 < k"
  shows "(q + n) mod k = (if q mod k + n = k then 0 else q mod k + n)"
    and "(q + n) div k = (if q mod k + n = k then q div k + 1 else q div k)"
proof -
  have "(q + n) mod k = (q mod k + n) mod k"
    by (simp add: mod_add_left_eq)
  then show "(q + n) mod k = (if q mod k + n = k then 0 else q mod k + n)"
    using assms by simp
  have "q + n = q mod k + n + q div k * k"
    by simp
  then have "(q + n) div k = q div k + (q mod k + n) div k"
    using assms(2) by (metis div_mult_self1 less_not_refl)
  then show "(q + n) div k = (if q mod k + n = k then q div k + 1 else q div k)"
    using assms by simp
qed

lemma read_track_regs [simp]:
  "l_es (read_track B ax s) = l_es s" "l_bx (read_track B ax s) = l_bx s" "sread (read_track B ax s) = sread s"
  "head (read_track B ax s) = head s" "track (read_track B ax s) = track s"
  by (simp_all add: read_track_def Let_def)

lemma next_track_place [simp]:
  "l_es (next_track ax s) = l_es s" "l_bx (next_track ax s) = l_bx s" "l_ram (next_track ax s) = l_ram s"
  "sread (next_place cx s) = sread s" "head (next_place cx s) = head s" "track (next_place cx s) = track s"
  "l_ram (next_place cx s) = l_ram s"
  by (simp_all add: next_track_def next_place_def Let_def)

lemma loaded_step:
  assumes "loaded p s" and "p < 1024"
  shows "loaded (p + chunk p) (ok1_read B s)"
proof -
  define n r b where "n = chunk p" and "r = (p + 1) mod 18" and "b = p mod 128"
  have bnd: "r + n \<le> 18" "b + n \<le> 128" "n \<le> 18"
    using chunk_bounds [of p] by (simp_all add: n_def r_def b_def)
  let ?s = "read_track B (of_nat n) s"
  have ok: "ok1_read B s = next_place (of_nat n) (next_track (of_nat (r + n)) ?s)"
    using assms(1) by (simp add: ok1_read_def Let_def sectors_now_chunk [OF assms(1)] loaded_def r_def n_def add.commute)
  have reg: "l_es s = of_nat (0x1000 * (p div 128 + 1))" "l_bx s = of_nat (512 * b)" "head s = of_nat ((p + 1) div 18 mod 2)"
      "track s = of_nat ((p + 1) div 36)"
    using assms(1) by (simp_all add: loaded_def b_def)
  have u: "unat (of_nat (512 * n) :: hword) = 512 * n" "unat (of_nat (512 * b) :: hword) = 512 * b"
    using bnd by (intro unat_of_nat16; simp add: b_def)+
  have place: "next_place (of_nat n) t = (if b + n = 128 then t\<lparr>l_es := of_nat (0x1000 * (p div 128 + 2)), l_bx := 0\<rparr>
      else t\<lparr>l_bx := of_nat (512 * (b + n))\<rparr>)" if "l_es t = l_es s" "l_bx t = l_bx s" for t
    using bnd that unfolding next_place_def Let_def push_bit_9 carries_def reg(2) that u
    by (auto simp: reg algebra_simps)
  have eighteen: "(18 :: hword) = of_nat k \<longleftrightarrow> k = 18" "(of_nat k :: hword) = 18 \<longleftrightarrow> k = 18" if "k \<le> 18" for k
    using that unat_of_nat16 [of k] by (auto dest: arg_cong [of _ _ unat])
  have h: "(p + 1) div 18 mod 2 < 2"
    by simp
  have track36: "q div 36 = q div 18 div 2" for q :: nat
    by (simp add: div_mult2_eq [symmetric])
  note d = div_mod_step [of "p + 1" 18 n, folded r_def] div_mod_step [of p 128 n, folded b_def]
  define t where "t = next_track (of_nat (r + n)) ?s"
  have "sread t = of_nat ((p + n + 1) mod 18) \<and> head t = of_nat ((p + n + 1) div 18 mod 2) \<and> track t = of_nat ((p + n + 1) div 36)"
  proof (cases "r + n = 18")
    case True
    then have q: "(p + n + 1) mod 18 = 0" "(p + n + 1) div 18 = (p + 1) div 18 + 1"
      using d(1,2) by (simp_all add: add.commute add.left_commute)
    have "of_nat (r + n) = SEC_PISTA"
      unfolding True by simp
    moreover obtain x where x: "(p + 1) div 18 = 2 * x \<or> (p + 1) div 18 = 2 * x + 1"
      by (metis oddE evenE)
    moreover have "track s = of_nat ((p + 1) div 18 div 2)"
      using reg(4) by (simp add: track36)
    ultimately show ?thesis
      using reg(3) unfolding t_def next_track_def track36 q by (auto simp: Let_def)
  next
    case False
    then have q: "(p + n + 1) mod 18 = r + n" "(p + n + 1) div 18 = (p + 1) div 18"
      using d(1,2) bnd by (simp_all add: add.commute add.left_commute)
    have "of_nat (r + n) \<noteq> SEC_PISTA"
      using eighteen(2) [of "r + n"] bnd False by simp
    then show ?thesis
      using reg(3,4) q unfolding t_def next_track_def track36 q by simp
  qed
  moreover have "loaded (p + n) (next_place (of_nat n) t) \<longleftrightarrow>
      sread t = of_nat ((p + n + 1) mod 18) \<and> head t = of_nat ((p + n + 1) div 18 mod 2) \<and> track t = of_nat ((p + n + 1) div 36)"
  proof -
    have "l_es t = l_es s" "l_bx t = l_bx s"
      by (simp_all add: t_def)
    then show ?thesis
      using place [of t] d(3,4) bnd reg(1) unfolding loaded_def by (cases "b + n = 128") simp_all
  qed
  ultimately show ?thesis
    by (simp add: ok t_def n_def)
qed

section \<open>The loop\<close>

text \<open>The number of segments of 64 KiB the loop fills, for a size in paragraphs.\<close>

definition segments :: "hword \<Rightarrow> nat" where
  "segments z = unat z div 0x1000 + 1"

lemma more_to_load_iff:
  assumes "loaded p s" and "p \<le> 128 * segments z" and "unat z < 0x8000"
    and "word_at (l_ram s) (seg_addr INITSEG syssize) = z"
  shows "more_to_load s \<longleftrightarrow> p < 128 * segments z"
proof -
  have g: "segments z \<le> 8"
    using assms(3) unfolding segments_def by (simp add: div_less_iff_less_mult less_eq_Suc_le [symmetric] del: less_eq_Suc_le)
  then have q: "p div 128 \<le> 8"
    using assms(2) div_le_mono [of p "128 * 8" 128] by simp
  have "l_es s - SYSSEG = of_nat (0x1000 * (p div 128))"
    using assms(1) by (simp add: loaded_def algebra_simps)
  moreover have "unat (of_nat (0x1000 * (p div 128)) :: hword) = 0x1000 * (p div 128)"
    using q by (intro unat_of_nat16) simp
  ultimately have "more_to_load s \<longleftrightarrow> 0x1000 * (p div 128) \<le> unat z"
    using assms(4) by (simp add: more_to_load_def word_le_nat_alt del: of_nat_mult)
  also have "\<dots> \<longleftrightarrow> p div 128 \<le> unat z div 0x1000"
    by (simp add: less_eq_div_iff_mult_less_eq mult.commute)
  also have "\<dots> \<longleftrightarrow> p div 128 < segments z"
    by (simp add: segments_def less_Suc_eq_le)
  also have "\<dots> \<longleftrightarrow> p < 128 * segments z"
    by (simp add: div_less_iff_less_mult mult.commute)
  finally show ?thesis .
qed

text \<open>
  \<open>M p m\<close>: what is known of memory after \<open>p\<close> sectors.  The loop ends, whatever the BIOS does with
  the memory, as long as the size in the sector stays.
\<close>

lemma rp_read_ends:
  assumes step: "\<And>p s. p < 128 * segments z \<Longrightarrow> loaded p s \<Longrightarrow> M p (l_ram s) \<Longrightarrow> M (p + chunk p) (l_ram (ok1_read B s))"
    and size: "\<And>p m. p \<le> 128 * segments z \<Longrightarrow> M p m \<Longrightarrow> word_at m (seg_addr INITSEG syssize) = z"
    and z: "unat z < 0x8000" and start: "loaded 0 s" "M 0 (l_ram s)"
  shows "\<exists>s'. rp_read B s = Some s' \<and> loaded (128 * segments z) s' \<and> M (128 * segments z) (l_ram s')"
proof -
  let ?N = "128 * segments z"
  define P where "P = (\<lambda>s. \<exists>p \<le> ?N. loaded p s \<and> M p (l_ram s))"
  have le: "?N \<le> 1024"
    using z unfolding segments_def by (simp add: div_less_iff_less_mult less_eq_Suc_le [symmetric] del: less_eq_Suc_le)
  have more: "more_to_load t \<longleftrightarrow> p < ?N" if "p \<le> ?N" "loaded p t" "M p (l_ram t)" for p t
    using more_to_load_iff [OF that(2,1) z size [OF that(1,3)]] .
  have fits: "p + chunk p \<le> ?N" if "p < ?N" for p
  proof -
    define a b where "a = p div 128" and "b = p mod 128"
    have "a < segments z" "p = 128 * a + b" "b + chunk p \<le> 128"
      using that chunk_bounds(3) [of p] by (simp_all add: a_def b_def div_less_iff_less_mult mult.commute)
    then show ?thesis
      by simp
  qed
  define pos where "pos = (\<lambda>t :: loader. 128 * (unat (l_es t) div 0x1000 - 1) + unat (l_bx t) div 512)"
  have pos: "pos t = p" if "loaded p t" "p \<le> 1024" for p t
  proof -
    have "p div 128 \<le> 8" "p mod 128 < 128"
      using that(2) div_le_mono [of p 1024 128] by simp_all
    then have "unat (l_es t) = 0x1000 * (p div 128 + 1)" "unat (l_bx t) = 512 * (p mod 128)"
      using that(1) unfolding loaded_def by (simp_all only:) (intro unat_of_nat16; simp)+
    then show ?thesis
      unfolding pos_def by simp
  qed
  have "P (ok1_read B t) \<and> ?N - pos (ok1_read B t) < ?N - pos t" if "P t" "more_to_load t" for t
  proof -
    obtain p where p: "p \<le> ?N" "loaded p t" "M p (l_ram t)"
      using \<open>P t\<close> by (auto simp: P_def)
    then have lt: "p < ?N"
      using more that(2) by blast
    have l: "loaded (p + chunk p) (ok1_read B t)"
      using lt le by (intro loaded_step p(2)) simp
    then have "P (ok1_read B t)"
      using step [OF lt p(2,3)] fits [OF lt] unfolding P_def by blast
    moreover have "pos (ok1_read B t) = p + chunk p" "pos t = p"
      using pos [OF l] pos [OF p(2)] fits [OF lt] le p(1) by linarith+
    ultimately show ?thesis
      using lt chunk_bounds(1) [of p] by simp
  qed
  moreover have "P s"
    using start by (auto simp: P_def)
  ultimately obtain s' where s': "rp_read B s = Some s'" "P s'"
    using measure_while_option_Some [of P more_to_load "ok1_read B" "\<lambda>t. ?N - pos t" s]
      while_option_rule [of P more_to_load "ok1_read B" s] unfolding rp_read_def by blast
  moreover have "\<not> more_to_load s'"
    using s'(1) unfolding rp_read_def by (rule while_option_stop)
  ultimately show ?thesis
    using more by (metis P_def le_neq_implies_less)
qed

section \<open>Memory\<close>

lemma seg_addr_of_nat:
  assumes "i < 2 ^ 16"
  shows "seg_addr s (of_nat i) = of_nat (16 * unat s + i)" and "unat (of_nat (16 * unat s + i) :: addr) = 16 * unat s + i"
proof -
  show u: "unat (of_nat (16 * unat s + i) :: addr) = 16 * unat s + i"
    using unat_bound16 [of s] assms by (simp only: unat_of_nat) simp
  then have "unat (seg_addr s (of_nat i)) = unat (of_nat (16 * unat s + i) :: addr)"
    using unat_of_nat16 [OF assms] unfolding seg_addr_nat by simp
  then show "seg_addr s (of_nat i) = of_nat (16 * unat s + i)"
    by (rule unsigned_word_eqI)
qed

lemma rep_movsw_moves:
  assumes "i + 2 * n \<le> 2 ^ 16" and "16 * unat ds + i + 2 * n \<le> 16 * unat es"
  shows "rep_movsw n ds (of_nat i) es (of_nat i) m a =
    (if 16 * unat es + i \<le> unat a \<and> unat a < 16 * unat es + i + 2 * n
     then m (of_nat (16 * unat ds + (unat a - 16 * unat es))) else m a)"
  using assms
proof (induction n arbitrary: i m)
  case (Suc n)
  let ?D = "16 * unat es" and ?S = "16 * unat ds"
  have i: "i < 2 ^ 16" "i + 1 < 2 ^ 16" "i + 2 + 2 * n \<le> 2 ^ 16" "?S + (i + 2) + 2 * n \<le> ?D"
    using Suc.prems by simp_all
  let ?m = "m(of_nat (?D + i) := m (of_nat (?S + i)), of_nat (?D + (i + 1)) := m (of_nat (?S + (i + 1))))"
  have two: "(of_nat i :: hword) + 1 = of_nat (i + 1)" "(of_nat i :: hword) + 2 = of_nat (i + 2)"
    by simp_all
  have step: "rep_movsw (Suc n) ds (of_nat i) es (of_nat i) m = rep_movsw n ds (of_nat (i + 2)) es (of_nat (i + 2)) ?m"
    unfolding rep_movsw.simps two seg_addr_of_nat(1) [OF i(1)] seg_addr_of_nat(1) [OF i(2)] ..
  define d0 d1 where "d0 = (of_nat (?D + i) :: addr)" and "d1 = (of_nat (?D + (i + 1)) :: addr)"
  have d: "unat d0 = ?D + i" "unat d1 = ?D + (i + 1)"
    using seg_addr_of_nat(2) [OF i(1), of es] seg_addr_of_nat(2) [OF i(2), of es] by (simp_all only: d0_def d1_def)
  define m1 where "m1 = ?m"
  have at: "m1 x = m (of_nat (?S + (unat x - ?D)))" if x: "unat x = ?D + i \<or> unat x = ?D + (i + 1)" for x
  proof -
    have "x = d0 \<or> x = d1" "d0 \<noteq> d1"
      using x d by (auto intro: unsigned_word_eqI [where ?'a = nat] dest: arg_cong [of _ _ unat])
    then show ?thesis
      unfolding m1_def d0_def [symmetric] d1_def [symmetric] using d by (auto simp del: of_nat_add)
  qed
  have off: "m1 x = m x" if "unat x < ?D + i \<or> ?D + (i + 1) < unat x" for x
    using that d unfolding m1_def d0_def [symmetric] d1_def [symmetric] by auto
  note step = step [folded m1_def]
  show ?case
  proof (cases "?D + (i + 2) \<le> unat a \<and> unat a < ?D + (i + 2) + 2 * n")
    case True
    then have "unat a - ?D < 2 ^ 16" "?S + (unat a - ?D) < ?D + i"
      using i(3,4) by linarith+
    then have "unat (of_nat (?S + (unat a - ?D)) :: addr) < ?D + i"
      using seg_addr_of_nat(2) [of "unat a - ?D" ds] by simp
    then show ?thesis
      using True off unfolding step Suc.IH [OF i(3,4)] by simp
  next
    case False
    consider "unat a = ?D + i \<or> unat a = ?D + (i + 1)" | "unat a < ?D + i \<or> ?D + (i + 1) < unat a"
      by linarith
    then show ?thesis
    proof cases
      case 1
      then have "?D + i \<le> unat a \<and> unat a < ?D + i + 2 * Suc n"
        by auto
      then show ?thesis
        using False at [OF 1] unfolding step Suc.IH [OF i(3,4)] by (simp only: if_True if_False simp_thms)
    next
      case 2
      then have "\<not> (?D + i \<le> unat a \<and> unat a < ?D + i + 2 * Suc n)"
        using False by auto
      then show ?thesis
        using False off [OF 2] unfolding step Suc.IH [OF i(3,4)] by (simp only: if_False simp_thms)
    qed
  qed
qed auto

text \<open>
  What the loader relies on of \<^verbatim>\<open>int 0x13\<close> with ah = 2: sectors of one track, that lie in the segment,
  are read to es:bx, for a disk with 18 sectors in a track, two heads and 80 tracks.
\<close>

definition floppy :: "(nat \<Rightarrow> byte) \<Rightarrow> bios \<Rightarrow> bool" where
  "floppy disk B \<longleftrightarrow> (\<forall>n c sec h es bx m. 1 \<le> n \<longrightarrow> sec + n \<le> 18 \<longrightarrow> h < 2 \<longrightarrow> c < 80 \<longrightarrow> unat bx + 512 * n \<le> 2 ^ 16 \<longrightarrow>
     disk_mem (B (of_nat n) (of_nat c) (of_nat (sec + 1)) (of_nat h) 0 es bx m) = (\<lambda>a.
       let base = unat (seg_addr es bx)
       in if base \<le> unat a \<and> unat a < base + 512 * n
          then disk (512 * ((c * 2 + h) * 18 + sec) + (unat a - base)) else m a))"

text \<open>Memory with the first \<open>n\<close> bytes of the system at 0x10000.\<close>

definition system_in :: "(nat \<Rightarrow> byte) \<Rightarrow> nat \<Rightarrow> memory \<Rightarrow> memory" where
  "system_in disk n m a = (if 0x10000 \<le> unat a \<and> unat a < 0x10000 + n then disk (512 + (unat a - 0x10000)) else m a)"

lemma ok1_read_floppy:
  assumes f: "floppy disk B" and l: "loaded p s" and p: "p < 1024" and m: "l_ram s = system_in disk (512 * p) m"
  shows "l_ram (ok1_read B s) = system_in disk (512 * (p + chunk p)) m"
proof -
  define n r b where "n = chunk p" and "r = (p + 1) mod 18" and "b = p mod 128"
  have bnd: "r + n \<le> 18" "b + n \<le> 128" "n \<le> 18" "1 \<le> n" "b < 128"
    using chunk_bounds [of p] by (simp_all add: n_def r_def b_def)
  have c: "(p + 1) div 36 < 80"
    using p by (simp add: div_less_iff_less_mult)
  have h: "(p + 1) div 18 mod 2 < 2" "(ucast (of_nat ((p + 1) div 18 mod 2) :: hword) :: byte) AND 1 = of_nat ((p + 1) div 18 mod 2)"
    by (auto simp: mod2_eq_if)
  have bx: "unat (l_bx s) = 512 * b" and es: "unat (l_es s) = 0x1000 * (p div 128 + 1)"
  proof -
    have "p div 128 < 8"
      using p by (simp add: div_less_iff_less_mult)
    then show "unat (l_bx s) = 512 * b" "unat (l_es s) = 0x1000 * (p div 128 + 1)"
      using l bnd(5) unfolding loaded_def b_def by (simp_all only:) (intro unat_of_nat16; simp)+
  qed
  have base: "unat (seg_addr (l_es s) (l_bx s)) = 0x10000 + 512 * p"
  proof -
    define q where "q = p div 128"
    have "p = 128 * q + b"
      by (simp add: q_def b_def)
    then show ?thesis
      unfolding seg_addr_nat es bx q_def [symmetric] by simp
  qed
  have lba: "((p + 1) div 36 * 2 + (p + 1) div 18 mod 2) * 18 + r = p + 1"
    unfolding r_def by (simp add: div_mult2_eq [of _ 18 2, simplified])
  have suc: "(ucast (of_nat r + 1 :: hword) :: byte) = of_nat (r + 1)"
    using ucast_of_nat8 [of "r + 1"] by (simp add: add.commute)
  have reg: "sread s = of_nat r" "head s = of_nat ((p + 1) div 18 mod 2)" "track s = of_nat ((p + 1) div 36)"
    using l by (simp_all add: loaded_def r_def)
  have "l_ram (ok1_read B s) = disk_mem (B (of_nat n) (of_nat ((p + 1) div 36)) (of_nat (r + 1)) (of_nat ((p + 1) div 18 mod 2)) 0
      (l_es s) (l_bx s) (l_ram s))"
    using h(2) suc unfolding ok1_read_def sectors_now_chunk [OF l] n_def [symmetric] Let_def next_track_place
    by (simp add: read_track_def Let_def reg ucast_of_nat8)
  also have "\<dots> = (\<lambda>a. let base = unat (seg_addr (l_es s) (l_bx s))
       in if base \<le> unat a \<and> unat a < base + 512 * n
          then disk (512 * (((p + 1) div 36 * 2 + (p + 1) div 18 mod 2) * 18 + r) + (unat a - base)) else l_ram s a)"
    using f [unfolded floppy_def, rule_format, OF bnd(4,1) h(1) c, of "l_bx s" "l_es s" "l_ram s"] bnd(2) bx by simp
  also have "\<dots> = system_in disk (512 * (p + n)) m"
    unfolding base lba m Let_def by (auto simp: system_in_def fun_eq_iff)
  finally show ?thesis
    by (simp add: n_def)
qed

section \<open>The start\<close>

text \<open>Sector 0 at 0x7C00, as the BIOS leaves it, with no further setup sector and nothing read yet.\<close>

definition sector_loaded :: "(nat \<Rightarrow> byte) \<Rightarrow> loader \<Rightarrow> bool" where
  "sector_loaded disk s \<longleftrightarrow> (\<forall>i < 512. l_ram s (of_nat (0x7C00 + i)) = disk i) \<and> disk 497 = 0 \<and>
     sread s = 0 \<and> head s = 0 \<and> track s = 0"

definition size_word :: "(nat \<Rightarrow> byte) \<Rightarrow> hword" where
  "size_word disk = ucast (disk 500) OR push_bit 8 (ucast (disk 501))"

lemma move_sector_at:
  assumes "sector_loaded disk s" and "i < 512"
  shows "l_ram (move_sector s) (of_nat (0x90000 + i)) = disk i"
proof -
  have u: "unat (of_nat (0x90000 + i) :: addr) = 0x90000 + i"
    using assms(2) by (simp only: unat_of_nat) simp
  have "l_ram (move_sector s) (of_nat (0x90000 + i)) = rep_movsw 256 BOOTSEG (of_nat 0) INITSEG (of_nat 0) (l_ram s) (of_nat (0x90000 + i))"
    by (simp add: move_sector_def)
  also have "\<dots> = l_ram s (of_nat (0x7C00 + i))"
    using assms(2) by (subst rep_movsw_moves) (simp_all add: u del: of_nat_add)
  finally show ?thesis
    using assms by (simp add: sector_loaded_def)
qed

text \<open>Reading from a state in which the loop starts.\<close>

lemma read_it_starts:
  fixes x :: "byte list"
  assumes "sector_loaded disk s"
  defines "s1 \<equiv> (move_sector s)\<lparr>screen := x, l_es := SYSSEG\<rparr>"
  shows "read_it B s1 = rp_read B (s1\<lparr>sread := 1, l_bx := 0\<rparr>)" and "loaded 0 (s1\<lparr>sread := 1, l_bx := 0\<rparr>)"
    and "word_at (l_ram s1) (seg_addr INITSEG syssize) = size_word disk"
proof -
  have at: "l_ram s1 (0x90000 + of_nat i) = disk i" if "i < 512" for i
    using move_sector_at [OF assms(1) that] by (simp add: s1_def)
  have s: "sread s1 = 0" "head s1 = 0" "track s1 = 0"
    using assms(1) by (simp_all add: s1_def sector_loaded_def move_sector_def)
  have "l_ram s1 0x901F1 = 0"
    using at [of 497] assms(1) by (simp add: sector_loaded_def)
  then show "read_it B s1 = rp_read B (s1\<lparr>sread := 1, l_bx := 0\<rparr>)"
    using s by (simp add: read_it_def Let_def seg_addr_def s1_def)
  show "loaded 0 (s1\<lparr>sread := 1, l_bx := 0\<rparr>)"
    using s by (simp add: loaded_def s1_def)
  show "word_at (l_ram s1) (seg_addr INITSEG syssize) = size_word disk"
    using at [of 500] at [of 501] by (simp add: word_at_def size_word_def seg_addr_def)
qed

lemma kbc_ram [simp]: "l_ram (empty_8042_loop n s) = l_ram s"
  by (induction n arbitrary: s) (auto simp: inb_kbc_def Let_def)

lemma outb_ram [simp]: "l_ram (outb p v s) = l_ram s"
  by (simp add: outb_def)

lemma final_regs: "l_cs (enter_protected (set_8259 s)) = KERNEL_CS" "l_eip (enter_protected (set_8259 s)) = 0x10010"
  "l_gdtr (enter_protected (set_8259 s)) = register_at (l_ram s) gdt_48"
  by (simp_all add: enter_protected_def set_8259_def)

lemma final_ram: "l_ram (enter_protected (set_8259 s)) = l_ram s" "l_ram (enable_A20 s) = l_ram s"
  by (simp_all add: enter_protected_def set_8259_def enable_A20_def empty_8042_def)

section \<open>Address line 20\<close>

text \<open>
  What the loader needs of the line: that it opens, and stays open for a second test, since the
  word 1 MiB above may happen to be the counter the first time.
\<close>

definition a20_opens :: "loader \<Rightarrow> bool" where
  "a20_opens s \<longleftrightarrow> (\<exists>n \<ge> a20_tests s. a20_open s n \<and> a20_open s (n + 1))"

definition a20_round :: "hword \<Rightarrow> loader \<Rightarrow> loader" where
  "a20_round ax s = s\<lparr>l_ram := put_word 0x7c ax (l_ram s), a20_tests := a20_tests s + 1\<rparr>"

lemma word_at_put [simp]: "word_at (put_word a w m) a = w"
  unfolding word_at_def put_word_def by (rule bit_word_eqI) (auto simp: bit_simps)

lemma put_word_twice [simp]: "put_word a v (put_word a w m) = put_word a v m"
  by (auto simp: put_word_def)

lemma put_word_at [simp]: "put_word a (word_at m a) m = m"
proof -
  have "ucast (word_at m a) = m a" "ucast (drop_bit 8 (word_at m a)) = m (a + 1)"
    unfolding word_at_def by (rule bit_word_eqI; auto simp: bit_simps dest: bit_imp_le_length)+
  then show ?thesis
    by (simp add: put_word_def)
qed

lemma word_at_above: "word_at (put_word 0x7c w m) 0x10007c = word_at m 0x10007c"
  by (simp add: word_at_def put_word_def)

lemma a20_addresses: "seg_addr 0 TEST_ADDR = 0x7c" "seg_addr 0xFFFF (TEST_ADDR + 0x10) = 0x10007c" "seg_addr 0xFFFF 0x8c = 0x10007c"
  "gate_a20 True a = a" "gate_a20 False 0x10007c = 0x7c"
  by (simp_all add: seg_addr_def gate_a20_def)

lemma a20_wait_loop_step:
  "a20_wait_loop ax s =
    (if \<not> a20_open s (a20_tests s) \<or> word_at (l_ram s) 0x10007c = ax + 1 then a20_wait_loop (ax + 1) (a20_round (ax + 1) s)
     else Some (a20_round (ax + 1) s))"
  unfolding a20_wait_loop.simps [of ax s] Let_def a20_addresses a20_round_def
  by (cases "a20_open s (a20_tests s)") (auto simp: a20_addresses word_at_above)

lemma a20_round_simps [simp]:
  "a20_open (a20_round w s) = a20_open s" "a20_tests (a20_round w s) = a20_tests s + 1"
  "word_at (l_ram (a20_round w s)) 0x10007c = word_at (l_ram s) 0x10007c"
  "a20_round v (a20_round w s) = (a20_round v s)\<lparr>a20_tests := a20_tests s + 2\<rparr>"
  by (simp_all add: a20_round_def word_at_above)

text \<open>The loop returns with a counter at 0x7c and nothing else changed but the number of tests.\<close>

definition a20_waited :: "loader \<Rightarrow> loader \<Rightarrow> bool" where
  "a20_waited s s' \<longleftrightarrow> (\<exists>w t. s' = s\<lparr>l_ram := put_word 0x7c w (l_ram s), a20_tests := t\<rparr>)"

lemma a20_waited_round: "a20_waited s (a20_round w s)" "a20_waited (a20_round w s) s' \<longrightarrow> a20_waited s s'"
  by (auto simp: a20_waited_def a20_round_def)

lemma a20_wait_loop_ends:
  assumes "a20_tests s \<le> n" and "a20_open s n" and "a20_open s (n + 1)"
  shows "\<exists>s'. a20_wait_loop ax s = Some s' \<and> a20_waited s s'"
  using assms
proof (induction "n - a20_tests s" arbitrary: ax s)
  case 0
  then have "a20_tests s = n"
    by simp
  then show ?case
    using "0.prems" a20_waited_round [where s = s and w = "ax + 1"] a20_waited_round(1) [of "a20_round (ax + 1) s" "2 + ax"]
    by (cases "word_at (l_ram s) 0x10007c = ax + 1")
      (simp_all add: a20_wait_loop_step [of ax s] a20_wait_loop_step [of "ax + 1" "a20_round (ax + 1) s"])
next
  case (Suc d)
  then have "\<exists>s'. a20_wait_loop (ax + 1) (a20_round (ax + 1) s) = Some s' \<and> a20_waited (a20_round (ax + 1) s) s'"
    by (intro Suc.hyps(1)) simp_all
  then show ?case
    using Suc.hyps(2) a20_waited_round(2) [of "ax + 1" s] Suc.prems
    by (cases "a20_open s (a20_tests s) \<and> word_at (l_ram s) 0x10007c \<noteq> ax + 1")
      (use a20_waited_round(1) [of s "ax + 1"] in \<open>auto simp: a20_wait_loop_step [of ax s]\<close>)
qed

text \<open>With the line closed for good it never returns.\<close>

lemma a20_closed_hangs:
  assumes "\<forall>n \<ge> a20_tests s. \<not> a20_open s n"
  shows "a20_wait_loop ax s = None"
proof -
  have "(\<forall>n \<ge> a20_tests x. \<not> a20_open x n) \<longrightarrow> False" if "a20_wait_loop ax x = Some y" for ax x y
  proof (rule a20_wait_loop.raw_induct [where P = "\<lambda>ax x y. (\<forall>n \<ge> a20_tests x. \<not> a20_open x n) \<longrightarrow> False", OF _ that], intro impI)
    fix f :: "hword \<Rightarrow> loader \<Rightarrow> loader option" and ax x y
    assume IH: "\<And>ax x y. f ax x = Some y \<Longrightarrow> (\<forall>n \<ge> a20_tests x. \<not> a20_open x n) \<longrightarrow> False"
      and r: "(let ax = ax + 1;
          s = x\<lparr>l_ram := put_word (seg_addr 0 TEST_ADDR) ax (l_ram x)\<rparr>;
          v = word_at (l_ram s) (gate_a20 (a20_open s (a20_tests s)) (seg_addr 0xFFFF (TEST_ADDR + 0x10)));
          s = s\<lparr>a20_tests := a20_tests s + 1\<rparr>
      in if ax = v then f ax s else Some s) = Some y"
      and closed: "\<forall>n \<ge> a20_tests x. \<not> a20_open x n"
    have "\<not> a20_open x (a20_tests x)"
      using closed by simp
    then have "f (ax + 1) (a20_round (ax + 1) x) = Some y"
      using r by (simp add: Let_def a20_addresses a20_round_def)
    from IH [OF this] show False
      using closed by simp
  qed
  then show ?thesis
    using assms by (cases "a20_wait_loop ax s") auto
qed

lemma a20_wait_ends:
  assumes "a20_opens s"
  shows "\<exists>t. a20_wait s = Some (s\<lparr>a20_tests := t\<rparr>)"
proof -
  obtain n where "a20_tests s \<le> n" "a20_open s n" "a20_open s (n + 1)"
    using assms by (auto simp: a20_opens_def)
  from a20_wait_loop_ends [OF this, of "0 - 1"] show ?thesis
    by (auto simp: a20_wait_def Let_def a20_addresses a20_waited_def)
qed

lemma a20_frame [simp]:
  "a20_open (empty_8042_loop n s) = a20_open s" "a20_tests (empty_8042_loop n s) = a20_tests s"
  "a20_open (outb p v s) = a20_open s" "a20_tests (outb p v s) = a20_tests s"
  "a20_open (enable_A20 s) = a20_open s" "a20_tests (enable_A20 s) = a20_tests s"
proof -
  show kbc: "a20_open (empty_8042_loop n s) = a20_open s" "a20_tests (empty_8042_loop n s) = a20_tests s" for n s
    by (induction n arbitrary: s) (auto simp: inb_kbc_def Let_def)
  show outb: "a20_open (outb p v s) = a20_open s" "a20_tests (outb p v s) = a20_tests s" for p v s
    by (simp_all add: outb_def)
  show "a20_open (enable_A20 s) = a20_open s" "a20_tests (enable_A20 s) = a20_tests s"
    by (simp_all add: enable_A20_def empty_8042_def kbc outb)
qed

lemma ok1_read_a20: "a20_open (ok1_read B s) = a20_open s" "a20_tests (ok1_read B s) = a20_tests s"
  by (simp_all add: ok1_read_def next_place_def next_track_def read_track_def Let_def)

lemma rp_read_a20:
  assumes "rp_read B s = Some s'"
  shows "a20_open s' = a20_open s \<and> a20_tests s' = a20_tests s"
  using while_option_rule [of "\<lambda>t. a20_open t = a20_open s \<and> a20_tests t = a20_tests s" more_to_load "ok1_read B" s s'] assms
  by (simp add: rp_read_def ok1_read_a20)

section \<open>The whole loader\<close>

text \<open>
  The loader as a whole, for a memory \<open>M p\<close> after \<open>p\<close> sectors that the reads keep up and in which
  the size in the sector stays: it enters the kernel when line 20 opens, and waits for ever when it
  does not.
\<close>

lemma bootsect_ends:
  assumes s: "sector_loaded disk s" and z: "unat (size_word disk) < 0x8000"
  defines "N \<equiv> 128 * segments (size_word disk)" and "m0 \<equiv> l_ram (move_sector s)"
  assumes step: "\<And>p t. p < N \<Longrightarrow> loaded p t \<Longrightarrow> l_ram t = M p m0 \<Longrightarrow> l_ram (ok1_read B t) = M (p + chunk p) m0"
    and start: "M 0 m0 = m0" and keep: "\<And>p a. p \<le> N \<Longrightarrow> 0x90000 \<le> unat a \<Longrightarrow> M p m0 a = m0 a"
  shows "a20_opens s \<Longrightarrow> \<exists>s'. bootsect B s = Some s' \<and> l_ram s' = M N m0 \<and> l_cs s' = KERNEL_CS \<and> l_eip s' = 0x10010 \<and>
      l_gdtr s' = register_at (l_ram s') gdt_48"
    and "\<forall>n \<ge> a20_tests s. \<not> a20_open s n \<Longrightarrow> bootsect B s = None"
proof -
  define s1 where "s1 = (move_sector s)\<lparr>screen := screen (move_sector s) @ msg1, l_es := SYSSEG\<rparr>"
  note st = read_it_starts [OF s, where x = "screen (move_sector s) @ msg1", folded s1_def]
  have ram1: "l_ram s1 = m0"
    by (simp add: s1_def m0_def)
  have size: "word_at m (seg_addr INITSEG syssize) = size_word disk" if "p \<le> N" "m = M p m0" for p m
  proof -
    have "m a = m0 a" if "a = 0x901F4 \<or> a = 0x901F5" for a
      using keep [OF \<open>p \<le> N\<close>, of a] that \<open>m = M p m0\<close> by auto
    then show ?thesis
      using st(3) unfolding ram1 by (simp add: word_at_def seg_addr_def)
  qed
  let ?s = "s1\<lparr>sread := 1, l_bx := 0\<rparr>"
  have "\<exists>s2. rp_read B ?s = Some s2 \<and> loaded N s2 \<and> l_ram s2 = M N m0"
    unfolding N_def
  proof (rule rp_read_ends [where M = "\<lambda>p m. m = M p m0"])
    show "l_ram ?s = M 0 m0"
      using start ram1 by simp
  qed (fact step [unfolded N_def] size [unfolded N_def] z st(2))+
  then obtain s2 where s2: "rp_read B ?s = Some s2" "l_ram s2 = M N m0"
    by blast
  define s3 where "s3 = enable_A20 (outb 0x70 0x80 (kill_motor s2))"
  have s3: "l_ram s3 = M N m0" "a20_open s3 = a20_open s" "a20_tests s3 = a20_tests s"
    using rp_read_a20 [OF s2(1)] s2(2) by (simp_all add: s3_def final_ram kill_motor_def s1_def move_sector_def)
  have b: "bootsect B s = do { s \<leftarrow> a20_wait s3; Some (enter_protected (set_8259 s)) }"
    using st(1) s2(1) by (simp add: bootsect_def Let_def s1_def s3_def)
  show "\<exists>s'. bootsect B s = Some s' \<and> l_ram s' = M N m0 \<and> l_cs s' = KERNEL_CS \<and> l_eip s' = 0x10010 \<and>
      l_gdtr s' = register_at (l_ram s') gdt_48" if "a20_opens s"
  proof -
    have "a20_opens s3"
      using that by (simp add: a20_opens_def s3)
    from a20_wait_ends [OF this] show ?thesis
      using s3(1) final_ram(1) final_regs by (auto simp: b)
  qed
  show "bootsect B s = None" if "\<forall>n \<ge> a20_tests s. \<not> a20_open s n"
    using a20_closed_hangs [of s3 "0 - 1"] that by (simp add: b a20_wait_def Let_def s3)
qed

end
