(* ===== verification/LoaderSpec.thy ===== *)
theory LoaderSpec
  imports LoaderLoop Segments
begin

text \<open>
  What the boot loader leaves: the system in memory, and the descriptor table where the kernel's
  selectors and constants expect it.
\<close>

section \<open>A disk that works\<close>

text \<open>A BIOS that reads a disk, one that never does, and the state in which the sector starts.\<close>

definition floppy_bios :: "(nat \<Rightarrow> byte) \<Rightarrow> bios" where
  "floppy_bios disk al ch cl dh dl es bx m =
     (let base = unat (seg_addr es bx); lba = (unat ch * 2 + unat dh) * 18 + (unat cl - 1)
      in \<lparr>carry = False, ah_status = 0, disk_mem = (\<lambda>a.
           if base \<le> unat a \<and> unat a < base + 512 * unat al then disk (512 * lba + (unat a - base)) else m a)\<rparr>)"

lemma floppy_bios_reads: "floppy disk (floppy_bios disk)"
  unfolding floppy_def
proof (intro allI impI)
  fix n c sec h :: nat and es bx :: hword and m :: memory
  assume "1 \<le> n" "sec + n \<le> 18" "h < 2" "c < 80"
  then have u: "unat (of_nat n :: byte) = n" "unat (of_nat c :: byte) = c" "unat (of_nat (sec + 1) :: byte) = sec + 1"
      "unat (of_nat h :: byte) = h"
    by (simp_all only: unat_of_nat) simp_all
  show "disk_mem (floppy_bios disk (of_nat n) (of_nat c) (of_nat (sec + 1)) (of_nat h) 0 es bx m) = (\<lambda>a.
       let base = unat (seg_addr es bx)
       in if base \<le> unat a \<and> unat a < base + 512 * n then disk (512 * ((c * 2 + h) * 18 + sec) + (unat a - base)) else m a)"
    unfolding floppy_bios_def u Let_def by (auto simp: fun_eq_iff algebra_simps)
qed

definition ex_disk :: "nat \<Rightarrow> byte" where
  "ex_disk i = (if 435 \<le> i \<and> i < 512 then sector_data ! (i - 435) else of_nat i)"

definition sector_start :: "(nat \<Rightarrow> byte) \<Rightarrow> loader" where
  "sector_start disk = \<lparr>l_ram = (\<lambda>a. disk (unat a - 0x7C00)), l_es = 0, l_bx = 0, sread = 0, head = 0, track = 0, screen = [],
     outs = [], kbc = (\<lambda>_. 0), kbc_reads = 0, a20_open = (\<lambda>n. 5 \<le> n), a20_tests = 0, l_gdtr = \<lparr>r_limit = 0, r_base = 0\<rparr>, l_idtr = \<lparr>r_limit = 0, r_base = 0\<rparr>,
     l_cs = 0, l_eip = 0x7C00\<rparr>"

lemma sector_start_loaded:
  assumes "disk 497 = 0"
  shows "sector_loaded disk (sector_start disk)"
proof -
  have "unat (of_nat (0x7C00 + i) :: addr) = 0x7C00 + i" if "i < 512" for i
    using that by (simp only: unat_of_nat) simp
  then show ?thesis
    using assms by (simp add: sector_loaded_def sector_start_def del: of_nat_add)
qed

lemma sector_start_a20: "a20_opens (sector_start disk)"
  unfolding a20_opens_def by (rule exI [of _ 5]) (simp add: sector_start_def)

lemma ex_disk_ok: "unat (size_word ex_disk) = 0x7F00" "sector_loaded ex_disk (sector_start ex_disk)"
proof -
  show "unat (size_word ex_disk) = 0x7F00"
    by (simp add: ex_disk_def size_word_def sector_data_def)
  show "sector_loaded ex_disk (sector_start ex_disk)"
    by (rule sector_start_loaded) (simp add: ex_disk_def sector_data_def)
qed

section \<open>The system in memory\<close>

text \<open>The memory of a disk that reads, as the loop needs it.\<close>

lemma system_in_reads:
  assumes f: "floppy disk B" and z: "unat (size_word disk) < 0x8000"
  shows "\<And>p t m. p < 128 * segments (size_word disk) \<Longrightarrow> loaded p t \<Longrightarrow> l_ram t = system_in disk (512 * p) m \<Longrightarrow>
      l_ram (ok1_read B t) = system_in disk (512 * (p + chunk p)) m"
    and "\<And>m. system_in disk (512 * 0) m = m"
    and "\<And>p m a. p \<le> 128 * segments (size_word disk) \<Longrightarrow> 0x90000 \<le> unat a \<Longrightarrow> system_in disk (512 * p) m a = m a"
    and "segments (size_word disk) \<le> 8"
proof -
  show le: "segments (size_word disk) \<le> 8"
    using z unfolding segments_def by (simp add: div_less_iff_less_mult less_eq_Suc_le [symmetric] del: less_eq_Suc_le)
  show "l_ram (ok1_read B t) = system_in disk (512 * (p + chunk p)) m"
    if "p < 128 * segments (size_word disk)" "loaded p t" "l_ram t = system_in disk (512 * p) m" for p t m
    using that le by (intro ok1_read_floppy [OF f]) simp_all
  show "system_in disk (512 * 0) m = m" for m
    by (auto simp: system_in_def fun_eq_iff)
  show "system_in disk (512 * p) m a = m a" if "p \<le> 128 * segments (size_word disk)" "0x90000 \<le> unat a" for p m a
    using that le by (simp add: system_in_def)
qed

lemma bootsect_loads:
  assumes f: "floppy disk B" and s: "sector_loaded disk s" and z: "unat (size_word disk) < 0x8000" and a20: "a20_opens s"
  shows "\<exists>s'. bootsect B s = Some s' \<and> l_cs s' = KERNEL_CS \<and> l_eip s' = 0x10010 \<and> l_gdtr s' = register_at (l_ram s') gdt_48 \<and>
    (\<forall>i < 0x10000 * segments (size_word disk). l_ram s' (of_nat (0x10000 + i)) = disk (512 + i)) \<and>
    (\<forall>i < 512. l_ram s' (of_nat (0x90000 + i)) = disk i)"
proof -
  let ?n = "0x10000 * segments (size_word disk)" and ?m = "l_ram (move_sector s)"
  note reads = system_in_reads [OF f z]
  note le = reads(4)
  obtain s' where s': "bootsect B s = Some s'" "l_ram s' = system_in disk (512 * (128 * segments (size_word disk))) ?m"
      "l_cs s' = KERNEL_CS" "l_eip s' = 0x10010" "l_gdtr s' = register_at (l_ram s') gdt_48"
    using bootsect_ends(1) [OF s z _ _ _ a20, where M = "\<lambda>p. system_in disk (512 * p)" and B = B] reads by blast
  have u: "unat (of_nat i :: addr) = i" if "i < 0x100000" for i
    using that by (simp add: unat_of_nat)
  have "l_ram s' (of_nat (0x10000 + i)) = disk (512 + i)" if "i < ?n" for i
    using that le u [of "0x10000 + i"] by (simp add: s'(2) system_in_def del: of_nat_add)
  moreover have "l_ram s' (of_nat (0x90000 + i)) = disk i" if "i < 512" for i
    using that le u [of "0x90000 + i"] move_sector_at [OF s that] by (simp add: s'(2) system_in_def del: of_nat_add)
  ultimately show ?thesis
    using s' by blast
qed

text \<open>The same start, with line 20 closed for good.\<close>

lemma bootsect_waits:
  assumes f: "floppy disk B" and s: "sector_loaded disk s" and z: "unat (size_word disk) < 0x8000"
    and closed: "\<forall>n \<ge> a20_tests s. \<not> a20_open s n"
  shows "bootsect B s = None"
  using bootsect_ends(2) [OF s z _ _ _ closed, where M = "\<lambda>p. system_in disk (512 * p)" and B = B] system_in_reads [OF f z] by blast

text \<open>
  C34: the boot loader loads the system.  With sector 0 in memory, a size below 512 KiB, a disk
  whose BIOS reads what it is asked to and an address line 20 that opens, the loader ends, with the
  sectors behind sector 0 at 0x10000 in the order of the disk, to the end of the segment of 64 KiB
  the size ends in, and the data of its own sector in place; it enters the kernel at 0x10010.  If
  line 20 stays closed it waits for ever.
\<close>

theorem loader_loads_system:
  assumes "floppy disk B" and "sector_loaded disk s" and "unat (size_word disk) < 0x8000"
  shows "(a20_opens s \<longrightarrow> (\<exists>s'. bootsect B s = Some s' \<and> l_cs s' = 0x10 \<and> l_eip s' = 0x10010 \<and>
      (\<forall>i < 0x10000 * (unat (size_word disk) div 0x1000 + 1). l_ram s' (of_nat (0x10000 + i)) = disk (512 + i)) \<and>
      (\<forall>i < 77. l_ram s' (of_nat (0x90000 + 435 + i)) = disk (435 + i)))) \<and>
    ((\<forall>n \<ge> a20_tests s. \<not> a20_open s n) \<longrightarrow> bootsect B s = None)"
proof (intro conjI impI)
  assume "a20_opens s"
  then obtain s' where s': "bootsect B s = Some s'" "l_cs s' = KERNEL_CS" "l_eip s' = 0x10010"
      "\<forall>i < 0x10000 * segments (size_word disk). l_ram s' (of_nat (0x10000 + i)) = disk (512 + i)"
      "\<And>i. i < 512 \<Longrightarrow> l_ram s' (of_nat (0x90000 + i)) = disk i"
    using bootsect_loads [OF assms] by blast
  have "l_ram s' (of_nat (0x90000 + 435 + i)) = disk (435 + i)" if "i < 77" for i
    using s'(5) [of "435 + i"] that by (simp add: add.assoc)
  then show "\<exists>s'. bootsect B s = Some s' \<and> l_cs s' = 0x10 \<and> l_eip s' = 0x10010 \<and>
      (\<forall>i < 0x10000 * (unat (size_word disk) div 0x1000 + 1). l_ram s' (of_nat (0x10000 + i)) = disk (512 + i)) \<and>
      (\<forall>i < 77. l_ram s' (of_nat (0x90000 + 435 + i)) = disk (435 + i))"
    using s'(1-4) by (auto simp: segments_def)
qed (rule bootsect_waits [OF assms])

theorem loader_loads_system_witness:
  "(\<exists>s'. bootsect (floppy_bios ex_disk) (sector_start ex_disk) = Some s' \<and> l_ram s' 0x10003 = 3) \<and>
   bootsect (floppy_bios ex_disk) ((sector_start ex_disk)\<lparr>a20_open := \<lambda>_. False\<rparr>) = None"
proof
  obtain s' where s': "bootsect (floppy_bios ex_disk) (sector_start ex_disk) = Some s'"
      "\<And>i. i < 0x80000 \<Longrightarrow> l_ram s' (of_nat (0x10000 + i)) = ex_disk (512 + i)"
    using loader_loads_system [OF floppy_bios_reads ex_disk_ok(2)] ex_disk_ok(1) sector_start_a20 by auto
  then show "\<exists>s'. bootsect (floppy_bios ex_disk) (sector_start ex_disk) = Some s' \<and> l_ram s' 0x10003 = 3"
    using s'(2) [of 3] by (simp add: ex_disk_def)
  have "sector_loaded ex_disk ((sector_start ex_disk)\<lparr>a20_open := \<lambda>_. False\<rparr>)"
    using ex_disk_ok(2) by (simp add: sector_loaded_def)
  from loader_loads_system [OF floppy_bios_reads this] ex_disk_ok(1)
  show "bootsect (floppy_bios ex_disk) ((sector_start ex_disk)\<lparr>a20_open := \<lambda>_. False\<rparr>) = None"
    by simp
qed

text \<open>\<open>never_reads B\<close>: every read fails, with the carry flag set and memory as it was.\<close>

definition never_reads :: "bios \<Rightarrow> bool" where
  "never_reads B \<longleftrightarrow> (\<forall>n c sec h d es bx m. carry (B n c sec h d es bx m) \<and> disk_mem (B n c sec h d es bx m) = m)"

text \<open>The BIOS that does the same to memory and reports a success every time.\<close>

definition says_done :: "bios \<Rightarrow> bios" where
  "says_done B n c sec h d es bx m = (B n c sec h d es bx m)\<lparr>carry := False, ah_status := 0\<rparr>"

lemma read_track_done: "read_track (says_done B) ax s = read_track B ax s"
  by (simp add: read_track_def says_done_def Let_def)

lemma bootsect_done: "bootsect (says_done B) s = bootsect B s"
proof -
  have "ok1_read (says_done B) = ok1_read B"
    by (auto simp: fun_eq_iff ok1_read_def read_track_done)
  then show ?thesis
    by (simp add: bootsect_def read_it_def rp_read_def)
qed

text \<open>
  C36: a read that fails is not noticed.  The loader does the same whether the BIOS reports its
  failures, in the carry flag and in ah, or calls every read a success; and with a disk of which
  every read fails it still ends once line 20 is open, and enters the kernel with what was in
  memory before.
\<close>

theorem read_failure_unnoticed:
  assumes "sector_loaded disk s" and "unat (size_word disk) < 0x8000" and "never_reads B" and "a20_opens s"
  shows "bootsect (says_done B') s = bootsect B' s \<and>
    (\<exists>s'. bootsect B s = Some s' \<and> l_cs s' = 0x10 \<and> l_eip s' = 0x10010 \<and> (\<forall>a. unat a < 0x90000 \<longrightarrow> l_ram s' a = l_ram s a))"
proof -
  have "l_ram (ok1_read B t) = l_ram t" for t
    using assms(3) by (simp add: ok1_read_def read_track_def Let_def never_reads_def)
  then obtain s' where s': "bootsect B s = Some s'" "l_ram s' = l_ram (move_sector s)" "l_cs s' = KERNEL_CS" "l_eip s' = 0x10010"
    using bootsect_ends(1) [OF assms(1,2) _ _ _ assms(4), where M = "\<lambda>p m. m" and B = B] by metis
  have "l_ram (move_sector s) a = l_ram s a" if "unat a < 0x90000" for a
    using that rep_movsw_moves [of 0 256 BOOTSEG INITSEG "l_ram s" a] by (simp add: move_sector_def)
  then show ?thesis
    using s' bootsect_done by auto
qed

definition broken_bios :: bios where
  "broken_bios n c sec h d es bx m = \<lparr>carry = True, ah_status = 0x80, disk_mem = m\<rparr>"

theorem read_failure_unnoticed_witness:
  "bootsect (says_done broken_bios) (sector_start ex_disk) = bootsect broken_bios (sector_start ex_disk) \<and>
   (\<exists>s'. bootsect broken_bios (sector_start ex_disk) = Some s' \<and> l_eip s' = 0x10010 \<and> l_ram s' 0x10010 = ex_disk 0x8410)"
proof -
  have "never_reads broken_bios"
    by (simp add: never_reads_def broken_bios_def)
  from read_failure_unnoticed [OF ex_disk_ok(2) _ this sector_start_a20] ex_disk_ok(1)
  obtain s' where s': "bootsect (says_done broken_bios) (sector_start ex_disk) = bootsect broken_bios (sector_start ex_disk)"
      "bootsect broken_bios (sector_start ex_disk) = Some s'" "l_eip s' = 0x10010"
      "\<forall>a. unat a < 0x90000 \<longrightarrow> l_ram s' a = l_ram (sector_start ex_disk) a"
    by auto
  then show ?thesis
    by (simp add: sector_start_def)
qed

section \<open>The descriptor table\<close>

definition descriptor_at :: "memory \<Rightarrow> addr \<Rightarrow> nat \<Rightarrow> Descriptor" where
  "descriptor_at m table i =
     (let a = table + 8 * of_nat i
      in \<lparr>d_limit = word_at m a, d_lowBase = word_at m (a + 2), d_midBase = m (a + 4), d_flags1 = m (a + 5),
          d_flags2 = m (a + 6), d_highBase = m (a + 7)\<rparr>)"

lemma descriptor_at_cong:
  assumes "\<And>j. j < 8 \<Longrightarrow> m (t + 8 * of_nat i + of_nat j) = m' (t + 8 * of_nat i + of_nat j)"
  shows "descriptor_at m t i = descriptor_at m' t i"
  using assms [of 0] assms [of 1] assms [of 2] assms [of 3] assms [of 4] assms [of 5] assms [of 6] assms [of 7]
  by (simp add: descriptor_at_def word_at_def Let_def add.assoc)

definition flat :: "byte \<Rightarrow> Descriptor" where
  "flat flags = \<lparr>d_limit = 0xFFFF, d_lowBase = 0, d_midBase = 0, d_flags1 = flags, d_flags2 = 0xcf, d_highBase = 0\<rparr>"

text \<open>A disk whose boot sector is the assembled one, with any size.\<close>

definition zeos_sector :: "(nat \<Rightarrow> byte) \<Rightarrow> bool" where
  "zeos_sector disk \<longleftrightarrow> (\<forall>i < 77. i \<notin> {65, 66} \<longrightarrow> disk (435 + i) = sector_data ! i)"

text \<open>
  C35: the table the loader hands over, once line 20 is open.  The descriptor table register points
  to the address the kernel's constant names, and the entries its selectors name are flat 4 GiB
  segments: code and data for the kernel, code and data for privilege 3, and a free task state
  segment.
\<close>

theorem loader_descriptor_table:
  assumes "floppy disk B" and "sector_loaded disk s" and "unat (size_word disk) < 0x8000" and "zeos_sector disk"
    and "a20_opens s"
  shows "\<exists>s'. bootsect B s = Some s' \<and> l_gdtr s' = \<lparr>r_limit = 0x8000, r_base = GDT_START\<rparr> \<and>
    (let entry = \<lambda>sel :: hword. descriptor_at (l_ram s') GDT_START (unat (drop_bit 3 sel))
     in entry KERNEL_CS = flat 0x9a \<and> entry KERNEL_DS = flat 0x92 \<and> entry USER_CS = flat 0xfa \<and> entry USER_DS = flat 0xf2 \<and>
        entry KERNEL_TSS = \<lparr>d_limit = 104, d_lowBase = 0, d_midBase = 0, d_flags1 = 0x89, d_flags2 = 0, d_highBase = 0\<rparr>)"
proof -
  obtain s' where s': "bootsect B s = Some s'" "l_gdtr s' = register_at (l_ram s') gdt_48"
      "\<And>i. i < 512 \<Longrightarrow> l_ram s' (of_nat (0x90000 + i)) = disk i"
    using bootsect_loads [OF assms(1-3,5)] by blast
  have at: "l_ram s' (0x901b3 + of_nat i) = sector_data ! i" if "i < 77" "i \<noteq> 65" "i \<noteq> 66" for i
    using s'(3) [of "435 + i"] assms(4) that by (simp add: zeos_sector_def)
  have reg: "l_gdtr s' = \<lparr>r_limit = 0x8000, r_base = GDT_START\<rparr>"
    using at [of 67] at [of 68] at [of 69] at [of 70] at [of 71] at [of 72] s'(2)
    by (simp add: register_at_def word_at_def seg_addr_def sector_data_def)
  have row: "descriptor_at (l_ram s') GDT_START i = descriptor_at (\<lambda>a. sector_data ! unat (a - GDT_START)) GDT_START i" if "i < 7" for i
  proof (rule descriptor_at_cong)
    fix j :: nat
    assume "j < 8"
    then have "8 * i + j < 56"
      using that by simp
    moreover from this have "unat (of_nat (8 * i + j) :: addr) = 8 * i + j"
      by (simp only: unat_of_nat) simp
    ultimately show "l_ram s' (GDT_START + 8 * of_nat i + of_nat j) = sector_data ! unat (GDT_START + 8 * of_nat i + of_nat j - GDT_START)"
      using at [of "8 * i + j"] by (simp add: add.assoc)
  qed
  have sel: "unat (drop_bit 3 (0x10 :: hword)) = 2" "unat (drop_bit 3 (0x18 :: hword)) = 3" "unat (drop_bit 3 (0x23 :: hword)) = 4"
      "unat (drop_bit 3 (0x2B :: hword)) = 5" "unat (drop_bit 3 (0x30 :: hword)) = 6"
    by (simp_all add: drop_bit_eq_div)
  have flat: "descriptor_at (l_ram s') GDT_START 2 = flat 0x9a" "descriptor_at (l_ram s') GDT_START 3 = flat 0x92"
      "descriptor_at (l_ram s') GDT_START 4 = flat 0xfa" "descriptor_at (l_ram s') GDT_START 5 = flat 0xf2"
      "descriptor_at (l_ram s') GDT_START 6 = \<lparr>d_limit = 104, d_lowBase = 0, d_midBase = 0, d_flags1 = 0x89, d_flags2 = 0, d_highBase = 0\<rparr>"
    by (simp_all add: row) (simp_all add: descriptor_at_def flat_def Let_def word_at_def sector_data_def)
  show ?thesis
    using s'(1) reg flat by (intro exI [of _ s']) (simp add: sel Let_def)
qed

theorem loader_descriptor_table_witness:
  "\<exists>s'. bootsect (floppy_bios ex_disk) (sector_start ex_disk) = Some s' \<and> r_base (l_gdtr s') = 0x901b3"
  using loader_descriptor_table [OF floppy_bios_reads ex_disk_ok(2) _ _ sector_start_a20] ex_disk_ok(1)
  by (auto simp: zeos_sector_def ex_disk_def)

end
