(* ===== verification/Builder.thy ===== *)
theory Builder
  imports Utils
begin

text \<open>
  build.c, the host program that puts boot sector, system and user program into one disk image.

  The host is a state: the files by name, the input that is open and the position in it, the
  image behind the standard output with its position, how many bytes the device can hold, and
  whether it can seek.  A read gives what is left of the file, a write what fits; \<^verbatim>\<open>die\<close> is an
  error value, so every check of the program is a branch.
\<close>

section \<open>The host\<close>

record host_file =
  contents :: "byte list"
  st_size :: nat
  stat_fails :: bool
  read_fails :: "nat \<Rightarrow> bool"

datatype remark = Boot_bytes dword | System_kB dword | User_kB dword | Image_kB int

record builder =
  files :: "string \<Rightarrow> host_file option"
  file_buf :: "nat \<Rightarrow> byte"
  input :: host_file
  input_pos :: nat
  image :: "byte list"
  image_pos :: nat
  room :: nat
  seekable :: bool
  remarks :: "remark list"

datatype build_error =
  Usage | Unable_to_open string | Unable_to_stat string | Unable_to_read_header string
| Non_Minix string | Illegal_data_segment string | Illegal_bss_segment string
| Illegal_symbol_table string | Boot_not_512 | No_boot_flag | Write_call_failed
| Error_reading string | Unexpected_EOF string | Write_failed | Seek_failed
| Image_length_failed | System_length_failed | User_length_failed

type_synonym 'a built = "build_error + 'a"

text \<open>What follows a step is left out after \<^verbatim>\<open>die\<close>.\<close>

definition and_then :: "'a built \<Rightarrow> ('a \<Rightarrow> 'b built) \<Rightarrow> 'b built" where
  "and_then r f = (case r of Inl e \<Rightarrow> Inl e | Inr x \<Rightarrow> f x)"

definition check :: "bool \<Rightarrow> build_error \<Rightarrow> 'a \<Rightarrow> 'a built" where
  "check ok e x = (if ok then Inr x else Inl e)"

definition open_input :: "string \<Rightarrow> builder \<Rightarrow> builder built" where
  "open_input name s =
     (case files s name of None \<Rightarrow> Inl (Unable_to_open name)
      | Some f \<Rightarrow> Inr (s\<lparr>input := f, input_pos := 0\<rparr>))"

definition fill_buf :: "byte list \<Rightarrow> (nat \<Rightarrow> byte) \<Rightarrow> nat \<Rightarrow> byte" where
  "fill_buf bs b = (\<lambda>i. if i < length bs then bs ! i else b i)"

definition read_input :: "nat \<Rightarrow> builder \<Rightarrow> int \<times> builder" where
  "read_input n s =
     (if read_fails (input s) (input_pos s) then (-1, s)
      else let bs = take n (drop (input_pos s) (contents (input s)))
           in (int (length bs), s\<lparr>file_buf := fill_buf bs (file_buf s), input_pos := input_pos s + length bs\<rparr>))"

definition write_image :: "nat \<Rightarrow> builder \<Rightarrow> int \<times> builder" where
  "write_image n s =
     (let p = image_pos s; m = min n (room s - p); bs = map (file_buf s) [0..<m]
      in (int m, s\<lparr>image := take p (image s) @ bs @ drop (p + m) (image s), image_pos := p + m\<rparr>))"

definition seek_image :: "nat \<Rightarrow> builder \<Rightarrow> int \<times> builder" where
  "seek_image p s = (if seekable s then (int p, s\<lparr>image_pos := p\<rparr>) else (-1, s))"

definition write_or :: "nat \<Rightarrow> build_error \<Rightarrow> builder \<Rightarrow> builder built" where
  "write_or n e s = (let (m, s) = write_image n s in check (m = int n) e s)"

definition seek_or :: "nat \<Rightarrow> build_error \<Rightarrow> builder \<Rightarrow> builder built" where
  "seek_or p e s = (let (q, s) = seek_image p s in check (q = int p) e s)"

section \<open>The program\<close>

definition minix_hdr :: "byte list" where
  "minix_hdr = [0x01, 0x03, 0x10, 0x04, 0x20, 0x00, 0x00, 0x00]"

definition lb :: "builder \<Rightarrow> nat \<Rightarrow> dword" where
  "lb s i = dword_of_bytes (file_buf s (4 * i)) (file_buf s (4 * i + 1)) (file_buf s (4 * i + 2)) (file_buf s (4 * i + 3))"

definition minix_open :: "string \<Rightarrow> builder \<Rightarrow> builder built" where
  "minix_open name s =
     and_then (open_input name s) (\<lambda>s.
     let (n, s) = read_input 32 s in
     if n \<noteq> 32 then Inl (Unable_to_read_header name)
     else if map (file_buf s) [0..<8] \<noteq> minix_hdr \<or> lb s 5 \<noteq> 0 then Inl (Non_Minix name)
     else if lb s 3 \<noteq> 0 then Inl (Illegal_data_segment name)
     else if lb s 4 \<noteq> 0 then Inl (Illegal_bss_segment name)
     else if lb s 7 \<noteq> 0 then Inl (Illegal_symbol_table name)
     else Inr s)"

definition copy_boot :: "byte \<Rightarrow> byte \<Rightarrow> builder \<Rightarrow> builder built" where
  "copy_boot major_root minor_root s =
     (let (i, s) = read_input 1024 s;
          s = s\<lparr>remarks := remarks s @ [Boot_bytes (of_int i)]\<rparr>
      in if (of_int i :: dword) \<noteq> 512 then Inl Boot_not_512
         else if file_buf s 510 \<noteq> 0x55 \<or> file_buf s 511 \<noteq> 0xaa then Inl No_boot_flag
         else let s = s\<lparr>file_buf := (file_buf s)(508 := minor_root)\<rparr>;
                  s = s\<lparr>file_buf := (file_buf s)(509 := major_root)\<rparr>
              in write_or 512 Write_call_failed s)"

text \<open>\<open>sz\<close> is what is left to copy; a block is at most 1024 bytes.\<close>

function copy_rest :: "string \<Rightarrow> dword \<Rightarrow> builder \<Rightarrow> builder built" where
  "copy_rest name sz s =
     (if sz = 0 then Inr s
      else let l = (if sz > 1024 then 1024 else unat sz);
               (n, s) = read_input l s
           in if n \<noteq> int l then Inl (if n < 0 then Error_reading name else Unexpected_EOF name)
              else case write_or l Write_failed s of
                Inl e \<Rightarrow> Inl e
              | Inr s \<Rightarrow> copy_rest name (sz - of_nat l) s)"
  by pat_completeness auto
termination
proof (relation "measure (\<lambda>(name, sz, s). unat sz)", goal_cases)
  case (2 name sz s l)
  then have "0 < unat sz"
    by (simp add: unat_gt_0)
  moreover have l: "0 < l" "l \<le> unat sz"
    using 2(1,2) \<open>0 < unat sz\<close> by (auto simp: word_less_nat_alt)
  moreover have "unat (of_nat l :: dword) = l"
    using l(2) unat_bound32 [of sz] by (simp add: unat_of_nat)
  ultimately have "unat (sz - of_nat l) = unat sz - l"
    by (subst unat_sub) (simp_all add: word_le_nat_alt)
  with l \<open>0 < unat sz\<close> show ?case
    by simp
qed simp

declare copy_rest.simps [simp del]

definition copy_system :: "string \<Rightarrow> builder \<Rightarrow> (dword \<times> builder) built" where
  "copy_system name s =
     and_then (open_input name s) (\<lambda>s.
     if stat_fails (input s) then Inl (Unable_to_stat name)
     else let sys_size = of_nat (st_size (input s));
              s = s\<lparr>remarks := remarks s @ [System_kB (sys_size div 1024)]\<rparr>
          in and_then (copy_rest name sys_size s) (\<lambda>s. Inr (sys_size, s)))"

definition copy_user :: "string \<Rightarrow> builder \<Rightarrow> (dword \<times> builder) built" where
  "copy_user name s =
     and_then (open_input name s) (\<lambda>s.
     if stat_fails (input s) then Inl (Unable_to_stat name)
     else let usr_size = of_nat (st_size (input s));
              s = s\<lparr>remarks := remarks s @ [User_kB (usr_size div 1024)]\<rparr>
          in and_then (copy_rest name usr_size s) (\<lambda>s. Inr (usr_size, s)))"

text \<open>\<open>put_bytes\<close> stores into the first bytes of the buffer, one assignment after the other.\<close>

definition put_bytes :: "byte list \<Rightarrow> builder \<Rightarrow> builder" where
  "put_bytes bs s = s\<lparr>file_buf := fill_buf bs (file_buf s)\<rparr>"

definition put_image_size :: "dword \<Rightarrow> dword \<Rightarrow> builder \<Rightarrow> builder built" where
  "put_image_size sys_size usr_size s =
     and_then (seek_or 500 Seek_failed s) (\<lambda>s.
     let im_size = (sys_size + usr_size + 15) div 16;
         s = s\<lparr>remarks := remarks s @ [Image_kB (sgn (sint (sys_size + usr_size)) * (\<bar>sint (sys_size + usr_size)\<bar> div 1024))]\<rparr>;
         s = put_bytes [ucast (im_size AND 0xff), ucast (drop_bit 8 im_size AND 0xff)] s
     in write_or 2 Image_length_failed s)"

definition put_system_size :: "dword \<Rightarrow> builder \<Rightarrow> builder built" where
  "put_system_size sys_size s =
     and_then (seek_or 512 Seek_failed s) (\<lambda>s.
     let s = put_bytes [ucast (sys_size AND 0xff), ucast (drop_bit 8 sys_size AND 0xff),
               ucast (drop_bit 16 sys_size AND 0xff), 0] s
     in write_or 4 System_length_failed s)"

definition put_user_size :: "dword \<Rightarrow> builder \<Rightarrow> builder built" where
  "put_user_size usr_size s =
     and_then (seek_or 516 Seek_failed s) (\<lambda>s.
     let s = put_bytes [ucast (usr_size AND 0xff), ucast (drop_bit 8 usr_size AND 0xff),
               ucast (drop_bit 16 usr_size AND 0xff), 0] s
     in write_or 4 User_length_failed s)"

definition put_load_word :: "builder \<Rightarrow> builder built" where
  "put_load_word s =
     and_then (seek_or 520 Seek_failed s) (\<lambda>s.
     let s = put_bytes [ucast ((0x7E1A :: dword) AND 0xff), ucast (drop_bit 8 (0x7E1A :: dword) AND 0xff),
               ucast (drop_bit 16 (0x7E1A :: dword) AND 0xff), 0] s
     in write_or 4 User_length_failed s)"

definition build_main :: "string list \<Rightarrow> builder \<Rightarrow> builder built" where
  "build_main argv s =
     (if length argv \<noteq> 4 then Inl Usage
      else let major_root = 0; minor_root = 0 in
        and_then (minix_open (argv ! 1) s) (\<lambda>s.
        and_then (copy_boot major_root minor_root s) (\<lambda>s.
        and_then (copy_system (argv ! 2) s) (\<lambda>(sys_size, s).
        and_then (copy_user (argv ! 3) s) (\<lambda>(usr_size, s).
        and_then (put_image_size sys_size usr_size s) (\<lambda>s.
        and_then (put_system_size sys_size s) (\<lambda>s.
        and_then (put_user_size usr_size s) (\<lambda>s.
        put_load_word s))))))))"

end
