(* ===== verification/BuilderSpec.thy ===== *)
theory BuilderSpec
  imports Builder
begin

text \<open>
  What build.c writes: the layout of the disk image, and the range of the sizes it records.
\<close>

section \<open>Steps that succeed\<close>

lemma and_then_Inr [simp]: "and_then (Inr x) f = f x" "and_then (Inl e) f = Inl e"
  by (simp_all add: and_then_def)

lemma and_then_ok: "and_then r f = Inr y \<longleftrightarrow> (\<exists>x. r = Inr x \<and> f x = Inr y)"
  by (simp add: and_then_def split: sum.splits)

lemma fill_buf_list: "length bs = n \<Longrightarrow> map (fill_buf bs b) [0..<n] = bs"
  by (rule nth_equalityI) (simp_all add: fill_buf_def)

lemma fill_buf_take: "n \<le> length bs \<Longrightarrow> map (fill_buf bs b) [0..<n] = take n bs"
  by (rule nth_equalityI) (simp_all add: fill_buf_def)

definition patch :: "nat \<Rightarrow> byte list \<Rightarrow> byte list \<Rightarrow> byte list" where
  "patch p bs xs = take p xs @ bs @ drop (p + length bs) xs"

lemma patch_append: "length as = p \<Longrightarrow> length bs = length cs \<Longrightarrow> patch p cs (as @ bs @ ds) = as @ cs @ ds"
  by (simp add: patch_def)

lemma write_or_ok:
  assumes "image_pos s + n \<le> room s"
  shows "write_or n e s = Inr (s\<lparr>image := patch (image_pos s) (map (file_buf s) [0..<n]) (image s),
    image_pos := image_pos s + n\<rparr>)"
  using assms by (simp add: write_or_def write_image_def check_def Let_def patch_def)

lemma seek_or_ok: "seekable s \<Longrightarrow> seek_or p e s = Inr (s\<lparr>image_pos := p\<rparr>)"
  by (simp add: seek_or_def seek_image_def check_def)

lemma read_input_ok:
  assumes "\<not> read_fails (input s) (input_pos s)" and "input_pos s + n \<le> length (contents (input s))"
  shows "read_input n s = (int n, s\<lparr>file_buf := fill_buf (take n (drop (input_pos s) (contents (input s)))) (file_buf s),
    input_pos := input_pos s + n\<rparr>)"
  using assms by (simp add: read_input_def Let_def)

section \<open>Copying a file\<close>

lemma copy_rest_ok:
  assumes "\<And>n. \<not> read_fails (input s) n" and "image_pos s = length (image s)"
    and "input_pos s + unat sz \<le> length (contents (input s))" and "length (image s) + unat sz \<le> room s"
  shows "\<exists>b. copy_rest name sz s = Inr (s\<lparr>file_buf := b, input_pos := input_pos s + unat sz,
    image := image s @ take (unat sz) (drop (input_pos s) (contents (input s))),
    image_pos := image_pos s + unat sz\<rparr>)"
  using assms
proof (induction name sz s rule: copy_rest.induct)
  case (1 name sz s)
  show ?case
  proof (cases "sz = 0")
    case True
    then show ?thesis
      by (intro exI [of _ "file_buf s"]) (simp add: copy_rest.simps)
  next
    case False
    define l where "l = (if sz > 1024 then 1024 else unat sz)"
    have l: "0 < l" "l \<le> unat sz"
      using False by (auto simp: l_def word_less_nat_alt unat_gt_0)
    have ul: "unat (of_nat l :: dword) = l"
      using l(2) unat_bound32 [of sz] by (simp add: unat_of_nat)
    have us: "unat (sz - of_nat l) = unat sz - l"
      using l(2) ul by (subst unat_sub) (simp_all add: word_le_nat_alt)
    let ?bs = "take l (drop (input_pos s) (contents (input s)))"
    let ?s1 = "s\<lparr>file_buf := fill_buf ?bs (file_buf s), input_pos := input_pos s + l\<rparr>"
    let ?s2 = "?s1\<lparr>image := image s @ ?bs, image_pos := image_pos s + l\<rparr>"
    have lb: "length ?bs = l"
      using "1.prems"(3) l by simp
    have r: "read_input l s = (int l, ?s1)"
      using "1.prems"(1,3) l by (intro read_input_ok) auto
    have w: "write_or l Write_failed ?s1 = Inr ?s2"
      using "1.prems"(2,4) l lb by (simp add: write_or_ok fill_buf_list patch_def)
    have step: "copy_rest name sz s = copy_rest name (sz - of_nat l) ?s2"
      using False r w by (subst copy_rest.simps) (simp add: Let_def l_def [symmetric])
    have "\<exists>b. copy_rest name (sz - of_nat l) ?s2 = Inr (?s2\<lparr>file_buf := b, input_pos := input_pos ?s2 + unat (sz - of_nat l),
        image := image ?s2 @ take (unat (sz - of_nat l)) (drop (input_pos ?s2) (contents (input ?s2))),
        image_pos := image_pos ?s2 + unat (sz - of_nat l)\<rparr>)"
      using "1.prems" l lb by (intro "1.IH" [OF False l_def r [symmetric] _ _ w]) (auto simp: us)
    moreover have "image s @ ?bs @ take (unat sz - l) (drop (input_pos s + l) (contents (input s)))
        = image s @ take (unat sz) (drop (input_pos s) (contents (input s)))"
      using l(2) take_add [of l "unat sz - l" "drop (input_pos s) (contents (input s))"]
      by (simp add: add.commute)
    ultimately show ?thesis
      unfolding step using l(2) by (auto simp: us)
  qed
qed

section \<open>The image\<close>

text \<open>\<open>holds_file\<close>: the host has a file with these bytes that can be read; \<open>minix_header\<close>: 32 bytes
  that pass the checks of \<^verbatim>\<open>minix_open\<close>.\<close>

definition holds_file :: "builder \<Rightarrow> string \<Rightarrow> byte list \<Rightarrow> bool" where
  "holds_file s name bs \<longleftrightarrow> (\<exists>f. files s name = Some f \<and> contents f = bs \<and> st_size f = length bs \<and>
     \<not> stat_fails f \<and> (\<forall>n. \<not> read_fails f n))"

definition dword_in :: "byte list \<Rightarrow> nat \<Rightarrow> dword" where
  "dword_in bs p = dword_of_bytes (bs ! p) (bs ! (p + 1)) (bs ! (p + 2)) (bs ! (p + 3))"

definition minix_header :: "byte list \<Rightarrow> bool" where
  "minix_header h \<longleftrightarrow> length h = 32 \<and> take 8 h = minix_hdr \<and>
     dword_in h 12 = 0 \<and> dword_in h 16 = 0 \<and> dword_in h 20 = 0 \<and> dword_in h 28 = 0"

lemma lb_fill:
  assumes "file_buf s = fill_buf h b" and "length h = 32" and "i < 8"
  shows "lb s i = dword_in h (4 * i)"
  using assms by (simp add: lb_def dword_in_def fill_buf_def)

lemma minix_open_ok:
  assumes "holds_file s name (h @ boot)" and "minix_header h"
  shows "\<exists>f b. files s name = Some f \<and> contents f = h @ boot \<and> (\<forall>n. \<not> read_fails f n) \<and>
    minix_open name s = Inr (s\<lparr>input := f, input_pos := 32, file_buf := b\<rparr>)"
proof -
  obtain f where f: "files s name = Some f" "contents f = h @ boot" "\<forall>n. \<not> read_fails f n"
    using assms(1) by (auto simp: holds_file_def)
  have h: "length h = 32" "take 8 h = minix_hdr"
    using assms(2) by (simp_all add: minix_header_def)
  let ?s = "s\<lparr>input := f, input_pos := 32, file_buf := fill_buf h (file_buf s)\<rparr>"
  have r: "read_input 32 (s\<lparr>input := f, input_pos := 0\<rparr>) = (32, ?s)"
    using f h by (subst read_input_ok) simp_all
  have "map (file_buf ?s) [0..<8] = take 8 h"
    using h fill_buf_take [of 8 h] by (simp del: upt_rec_numeral)
  moreover have "lb ?s 3 = 0" "lb ?s 4 = 0" "lb ?s 5 = 0" "lb ?s 7 = 0"
    using assms(2) lb_fill [of ?s h "file_buf s"] by (simp_all add: minix_header_def)
  ultimately have "minix_open name s = Inr ?s"
    using r h by (simp add: minix_open_def open_input_def f(1))
  with f show ?thesis
    by blast
qed

lemma copy_boot_ok:
  assumes "contents (input s) = h @ boot" and "length h = 32" and "input_pos s = 32" and "length boot = 512"
    and "boot ! 510 = 0x55" and "boot ! 511 = 0xAA" and "\<forall>n. \<not> read_fails (input s) n"
    and "image s = []" and "image_pos s = 0" and "512 \<le> room s"
  shows "\<exists>b ns p. copy_boot 0 0 s = Inr (s\<lparr>file_buf := b, input_pos := p, remarks := ns,
    image := take 508 boot @ [0, 0, 0x55, 0xAA], image_pos := 512\<rparr>)"
proof -
  have r: "read_input 1024 s = (512, s\<lparr>file_buf := fill_buf boot (file_buf s), input_pos := 544\<rparr>)"
    using assms by (simp add: read_input_def)
  have "map ((fill_buf boot b)(508 := 0, 509 := 0)) [0..<512] = take 508 boot @ [0, 0, 0x55, 0xAA]" for b
  proof (rule nth_equalityI)
    fix i
    assume "i < length (map ((fill_buf boot b)(508 := 0, 509 := 0)) [0..<512])"
    then have "i < 508 \<or> i = 508 \<or> i = 509 \<or> i = 510 \<or> i = 511"
      by auto
    then show "map ((fill_buf boot b)(508 := 0, 509 := 0)) [0..<512] ! i = (take 508 boot @ [0, 0, 0x55, 0xAA]) ! i"
      using assms(4-6) by (elim disjE) (simp_all add: fill_buf_def nth_append del: upt_rec_numeral)
  qed (use assms(4) in \<open>simp del: upt_rec_numeral\<close>)
  then show ?thesis
    using assms(4-6,8-10) unfolding copy_boot_def r Let_def
    by (intro exI [of _ "(fill_buf boot (file_buf s))(508 := 0, 509 := 0)"] exI [of _ "remarks s @ [Boot_bytes 512]"]
          exI [of _ 544])
       (simp add: write_or_ok fill_buf_def [of boot] patch_def del: upt_rec_numeral)
qed

lemma copy_system_ok:
  assumes "holds_file s name bs" and "length bs < 2 ^ 32" and "image_pos s = length (image s)"
    and "length (image s) + length bs \<le> room s"
  shows "\<exists>f b p ns. copy_system name s = Inr (of_nat (length bs), s\<lparr>input := f, remarks := ns, file_buf := b,
    input_pos := p, image := image s @ bs, image_pos := image_pos s + length bs\<rparr>)"
    and "\<exists>f b p ns. copy_user name s = Inr (of_nat (length bs), s\<lparr>input := f, remarks := ns, file_buf := b,
    input_pos := p, image := image s @ bs, image_pos := image_pos s + length bs\<rparr>)"
proof -
  obtain f where f: "files s name = Some f" "contents f = bs" "st_size f = length bs" "\<not> stat_fails f"
      "\<And>n. \<not> read_fails f n"
    using assms(1) by (auto simp: holds_file_def)
  have u: "unat (of_nat (length bs) :: dword) = length bs"
    using assms(2) by (simp add: unat_of_nat)
  have *: "\<exists>b. copy_rest name (of_nat (length bs)) (s\<lparr>input := f, input_pos := 0, remarks := ns\<rparr>) =
      Inr (s\<lparr>input := f, remarks := ns, file_buf := b, input_pos := length bs, image := image s @ bs,
        image_pos := image_pos s + length bs\<rparr>)" for ns
    using copy_rest_ok [of "s\<lparr>input := f, input_pos := 0, remarks := ns\<rparr>" "of_nat (length bs)" name] f assms(3,4)
    by (simp add: u)
  show "\<exists>f b p ns. copy_system name s = Inr (of_nat (length bs), s\<lparr>input := f, remarks := ns, file_buf := b,
      input_pos := p, image := image s @ bs, image_pos := image_pos s + length bs\<rparr>)"
  proof -
    obtain b where "copy_rest name (of_nat (length bs)) (s\<lparr>input := f, input_pos := 0,
        remarks := remarks s @ [System_kB (of_nat (length bs) div 1024)]\<rparr>) =
      Inr (s\<lparr>input := f, remarks := remarks s @ [System_kB (of_nat (length bs) div 1024)], file_buf := b,
        input_pos := length bs, image := image s @ bs, image_pos := image_pos s + length bs\<rparr>)"
      using * [of "remarks s @ [System_kB (of_nat (length bs) div 1024)]"] by blast
    then have "copy_system name s = Inr (of_nat (length bs), s\<lparr>input := f,
        remarks := remarks s @ [System_kB (of_nat (length bs) div 1024)], file_buf := b,
        input_pos := length bs, image := image s @ bs, image_pos := image_pos s + length bs\<rparr>)"
      using f by (simp add: copy_system_def open_input_def Let_def)
    then show ?thesis
      by blast
  qed
  show "\<exists>f b p ns. copy_user name s = Inr (of_nat (length bs), s\<lparr>input := f, remarks := ns, file_buf := b,
      input_pos := p, image := image s @ bs, image_pos := image_pos s + length bs\<rparr>)"
  proof -
    obtain b where "copy_rest name (of_nat (length bs)) (s\<lparr>input := f, input_pos := 0,
        remarks := remarks s @ [User_kB (of_nat (length bs) div 1024)]\<rparr>) =
      Inr (s\<lparr>input := f, remarks := remarks s @ [User_kB (of_nat (length bs) div 1024)], file_buf := b,
        input_pos := length bs, image := image s @ bs, image_pos := image_pos s + length bs\<rparr>)"
      using * [of "remarks s @ [User_kB (of_nat (length bs) div 1024)]"] by blast
    then have "copy_user name s = Inr (of_nat (length bs), s\<lparr>input := f,
        remarks := remarks s @ [User_kB (of_nat (length bs) div 1024)], file_buf := b,
        input_pos := length bs, image := image s @ bs, image_pos := image_pos s + length bs\<rparr>)"
      using f by (simp add: copy_user_def open_input_def Let_def)
    then show ?thesis
      by blast
  qed
qed

text \<open>The bytes the program extracts with shifts and masks.\<close>

lemma mask_byte: "ucast (v AND 0xff :: dword) = byte_of 0 v"
proof -
  have "ucast (v AND mask 8) = byte_of 0 v"
    by (intro bit_word_eqI) (simp add: byte_of_def bit_simps)
  then show ?thesis
    by (simp add: mask_eq_exp_minus_1)
qed

lemma byte_of_drop: "byte_of 0 (drop_bit 8 v) = byte_of 1 v" "byte_of 0 (drop_bit 16 v) = byte_of 2 v"
  by (simp_all add: byte_of_def)

definition size_field :: "dword \<Rightarrow> byte list" where
  "size_field v = [byte_of 0 v, byte_of 1 v, byte_of 2 v, 0]"

lemma load_word_bytes: "byte_of 0 0x7E1A = 0x1A" "byte_of 1 0x7E1A = 0x7E" "byte_of 2 0x7E1A = 0"
  by (simp_all add: byte_of_def drop_bit_eq_div)

lemma put_sizes_ok:
  assumes "seekable s" and "524 \<le> room s"
  shows "\<exists>b ns. put_image_size x y s = Inr (s\<lparr>remarks := ns, file_buf := b,
      image := patch 500 [byte_of 0 ((x + y + 15) div 16), byte_of 1 ((x + y + 15) div 16)] (image s), image_pos := 502\<rparr>)"
    and "\<exists>b. put_system_size x s = Inr (s\<lparr>file_buf := b, image := patch 512 (size_field x) (image s), image_pos := 516\<rparr>)"
    and "\<exists>b. put_user_size x s = Inr (s\<lparr>file_buf := b, image := patch 516 (size_field x) (image s), image_pos := 520\<rparr>)"
    and "\<exists>b. put_load_word s = Inr (s\<lparr>file_buf := b, image := patch 520 [0x1A, 0x7E, 0, 0] (image s), image_pos := 524\<rparr>)"
  unfolding put_image_size_def put_system_size_def put_user_size_def put_load_word_def seek_or_ok [OF assms(1)] and_then_Inr
    put_bytes_def size_field_def mask_byte byte_of_drop load_word_bytes Let_def using assms
  by (simp_all add: write_or_ok fill_buf_list del: upt_rec_numeral) blast+

lemma patch_image:
  assumes "length boot = 508" and "length flag = 4" and "12 \<le> length sys"
    and "length i = 2" and "length a = 4" and "length b = 4" and "length c = 4"
  shows "patch 520 c (patch 516 b (patch 512 a (patch 500 i ((boot @ flag) @ sys @ usr)))) =
    take 500 boot @ i @ drop 502 boot @ flag @ a @ b @ c @ drop 12 sys @ usr"
  using assms by (simp add: patch_def)

lemma build_image:
  assumes "length argv = 4" and "holds_file s (argv ! 1) (h @ boot)" and "minix_header h"
    and "length boot = 512" and "boot ! 510 = 0x55" and "boot ! 511 = 0xAA"
    and "holds_file s (argv ! 2) sys" and "12 \<le> length sys" and "holds_file s (argv ! 3) usr"
    and "length sys < 2 ^ 32" and "length usr < 2 ^ 32" and "image s = []" and "image_pos s = 0" and "seekable s"
    and "512 + length sys + length usr \<le> room s"
  shows "let n = of_nat (length sys); u = of_nat (length usr); im = (n + u + 15) div 16 in
    \<exists>s'. build_main argv s = Inr s' \<and>
      image s' = take 500 boot @ [byte_of 0 im, byte_of 1 im] @ take 6 (drop 502 boot) @ [0, 0, 0x55, 0xAA] @
        [byte_of 0 n, byte_of 1 n, byte_of 2 n, 0] @ [byte_of 0 u, byte_of 1 u, byte_of 2 u, 0] @
        [0x1A, 0x7E, 0, 0] @ drop 12 sys @ usr"
proof -
  define n u where "n = (of_nat (length sys) :: dword)" and "u = (of_nat (length usr) :: dword)"
  let ?img = "(take 508 boot @ [0, 0, 0x55, 0xAA]) @ sys @ usr" and ?im = "(n + u + 15) div 16"
  obtain f b where o: "contents f = h @ boot" "\<forall>n. \<not> read_fails f n"
      "minix_open (argv ! 1) s = Inr (s\<lparr>input := f, input_pos := 32, file_buf := b\<rparr>)" (is "_ = Inr ?s1")
    using minix_open_ok [OF assms(2,3)] by blast
  have h: "length h = 32"
    using assms(3) by (simp add: minix_header_def)
  obtain b2 ns p where c: "copy_boot 0 0 ?s1 = Inr (?s1\<lparr>file_buf := b2, input_pos := p, remarks := ns,
      image := take 508 boot @ [0, 0, 0x55, 0xAA], image_pos := 512\<rparr>)" (is "_ = Inr ?s2")
    using copy_boot_ok [of ?s1 h boot] o h assms(4-6,12,13,15) by auto
  have "holds_file ?s2 (argv ! 2) sys"
    using assms(7) by (simp add: holds_file_def)
  then obtain f3 b3 p3 ns3 where s: "copy_system (argv ! 2) ?s2 = Inr (n, ?s2\<lparr>input := f3, remarks := ns3,
      file_buf := b3, input_pos := p3, image := image ?s2 @ sys, image_pos := image_pos ?s2 + length sys\<rparr>)"
      (is "_ = Inr (n, ?s3)")
    unfolding n_def using copy_system_ok(1) [of ?s2 "argv ! 2" sys] assms(4,10,15) by auto
  have "holds_file ?s3 (argv ! 3) usr"
    using assms(9) by (simp add: holds_file_def)
  then obtain f4 b4 p4 ns4 where t: "copy_user (argv ! 3) ?s3 = Inr (u, ?s3\<lparr>input := f4, remarks := ns4,
      file_buf := b4, input_pos := p4, image := image ?s3 @ usr, image_pos := image_pos ?s3 + length usr\<rparr>)"
      (is "_ = Inr (u, ?s4)")
    unfolding u_def using copy_system_ok(2) [of ?s3 "argv ! 3" usr] assms(4,11,15) by auto
  have s4: "seekable ?s4" "524 \<le> room ?s4" "image ?s4 = ?img"
    using assms(8,14,15) by simp_all
  obtain b5 ns5 where p5: "put_image_size n u ?s4 = Inr (?s4\<lparr>remarks := ns5, file_buf := b5,
      image := patch 500 [byte_of 0 ?im, byte_of 1 ?im] ?img, image_pos := 502\<rparr>)" (is "_ = Inr ?s5")
    using put_sizes_ok(1) [OF s4(1,2), of n u] unfolding s4(3) by blast
  obtain b6 where p6: "put_system_size n ?s5 = Inr (?s5\<lparr>file_buf := b6,
      image := patch 512 (size_field n) (image ?s5), image_pos := 516\<rparr>)" (is "_ = Inr ?s6")
    using put_sizes_ok(2) [of ?s5 n] s4(1,2) by fastforce
  obtain b7 where p7: "put_user_size u ?s6 = Inr (?s6\<lparr>file_buf := b7,
      image := patch 516 (size_field u) (image ?s6), image_pos := 520\<rparr>)" (is "_ = Inr ?s7")
    using put_sizes_ok(3) [of ?s6 u] s4(1,2) by fastforce
  obtain b8 where p8: "put_load_word ?s7 = Inr (?s7\<lparr>file_buf := b8,
      image := patch 520 [0x1A, 0x7E, 0, 0] (image ?s7), image_pos := 524\<rparr>)" (is "_ = Inr ?s8")
    using put_sizes_ok(4) [of ?s7] s4(1,2) by fastforce
  have "build_main argv s = Inr ?s8"
    unfolding build_main_def using assms(1) o(3) c s t p5 p6 p7 p8 by (simp add: Let_def)
  moreover have "image ?s8 = take 500 (take 508 boot) @ [byte_of 0 ?im, byte_of 1 ?im] @ drop 502 (take 508 boot) @
      [0, 0, 0x55, 0xAA] @ size_field n @ size_field u @ [0x1A, 0x7E, 0, 0] @ drop 12 sys @ usr"
    using patch_image [of "take 508 boot" "[0, 0, 0x55, 0xAA]" sys "[byte_of 0 ?im, byte_of 1 ?im]" "size_field n"
        "size_field u" "[0x1A, 0x7E, 0, 0]" usr] assms(4,8) by (simp add: size_field_def)
  ultimately show ?thesis
    unfolding Let_def n_def [symmetric] u_def [symmetric] by (simp add: size_field_def drop_take)
qed

text \<open>
  C37: given a boot sector behind a Minix header with the flag 0xAA55, a readable system of at least
  twelve bytes, a user program and an output that is long enough and seekable, build writes
  the boot sector with the image length in paragraphs at 500 and the root device 0 at 508, the
  sizes of system and user and the word 0x7E1A over the first twelve bytes of the system, then
  the rest of the system and the user program.  Nothing is padded, although the comment at the
  head of build.c says so: the image has the length of its parts.
\<close>

theorem image_layout:
  assumes "length argv = 4" and "holds_file s (argv ! 1) (h @ boot)" and "minix_header h"
    and "length boot = 512" and "boot ! 510 = 0x55" and "boot ! 511 = 0xAA"
    and "holds_file s (argv ! 2) sys" and "12 \<le> length sys" and "holds_file s (argv ! 3) usr"
    and "length sys < 2 ^ 32" and "length usr < 2 ^ 32" and "image s = []" and "image_pos s = 0" and "seekable s"
    and "512 + length sys + length usr \<le> room s"
  shows "let n = of_nat (length sys); u = of_nat (length usr); im = (n + u + 15) div 16 in
    \<exists>s'. build_main argv s = Inr s' \<and>
      image s' = take 500 boot @ [byte_of 0 im, byte_of 1 im] @ take 6 (drop 502 boot) @ [0, 0, 0x55, 0xAA] @
        [byte_of 0 n, byte_of 1 n, byte_of 2 n, 0] @ [byte_of 0 u, byte_of 1 u, byte_of 2 u, 0] @
        [0x1A, 0x7E, 0, 0] @ drop 12 sys @ usr"
  using assms by (rule build_image)

definition ex_file :: "byte list \<Rightarrow> host_file" where
  "ex_file bs = \<lparr>contents = bs, st_size = length bs, stat_fails = False, read_fails = \<lambda>_. False\<rparr>"

definition ex_header :: "byte list" where
  "ex_header = minix_hdr @ replicate 24 0"

definition ex_boot :: "byte list" where
  "ex_boot = replicate 510 0x90 @ [0x55, 0xAA]"

definition ex_host :: builder where
  "ex_host = \<lparr>files = [''bootsect'' \<mapsto> ex_file (ex_header @ ex_boot), ''system'' \<mapsto> ex_file (replicate 2000 1),
       ''user'' \<mapsto> ex_file [7, 8, 9]],
     file_buf = \<lambda>_. 0, input = ex_file [], input_pos = 0, image = [], image_pos = 0, room = 4096, seekable = True,
     remarks = []\<rparr>"

lemma ex_host_files:
  "holds_file ex_host ''bootsect'' (ex_header @ ex_boot)" "holds_file ex_host ''system'' (replicate 2000 1)"
  "holds_file ex_host ''user'' [7, 8, 9]"
  by (simp_all add: holds_file_def ex_host_def ex_file_def)

lemma ex_header_ok: "minix_header ex_header"
  by (simp add: minix_header_def ex_header_def minix_hdr_def dword_in_def nth_append dword_of_bytes_def)

lemma ex_boot_ok: "length ex_boot = 512" "ex_boot ! 510 = 0x55" "ex_boot ! 511 = 0xAA"
  by (simp_all add: ex_boot_def nth_append)

lemma ex_argv: "[''build'', ''bootsect'', ''system'', ''user''] ! 1 = ''bootsect''"
  "[''build'', ''bootsect'', ''system'', ''user''] ! 2 = ''system''" "[''build'', ''bootsect'', ''system'', ''user''] ! 3 = ''user''"
  "length [''build'', ''bootsect'', ''system'', ''user''] = 4"
  by simp_all

lemma ex_host_start: "image ex_host = []" "image_pos ex_host = 0" "seekable ex_host" "room ex_host = 4096"
  by (simp_all add: ex_host_def)

theorem image_layout_witness:
  "\<exists>s'. build_main [''build'', ''bootsect'', ''system'', ''user''] ex_host = Inr s' \<and> drop 520 (image s')
     = [0x1A, 0x7E, 0, 0] @ replicate 1988 1 @ [7, 8, 9]"
proof -
  note L = image_layout [OF ex_argv(4), unfolded ex_argv(1-3), OF ex_host_files(1) ex_header_ok ex_boot_ok
      ex_host_files(2) _ ex_host_files(3) _ _ ex_host_start(1-3)]
  show ?thesis
    using L ex_host_start(4) ex_boot_ok(1) unfolding Let_def by auto
qed

section \<open>What the size fields can hold\<close>

lemma three_bytes:
  "dword_of_bytes (byte_of 0 v) (byte_of 1 v) (byte_of 2 v) 0 = take_bit 24 v"
  unfolding byte_of_def dword_of_bytes_def
proof (rule bit_word_eqI)
  fix n
  assume "n < LENGTH(32)"
  then have "n < 8 \<or> 8 \<le> n \<and> n < 16 \<or> 16 \<le> n \<and> n < 24 \<or> 24 \<le> n \<and> n < 32"
    by auto
  then show "bit (ucast (ucast (drop_bit (8 * 0) v) :: byte) OR push_bit 8 (ucast (ucast (drop_bit (8 * 1) v) :: byte)) OR
      push_bit 16 (ucast (ucast (drop_bit (8 * 2) v) :: byte)) OR push_bit 24 (ucast (0 :: byte)) :: dword) n
      = bit (take_bit 24 v) n"
    by (elim disjE) (auto simp: bit_simps)
qed

text \<open>
  The loader reads the size of the system from the dword at 512.  The field has three bytes of
  the size: it is right below 16 MiB, and a larger system is recorded modulo 16 MiB without
  a message.
\<close>

theorem system_size_field:
  assumes "seekable s" and "524 \<le> room s" and "524 \<le> length (image s)"
  shows "\<exists>s'. put_system_size (of_nat n) s = Inr s' \<and> unat (dword_in (image s') 512) = n mod 2 ^ 24"
proof -
  obtain b where b: "put_system_size (of_nat n) s = Inr (s\<lparr>file_buf := b,
      image := patch 512 (size_field (of_nat n)) (image s), image_pos := 516\<rparr>)"
    using put_sizes_ok(2) [OF assms(1,2)] by blast
  have "dword_in (patch 512 (size_field (of_nat n)) (image s)) 512 = take_bit 24 (of_nat n)"
    using assms(3) by (simp add: dword_in_def patch_def nth_append size_field_def three_bytes [simplified])
  moreover have "unat (take_bit 24 (of_nat n :: dword)) = n mod 2 ^ 24"
    by (simp only: unsigned_take_bit_eq) (simp add: unat_of_nat take_bit_eq_mod mod_mod_cancel)
  ultimately show ?thesis
    using b by simp
qed

theorem system_size_field_witness:
  "\<exists>s'. put_system_size 0x1000005 (ex_host\<lparr>image := replicate 600 0\<rparr>) = Inr s' \<and> unat (dword_in (image s') 512) = 5"
  using system_size_field [of "ex_host\<lparr>image := replicate 600 0\<rparr>" "0x1000005"] by (simp add: ex_host_def)

section \<open>What a success means\<close>

lemma write_or_frame: "write_or n e s = Inr s' \<Longrightarrow> files s' = files s \<and> input s' = input s \<and> input_pos s' = input_pos s"
  by (auto simp: write_or_def write_image_def check_def Let_def split: if_splits)

lemma read_input_frame:
  assumes "read_input n s = (m, s')"
  shows "files s' = files s" "input s' = input s" and "m = int n \<Longrightarrow> input_pos s' = input_pos s + n \<and> input_pos s' \<le> max (input_pos s) (length (contents (input s)))"
  using assms by (auto simp: read_input_def Let_def split: if_splits)

lemma copy_rest_success:
  "copy_rest name sz s = Inr s' \<Longrightarrow> input_pos s \<le> length (contents (input s)) \<Longrightarrow>
   files s' = files s \<and> input_pos s + unat sz \<le> length (contents (input s))"
proof (induction name sz s rule: copy_rest.induct)
  case (1 name sz s)
  show ?case
  proof (cases "sz = 0")
    case True
    then show ?thesis
      using "1.prems" by (simp add: copy_rest.simps)
  next
    case False
    define l where "l = (if sz > 1024 then 1024 else unat sz)"
    have l: "l \<le> unat sz"
      by (auto simp: l_def word_less_nat_alt)
    have ul: "unat (of_nat l :: dword) = l"
      using l unat_bound32 [of sz] by (simp add: unat_of_nat)
    have us: "unat (sz - of_nat l) = unat sz - l"
      using l ul by (subst unat_sub) (simp_all add: word_le_nat_alt)
    obtain n s1 where r: "read_input l s = (n, s1)"
      by (cases "read_input l s")
    obtain s2 where n: "n = int l" and w: "write_or l Write_failed s1 = Inr s2" and c: "copy_rest name (sz - of_nat l) s2 = Inr s'"
      using "1.prems"(1) False r by (subst (asm) copy_rest.simps) (auto simp: Let_def l_def [symmetric] split: if_splits sum.splits)
    note rf = read_input_frame [OF r] write_or_frame [OF w]
    have "input_pos s2 = input_pos s + l" "input_pos s2 \<le> length (contents (input s))" "input s2 = input s" "files s2 = files s"
      using rf n "1.prems"(2) by auto
    moreover from this have "files s' = files s2 \<and> input_pos s2 + unat (sz - of_nat l) \<le> length (contents (input s2))"
      using n by (intro "1.IH" [OF False l_def r [symmetric] _ _ w c]) simp_all
    ultimately show ?thesis
      using us l by simp
  qed
qed

lemma open_input_Inr: "open_input name s = Inr s' \<longleftrightarrow> (\<exists>f. files s name = Some f \<and> s' = s\<lparr>input := f, input_pos := 0\<rparr>)"
  by (auto simp: open_input_def split: option.splits)

text \<open>\<open>whole\<close>: the file exists and is not shorter than the size the program read, modulo 2 ^ 32.\<close>

definition whole :: "builder \<Rightarrow> string \<Rightarrow> bool" where
  "whole s name \<longleftrightarrow> (\<exists>f. files s name = Some f \<and> st_size f mod 2 ^ 32 \<le> length (contents f))"

lemma copy_files_success:
  shows "copy_system name s = Inr (n, s') \<Longrightarrow> files s' = files s \<and> whole s name"
    and "copy_user name s = Inr (n, s') \<Longrightarrow> files s' = files s \<and> whole s name"
  by (auto simp: copy_system_def copy_user_def and_then_ok open_input_Inr whole_def Let_def unat_of_nat
      dest!: copy_rest_success split: if_splits)

lemma minix_open_success:
  assumes "minix_open name s = Inr s'"
  shows "\<exists>f. files s name = Some f \<and> files s' = files s \<and> input s' = f \<and> input_pos s' = 32 \<and> 32 \<le> length (contents f) \<and>
    minix_header (take 32 (contents f))"
proof -
  obtain f where f: "files s name = Some f"
    and m: "(let (n, s) = read_input 32 (s\<lparr>input := f, input_pos := 0\<rparr>) in
     if n \<noteq> 32 then Inl (Unable_to_read_header name)
     else if map (file_buf s) [0..<8] \<noteq> minix_hdr \<or> lb s 5 \<noteq> 0 then Inl (Non_Minix name)
     else if lb s 3 \<noteq> 0 then Inl (Illegal_data_segment name)
     else if lb s 4 \<noteq> 0 then Inl (Illegal_bss_segment name)
     else if lb s 7 \<noteq> 0 then Inl (Illegal_symbol_table name)
     else Inr s) = Inr s'"
    using assms by (auto simp: minix_open_def and_then_ok open_input_Inr)
  from m have l: "32 \<le> length (contents f)" "\<not> read_fails f 0"
    by (auto simp: read_input_def Let_def split: if_splits)
  moreover have "map (fill_buf (take 32 (contents f)) (file_buf s)) [0..<8] = take 8 (contents f)"
    using l(1) fill_buf_take [of 8 "take 32 (contents f)"] by (simp del: upt_rec_numeral)
  moreover have "lb t i = dword_in (take 32 (contents f)) (4 * i)"
    if "file_buf t = fill_buf (take 32 (contents f)) (file_buf s)" "i < 8" for t i
    using l(1) that by (intro lb_fill) simp_all
  ultimately show ?thesis
    using m f by (auto simp: read_input_def Let_def minix_header_def simp del: upt_rec_numeral split: if_splits)
qed

lemma copy_boot_success:
  assumes "copy_boot x y s = Inr s'"
  shows "files s' = files s \<and> length (contents (input s)) - input_pos s = 512 \<and>
    contents (input s) ! (input_pos s + 510) = 0x55 \<and> contents (input s) ! (input_pos s + 511) = 0xAA"
proof -
  let ?bs = "take 1024 (drop (input_pos s) (contents (input s)))"
  have c: "(of_int (fst (read_input 1024 s)) :: dword) = 512"
    using assms by (auto simp: copy_boot_def Let_def case_prod_beta split: if_splits)
  have nf: "\<not> read_fails (input s) (input_pos s)"
    using c by (auto simp: read_input_def Let_def)
  then have "(of_nat (length ?bs) :: dword) = of_nat 512"
    using c by (simp add: read_input_def Let_def)
  then have l: "length ?bs = 512"
    by (intro of_nat_word32_inj) simp_all
  then have "fill_buf ?bs b i = contents (input s) ! (input_pos s + i)" if "i < 512" for b i
    using that l by (auto simp: fill_buf_def)
  then show ?thesis
    using assms nf l by (auto simp: copy_boot_def read_input_def Let_def dest: write_or_frame split: if_splits)
qed

text \<open>
  C38: build succeeds only on good inputs: the boot file starts with a Minix header of 32 bytes that
  has the magic, no data and no bss segment, a zero entry point and no symbol table; behind it are
  exactly 512 bytes, the last two being 0x55 and 0xAA; and neither system nor user file ended
  before the size the file system gave for it.
\<close>

theorem build_checks_inputs:
  assumes "build_main argv s = Inr s'"
  shows "length argv = 4 \<and>
    (\<exists>f. files s (argv ! 1) = Some f \<and> take 8 (contents f) = minix_hdr \<and>
       (\<forall>p \<in> {12, 16, 20, 28}. dword_in (contents f) p = 0) \<and> length (contents f) = 544 \<and>
       contents f ! 542 = 0x55 \<and> contents f ! 543 = 0xAA) \<and>
    whole s (argv ! 2) \<and> whole s (argv ! 3)"
proof -
  have l: "length argv = 4"
    using assms by (simp add: build_main_def split: if_splits)
  with assms obtain s1 s2 n s3 u s4 where st: "minix_open (argv ! 1) s = Inr s1" "copy_boot 0 0 s1 = Inr s2"
      "copy_system (argv ! 2) s2 = Inr (n, s3)" "copy_user (argv ! 3) s3 = Inr (u, s4)"
    by (auto simp: build_main_def and_then_ok Let_def)
  obtain f where f: "files s (argv ! 1) = Some f" "files s1 = files s" "input s1 = f" "input_pos s1 = 32"
      "32 \<le> length (contents f)" "minix_header (take 32 (contents f))"
    using minix_open_success [OF st(1)] by blast
  note b = copy_boot_success [OF st(2)]
  have "length (contents f) = 544"
    using b f(3-5) by auto
  moreover have "take 8 (contents f) = minix_hdr" "\<forall>p \<in> {12, 16, 20, 28}. dword_in (contents f) p = 0"
    using f(6) by (simp_all add: minix_header_def dword_in_def)
  moreover have "whole s (argv ! 2)" "whole s (argv ! 3)"
    using copy_files_success(1) [OF st(3)] copy_files_success(2) [OF st(4)] b f(2) by (simp_all add: whole_def)
  ultimately show ?thesis
    using l f b by simp
qed

theorem build_checks_inputs_witness:
  "\<exists>s' f. build_main [''build'', ''bootsect'', ''system'', ''user''] ex_host = Inr s' \<and> files ex_host ''bootsect'' = Some f \<and>
     take 8 (contents f) = minix_hdr \<and> dword_in (contents f) 28 = 0 \<and> length (contents f) = 544 \<and> whole ex_host ''system''"
proof -
  note L = build_image [OF ex_argv(4), unfolded ex_argv(1-3), OF ex_host_files(1) ex_header_ok ex_boot_ok
      ex_host_files(2) _ ex_host_files(3) _ _ ex_host_start(1-3)]
  then obtain s' where s': "build_main [''build'', ''bootsect'', ''system'', ''user''] ex_host = Inr s'"
    using ex_host_start(4) unfolding Let_def by auto
  from build_checks_inputs [OF this] show ?thesis
    using s' by (auto simp: ex_argv)
qed

end
