(* ===== verification/BootChain.thy ===== *)
theory BootChain
  imports LoaderSpec BootMain BuilderSpec
begin

text \<open>
  The whole chain: the image build writes, the boot loader that reads it, and \<^verbatim>\<open>main\<close>, which ends
  in the user program.
\<close>

section \<open>The image on the disk\<close>

text \<open>\<open>built_disk boot sys usr disk\<close>: the image of build at the start of the disk, piece by piece.\<close>

definition built_disk :: "byte list \<Rightarrow> byte list \<Rightarrow> byte list \<Rightarrow> (nat \<Rightarrow> byte) \<Rightarrow> bool" where
  "built_disk boot sys usr disk \<longleftrightarrow>
     (let n = of_nat (length sys); u = of_nat (length usr); im = (n + u + 15) div 16 :: dword
      in \<forall>i < 512 + length sys + length usr. disk i =
        (take 500 boot @ [byte_of 0 im, byte_of 1 im] @ take 6 (drop 502 boot) @ [0, 0, 0x55, 0xAA] @
         [byte_of 0 n, byte_of 1 n, byte_of 2 n, 0] @ [byte_of 0 u, byte_of 1 u, byte_of 2 u, 0] @
         [0x1A, 0x7E, 0, 0] @ drop 12 sys @ usr) ! i)"

lemma built_disk_parts:
  assumes d: "built_disk boot sys usr disk" and l: "length boot = 512" "12 \<le> length sys"
  defines "n \<equiv> of_nat (length sys) :: dword" and "u \<equiv> of_nat (length usr) :: dword"
  shows "disk 497 = boot ! 497" and "disk 500 = byte_of 0 ((n + u + 15) div 16)" and "disk 501 = byte_of 1 ((n + u + 15) div 16)"
    and "\<And>i. i < 12 \<Longrightarrow> disk (512 + i) = ([byte_of 0 n, byte_of 1 n, byte_of 2 n, 0] @ [byte_of 0 u, byte_of 1 u, byte_of 2 u, 0] @
         [0x1A, 0x7E, 0, 0]) ! i"
    and "\<And>i. i < length usr \<Longrightarrow> disk (512 + length sys + i) = usr ! i"
proof -
  define A where "A = take 500 boot @ [byte_of 0 ((n + u + 15) div 16), byte_of 1 ((n + u + 15) div 16)] @ take 6 (drop 502 boot) @ [0, 0, 0x55, 0xAA]"
  define H where "H = [byte_of 0 n, byte_of 1 n, byte_of 2 n, 0] @ [byte_of 0 u, byte_of 1 u, byte_of 2 u, 0] @ [0x1A, 0x7E, 0, 0]"
  have len: "length A = 512" "length H = 12"
    using l by (simp_all add: A_def H_def)
  have img: "disk i = (A @ H @ drop 12 sys @ usr) ! i" if "i < 512 + length sys + length usr" for i
    using d that unfolding built_disk_def Let_def n_def [symmetric] u_def [symmetric] A_def H_def by simp
  have "disk i = A ! i" if "i < 512" for i
    using img [of i] that len by (simp add: nth_append)
  then show "disk 497 = boot ! 497" "disk 500 = byte_of 0 ((n + u + 15) div 16)" "disk 501 = byte_of 1 ((n + u + 15) div 16)"
    using l by (simp_all add: A_def nth_append)
  show "disk (512 + i) = ([byte_of 0 n, byte_of 1 n, byte_of 2 n, 0] @ [byte_of 0 u, byte_of 1 u, byte_of 2 u, 0] @
       [0x1A, 0x7E, 0, 0]) ! i" if "i < 12" for i
    using img [of "512 + i"] that len l unfolding H_def [symmetric] by (simp add: nth_append)
  show "disk (512 + length sys + i) = usr ! i" if "i < length usr" for i
  proof -
    have "((A @ H @ drop 12 sys) @ usr) ! (length (A @ H @ drop 12 sys) + i) = usr ! i"
      by (rule nth_append_length_plus)
    moreover have "length (A @ H @ drop 12 sys) = 512 + length sys"
      using len l by simp
    ultimately show ?thesis
      using img [of "512 + length sys + i"] that by simp
  qed
qed

lemma size_of_image:
  assumes d: "built_disk boot sys usr disk" and l: "length boot = 512" "12 \<le> length sys"
    and small: "length sys + length usr \<le> 0x7FFF0"
  shows "unat (size_word disk) = (length sys + length usr + 15) div 16"
proof -
  let ?s = "length sys + length usr"
  define im :: dword where "im = (of_nat (length sys) + of_nat (length usr) + 15) div 16"
  have "im = of_nat (?s + 15) div of_nat 16"
    by (simp add: im_def)
  moreover have "unat (of_nat (?s + 15) :: dword) = ?s + 15"
    using small by (simp only: unat_of_nat) simp
  ultimately have im: "unat im = (?s + 15) div 16"
    by (simp add: unat_div)
  then have lt: "unat im < 2 ^ 16"
    using small by simp
  have "size_word disk = ucast (byte_of 0 im) OR push_bit 8 (ucast (byte_of 1 im))"
    using built_disk_parts(2,3) [OF d l] by (simp add: size_word_def im_def)
  also have "\<dots> = ucast im"
    unfolding byte_of_def by (rule bit_word_eqI) (auto simp: bit_simps)
  finally have "unat (size_word disk) = unat im"
    using lt by (simp add: unsigned_ucast_eq take_bit_nat_eq_self)
  with im show ?thesis
    by simp
qed

section \<open>From the image to the user program\<close>

text \<open>The memory the boot loader leaves is what \<^verbatim>\<open>main\<close> relies on.\<close>

lemma loader_boot_image:
  assumes f: "floppy disk B" and s: "sector_loaded disk s"
    and d: "built_disk boot sys usr disk" and l: "length boot = 512" "12 \<le> length sys"
    and small: "length sys + length usr \<le> 0x7FFF0" and u: "length usr \<le> 0x1BFFC"
    and blk: "kernel_block L 0x10000 12" "kernel_block L (0x10000 + of_nat (length sys)) (length usr)" and a20: "a20_opens s"
  shows "\<exists>s'. bootsect B s = Some s' \<and> boot_image L (l_ram s') (of_nat (length sys)) (length usr) \<and>
    (\<forall>i < length usr. l_ram s' (byte_at (0x10000 + of_nat (length sys)) i) = usr ! i)"
proof -
  let ?s = "length sys + length usr"
  define z where "z = size_word disk"
  have z: "unat z = (?s + 15) div 16"
    unfolding z_def by (rule size_of_image [OF d l small])
  then have "unat z < 0x8000"
    using small by simp
  then obtain s' where s': "bootsect B s = Some s'"
      "\<And>i. i < 0x10000 * segments z \<Longrightarrow> l_ram s' (of_nat (0x10000 + i)) = disk (512 + i)"
    using bootsect_loads [OF f s _ a20] unfolding z_def by blast
  have "?s \<le> 16 * unat z"
    unfolding z by linarith
  also have "16 * unat z < 0x10000 * segments z"
  proof -
    define q r where "q = unat z div 0x1000" and "r = unat z mod 0x1000"
    have "unat z = 0x1000 * q + r" "r < 0x1000"
      by (simp_all add: q_def r_def)
    then show ?thesis
      unfolding segments_def q_def [symmetric] by simp
  qed
  finally have covers: "?s < 0x10000 * segments z" .
  have at: "l_ram s' (0x10000 + of_nat i) = disk (512 + i)" if "i < ?s" for i
    using s'(2) [of i] covers that by simp
  have small3: "dword_of_bytes (byte_of 0 v) (byte_of 1 v) (byte_of 2 v) 0 = v" if "unat v < 2 ^ 24" for v
    unfolding three_bytes using that
    by (intro unsigned_word_eqI [where ?'a = nat]) (simp add: unsigned_take_bit_eq take_bit_nat_eq_self)
  have n24: "unat (of_nat m :: dword) < 2 ^ 24" if "m \<le> 0x7FFF0" for m
    using that by (simp add: unat_of_nat)
  have hd: "l_ram s' (0x10000 + of_nat i) = ([byte_of 0 (of_nat (length sys)), byte_of 1 (of_nat (length sys)),
      byte_of 2 (of_nat (length sys)), 0] @ [byte_of 0 (of_nat (length usr)), byte_of 1 (of_nat (length usr)),
      byte_of 2 (of_nat (length usr)), 0] @ [0x1A, 0x7E, 0, 0]) ! i" if "i < 12" for i
    using at [of i] built_disk_parts(4) [OF d l that] l(2) that by simp
  have "image_dword (l_ram s') 0x10000 = of_nat (length sys)"
    using hd [of 0] hd [of 1] hd [of 2] hd [of 3] small small3 [OF n24 [of "length sys"]] by (simp add: image_dword_def)
  moreover have "image_dword (l_ram s') 0x10004 = of_nat (length usr)"
    using hd [of 4] hd [of 5] hd [of 6] hd [of 7] small small3 [OF n24 [of "length usr"]] by (simp add: image_dword_def)
  moreover have "l_ram s' (byte_at (0x10000 + of_nat (length sys)) i) = usr ! i" if "i < length usr" for i
    using at [of "length sys + i"] built_disk_parts(5) [OF d l that] that by (simp add: byte_at_def add.assoc)
  ultimately show ?thesis
    using s'(1) blk u by (simp add: boot_image_def)
qed

text \<open>The files and the output of \<^verbatim>\<open>build\<close>, as the layout of the image asks for them.\<close>

definition build_inputs :: "string list \<Rightarrow> builder \<Rightarrow> byte list \<Rightarrow> byte list \<Rightarrow> byte list \<Rightarrow> bool" where
  "build_inputs argv h boot sys usr \<longleftrightarrow> length argv = 4 \<and>
     (\<exists>hdr. minix_header hdr \<and> holds_file h (argv ! 1) (hdr @ boot)) \<and>
     length boot = 512 \<and> boot ! 510 = 0x55 \<and> boot ! 511 = 0xAA \<and> holds_file h (argv ! 2) sys \<and> 12 \<le> length sys \<and>
     holds_file h (argv ! 3) usr \<and> image h = [] \<and> image_pos h = 0 \<and> seekable h \<and> 512 + length sys + length usr \<le> room h"

lemma built_disk_image:
  assumes "build_inputs argv h boot sys usr" and "length sys + length usr \<le> 0x7FFF0"
    and "build_main argv h = Inr h'" and "\<And>i. i < length (image h') \<Longrightarrow> disk i = image h' ! i"
  shows "built_disk boot sys usr disk"
proof -
  obtain hdr where i: "length argv = 4" "holds_file h (argv ! 1) (hdr @ boot)" "minix_header hdr" "length boot = 512"
      "boot ! 510 = 0x55" "boot ! 511 = 0xAA" "holds_file h (argv ! 2) sys" "12 \<le> length sys" "holds_file h (argv ! 3) usr"
      "length sys < 2 ^ 32" "length usr < 2 ^ 32" "image h = []" "image_pos h = 0" "seekable h"
      "512 + length sys + length usr \<le> room h"
    using assms(1,2) by (auto simp: build_inputs_def)
  have len: "length (image h') = 512 + length sys + length usr"
    using build_image [OF i] i(4,8) assms(3) by (auto simp: Let_def)
  show ?thesis
    unfolding built_disk_def Let_def
    using build_image [OF i] assms(3,4) unfolding len Let_def by simp
qed

text \<open>
  C5: from the files to the user program.  Build an image from a boot sector, a system and a
  user program that fit below 512 KiB and into the pages of a process, write it to a disk, and
  start the boot sector: once address line 20 opens the loader ends, and whatever else the machine
  holds, main, started on the memory the loader leaves, returns with the tasks set up, in user mode
  at 0x100000 with the user's stack and interrupts on, where the page table of task 1 shows the
  user program byte for byte.
\<close>

theorem image_boots:
  assumes "build_inputs argv h boot sys usr" and "build_main argv h = Inr h'" and "boot ! 497 = 0"
    and "length sys + length usr \<le> 0x7FFF0" and "length usr \<le> 0x1BFFC"
    and "\<And>i. i < length (image h') \<Longrightarrow> disk i = image h' ! i" and "floppy disk B"
    and "\<And>i. i < 512 \<Longrightarrow> l_ram s (of_nat (0x7C00 + i)) = disk i" and "sread s = 0" and "head s = 0" and "track s = 0"
    and "layout_ok L" and "quiet_boot L E"
    and "kernel_block L 0x10000 12" and "kernel_block L (0x10000 + of_nat (length sys)) (length usr)" and "a20_opens s"
  shows "\<exists>s'. bootsect B s = Some s' \<and> (\<forall>m. ram (mm (kern m)) = l_ram s' \<longrightarrow>
    (\<exists>m'. main L E Bl m = Some m' \<and> booted L (kern m') \<and>
      eip (cpu (kern m')) = 0x100000 \<and> esp (cpu (kern m')) = 0x11BFF0 \<and> sel_cs m' = USER_CS \<and> sel_ss m' = USER_DS \<and>
      bit (eflags (cpu (kern m'))) 9 \<and> int_mask m' = 0xfc \<and>
      (\<forall>i < length usr. load_byte (translate (mm (kern m'))) (ram (mm (kern m'))) (byte_at 0x100000 i) = Some (usr ! i))))"
proof -
  have l: "length boot = 512" "12 \<le> length sys"
    using assms(1) by (auto simp: build_inputs_def)
  have d: "built_disk boot sys usr disk"
    by (rule built_disk_image [OF assms(1,4,2,6)])
  have "sector_loaded disk s"
    using assms(3,8-11) built_disk_parts(1) [OF d l] by (simp add: sector_loaded_def)
  from loader_boot_image [OF assms(7) this d l assms(4,5,14,15,16)]
  obtain s' where s': "bootsect B s = Some s'" "boot_image L (l_ram s') (of_nat (length sys)) (length usr)"
      "\<And>i. i < length usr \<Longrightarrow> l_ram s' (byte_at (0x10000 + of_nat (length sys)) i) = usr ! i"
    by blast
  have "\<exists>m'. main L E Bl m = Some m' \<and> booted L (kern m') \<and>
      eip (cpu (kern m')) = 0x100000 \<and> esp (cpu (kern m')) = 0x11BFF0 \<and> sel_cs m' = USER_CS \<and> sel_ss m' = USER_DS \<and>
      bit (eflags (cpu (kern m'))) 9 \<and> int_mask m' = 0xfc \<and>
      (\<forall>i < length usr. load_byte (translate (mm (kern m'))) (ram (mm (kern m'))) (byte_at 0x100000 i) = Some (usr ! i))"
    if m: "ram (mm (kern m)) = l_ram s'" for m
    using main_reaches_user_mode [OF assms(12,13) s'(2) [folded m], of Bl] s'(3) unfolding m by fastforce
  then show ?thesis
    using s'(1) by blast
qed

definition ex_zeos :: builder where
  "ex_zeos = ex_host\<lparr>files := [''bootsect'' \<mapsto> ex_file (ex_header @ replicate 435 0x90 @ sector_data),
     ''system'' \<mapsto> ex_file (replicate 2000 1), ''user'' \<mapsto> ex_file [7, 8, 9]]\<rparr>"

lemma ex_zeos_inputs:
  "build_inputs [''build'', ''bootsect'', ''system'', ''user''] ex_zeos (replicate 435 0x90 @ sector_data) (replicate 2000 1) [7, 8, 9]"
proof -
  have "holds_file ex_zeos ''bootsect'' (ex_header @ replicate 435 0x90 @ sector_data)"
    "holds_file ex_zeos ''system'' (replicate 2000 1)" "holds_file ex_zeos ''user'' [7, 8, 9]"
    by (simp_all add: holds_file_def ex_zeos_def ex_file_def)
  moreover have "length sector_data = 77" "sector_data ! 75 = 0x55" "sector_data ! 76 = 0xAA"
    by (simp_all add: sector_data_def)
  ultimately show ?thesis
    using ex_header_ok unfolding build_inputs_def
    by (auto simp: nth_append ex_zeos_def ex_host_def)
qed

theorem image_boots_witness:
  "\<forall>t. \<exists>disk s' m'. bootsect (floppy_bios disk) (sector_start disk) = Some s' \<and>
     main ex_layout quiet_externals ex_boot_layout
       ((ex_machine t)\<lparr>kern := upd_mm (ram_update (\<lambda>_. l_ram s')) zero_kernel\<rparr>) = Some m' \<and>
     load_byte (translate (mm (kern m'))) (ram (mm (kern m'))) 0x100002 = Some 9"
proof
  fix t
  let ?boot = "replicate 435 0x90 @ sector_data" and ?sys = "replicate 2000 (1 :: byte)" and ?usr = "[7, 8, 9 :: byte]"
  obtain hdr where i: "holds_file ex_zeos ''bootsect'' (hdr @ ?boot)" "minix_header hdr"
    using ex_zeos_inputs by (auto simp: build_inputs_def)
  obtain h' where h': "build_main [''build'', ''bootsect'', ''system'', ''user''] ex_zeos = Inr h'"
    using build_image [of "[''build'', ''bootsect'', ''system'', ''user'']" ex_zeos hdr ?boot ?sys ?usr] i ex_zeos_inputs
    unfolding build_inputs_def Let_def by (auto)
  define disk where "disk = (\<lambda>i. if i < length (image h') then image h' ! i else 0)"
  have d: "built_disk ?boot ?sys ?usr disk"
    by (rule built_disk_image [OF ex_zeos_inputs _ h']) (simp_all add: disk_def)
  have b497: "?boot ! 497 = 0"
    by (simp add: nth_append sector_data_def)
  have "disk 497 = 0"
    using built_disk_parts(1) [OF d] b497 by (simp add: sector_data_def)
  then have s: "sector_loaded disk (sector_start disk)"
    by (rule sector_start_loaded)
  have blk: "kernel_block ex_layout 0x10000 12" "kernel_block ex_layout (0x10000 + of_nat (length ?sys)) (length ?usr)"
    by (rule ex_kernel_block; simp)+
  have dk: "disk i = image h' ! i" if "i < length (image h')" for i
    using that by (simp add: disk_def)
  have st: "l_ram (sector_start disk) (of_nat (0x7C00 + i)) = disk i" if "i < 512" for i
    using s that unfolding sector_loaded_def by blast
  have regs: "sread (sector_start disk) = 0" "head (sector_start disk) = 0" "track (sector_start disk) = 0"
    by (simp_all add: sector_start_def)
  have size: "length ?sys + length ?usr \<le> 0x7FFF0" "length ?usr \<le> 0x1BFFC"
    by simp_all
  obtain s' where s': "bootsect (floppy_bios disk) (sector_start disk) = Some s'"
      "\<And>m. ram (mm (kern m)) = l_ram s' \<Longrightarrow> \<exists>m'. main ex_layout quiet_externals ex_boot_layout m = Some m' \<and>
        (\<forall>i < length ?usr. load_byte (translate (mm (kern m'))) (ram (mm (kern m'))) (byte_at 0x100000 i) = Some (?usr ! i))"
    using image_boots [OF ex_zeos_inputs h' b497 size dk floppy_bios_reads st regs ex_layout_ok ex_quiet blk sector_start_a20, of ex_boot_layout]
    by blast
  obtain m' where "main ex_layout quiet_externals ex_boot_layout
       ((ex_machine t)\<lparr>kern := upd_mm (ram_update (\<lambda>_. l_ram s')) zero_kernel\<rparr>) = Some m'"
      "\<forall>i < length ?usr. load_byte (translate (mm (kern m'))) (ram (mm (kern m'))) (byte_at 0x100000 i) = Some (?usr ! i)"
    using s'(2) [of "(ex_machine t)\<lparr>kern := upd_mm (ram_update (\<lambda>_. l_ram s')) zero_kernel\<rparr>"] by auto
  moreover from this(2) have "load_byte (translate (mm (kern m'))) (ram (mm (kern m'))) (byte_at 0x100000 2) = Some (?usr ! 2)"
    by simp
  ultimately show "\<exists>disk s' m'. bootsect (floppy_bios disk) (sector_start disk) = Some s' \<and>
     main ex_layout quiet_externals ex_boot_layout
       ((ex_machine t)\<lparr>kern := upd_mm (ram_update (\<lambda>_. l_ram s')) zero_kernel\<rparr>) = Some m' \<and>
     load_byte (translate (mm (kern m'))) (ram (mm (kern m'))) 0x100002 = Some 9"
    using s'(1) by (auto simp: byte_at_def)
qed

end
