(* ===== verification/Sockets.thy ===== *)
theory Sockets
  imports Prelude
begin

text \<open>
  The programs under SOCKETS: the socket helpers of socketMng.c, the servers and the clients.

  The operating system is a record of functions on a state of any type, one per call the
  programs make, so every statement holds for whatever the calls do; signals are polled.  A
  program that ends is an error value: with the status it passes to \<^verbatim>\<open>exit\<close>, replaced by another
  program, or by writing outside an array.  Loops that need not end are partial functions,
  with \<open>None\<close> for running forever.
\<close>

section \<open>The operating system and C library\<close>

datatype stop = Exit int | Exec "string list" | Out_of_bounds

record sockaddr_in =
  sin_family :: int
  sin_port :: hword
  sin_addr :: dword

record 'w posix =
  p_socket :: "'w \<Rightarrow> int \<times> 'w"
  p_bind :: "int \<Rightarrow> sockaddr_in \<Rightarrow> 'w \<Rightarrow> int \<times> 'w"
  p_listen :: "int \<Rightarrow> int \<Rightarrow> 'w \<Rightarrow> 'w"
  p_accept :: "int \<Rightarrow> 'w \<Rightarrow> int \<times> 'w"
  p_connect :: "int \<Rightarrow> sockaddr_in \<Rightarrow> 'w \<Rightarrow> int \<times> 'w"
  p_gethostbyname :: "string \<Rightarrow> 'w \<Rightarrow> dword option \<times> 'w"
  p_open :: "string \<Rightarrow> 'w \<Rightarrow> int \<times> 'w"
  p_close :: "int \<Rightarrow> 'w \<Rightarrow> 'w"
  p_dup2 :: "int \<Rightarrow> int \<Rightarrow> 'w \<Rightarrow> 'w"
  p_read :: "int \<Rightarrow> nat \<Rightarrow> 'w \<Rightarrow> int \<times> string \<times> 'w"
  p_write :: "int \<Rightarrow> string \<Rightarrow> 'w \<Rightarrow> int \<times> 'w"
  p_perror :: "string \<Rightarrow> 'w \<Rightarrow> 'w"
  p_getpid :: "'w \<Rightarrow> int"
  p_fork :: "'w \<Rightarrow> int \<times> 'w"
  p_exec :: "string list \<Rightarrow> 'w \<Rightarrow> bool \<times> 'w"
  p_waitpid :: "bool \<Rightarrow> 'w \<Rightarrow> int \<times> 'w"
  p_sigchld :: "'w \<Rightarrow> bool \<times> 'w"
  p_pthread_create :: "int \<Rightarrow> 'w \<Rightarrow> int \<times> int \<times> 'w"
  p_pthread_detach :: "int \<Rightarrow> 'w \<Rightarrow> 'w"
  p_gettimeofday :: "'w \<Rightarrow> (int \<times> int) \<times> 'w"

abbreviation (input) AF_INET :: int where "AF_INET \<equiv> 2"
abbreviation (input) INADDR_ANY :: dword where "INADDR_ANY \<equiv> 0"
abbreviation (input) MAXCON :: int where "MAXCON \<equiv> 5"
abbreviation (input) BUF_SIZE :: nat where "BUF_SIZE \<equiv> 80"
abbreviation (input) newline :: string where "newline \<equiv> [CHR 0x0A]"

text \<open>\<^verbatim>\<open>%d\<close>, \<^verbatim>\<open>atoi\<close>, \<^verbatim>\<open>htons\<close> on a little endian host, and the text a char array holds.\<close>

function digits :: "nat \<Rightarrow> string" where
  "digits n = (if n < 10 then [char_of (48 + n)] else digits (n div 10) @ [char_of (48 + n mod 10)])"
  by pat_completeness auto
termination
  by (relation "measure id") auto

declare digits.simps [simp del]

definition show_int :: "int \<Rightarrow> string" where
  "show_int n = (if n < 0 then ''-'' @ digits (nat (- n)) else digits (nat n))"

definition is_digit :: "char \<Rightarrow> bool" where
  "is_digit c \<longleftrightarrow> 48 \<le> (of_char c :: nat) \<and> (of_char c :: nat) \<le> 57"

definition atoi :: "string \<Rightarrow> int" where
  "atoi cs =
     (let cs = dropWhile (\<lambda>c. c \<in> set ('' '' @ map char_of [9..<14 :: nat])) cs;
          val = (\<lambda>ds. foldl (\<lambda>n c. 10 * n + (of_char c - 48)) 0 (takeWhile is_digit ds))
      in case cs of [] \<Rightarrow> 0
         | c # ds \<Rightarrow> if c = CHR ''-'' then - val ds else if c = CHR ''+'' then val ds else val cs)"

definition htons :: "int \<Rightarrow> hword" where
  "htons port = (let p = of_int port in push_bit 8 p OR drop_bit 8 p)"

definition c_string :: "string \<Rightarrow> string" where
  "c_string buff = takeWhile (\<lambda>c. c \<noteq> CHR 0x00) buff"

definition read_into :: "string \<Rightarrow> string \<Rightarrow> string" where
  "read_into d buff = d @ drop (length d) buff"

section \<open>socketMng.c\<close>

definition createServerSocket :: "'w posix \<Rightarrow> int \<Rightarrow> 'w \<Rightarrow> int \<times> 'w" where
  "createServerSocket P port w =
     (let (socketFD, w) = p_socket P w
      in if socketFD < 0 then (-1, w)
         else let servAddr = \<lparr>sin_family = AF_INET, sin_port = htons port, sin_addr = INADDR_ANY\<rparr>;
                  (r, w) = p_bind P socketFD servAddr w
              in if r < 0 then (-1, p_close P socketFD w)
                 else (socketFD, p_listen P socketFD MAXCON w))"

definition acceptNewConnections :: "'w posix \<Rightarrow> int \<Rightarrow> 'w \<Rightarrow> int \<times> 'w" where
  "acceptNewConnections P socket_fd w = p_accept P socket_fd w"

definition clientConnection :: "'w posix \<Rightarrow> string \<Rightarrow> int \<Rightarrow> 'w \<Rightarrow> int \<times> 'w" where
  "clientConnection P host_name port w =
     (let (socket_fd, w) = p_socket P w
      in if socket_fd < 0 then (socket_fd, w)
         else case p_gethostbyname P host_name w of
           (None, w) \<Rightarrow> (-1, p_close P socket_fd w)
         | (Some a, w) \<Rightarrow>
             let (r, w) = p_connect P socket_fd \<lparr>sin_family = AF_INET, sin_port = htons port, sin_addr = a\<rparr> w
             in if r < 0 then (r, p_close P socket_fd w) else (socket_fd, w))"

definition deleteSocket :: "'w posix \<Rightarrow> int \<Rightarrow> 'w \<Rightarrow> 'w" where
  "deleteSocket P socket_fd w = p_close P socket_fd w"

section \<open>serverSocket.c\<close>

text \<open>
  The line about a message; \<^verbatim>\<open>sprintf\<close> needs one byte more than the text has.
\<close>

definition received_line :: "'w posix \<Rightarrow> string \<Rightarrow> 'w \<Rightarrow> string" where
  "received_line P buff w =
     ''Server ['' @ show_int (p_getpid P w) @ ''] received: '' @ c_string buff @ newline"

text \<open>The loop of \<^verbatim>\<open>doService\<close>; \<open>ret\<close> is the result of the last read, \<open>buff\<close> the 80 characters.\<close>

partial_function (option) service_loop ::
  "'w posix \<Rightarrow> int \<Rightarrow> int \<Rightarrow> string \<Rightarrow> 'w \<Rightarrow> ((stop + int) \<times> 'w) option" where
  "service_loop P fd ret buff w =
     (if ret > 0 then
        if nat ret \<ge> BUF_SIZE then Some (Inl Out_of_bounds, w)
        else let buff = buff[nat ret := CHR 0x00];
                 line = received_line P buff w
             in if length line \<ge> BUF_SIZE then Some (Inl Out_of_bounds, w)
                else let w = snd (p_write P 1 line w);
                         (ret, w) = p_write P fd (take 8 ''caracola '') w
                     in if ret < 0 then Some (Inl (Exit 1), p_perror P ''Error writing to socket'' w)
                        else let (ret, d, w) = p_read P fd BUF_SIZE w
                             in service_loop P fd ret (read_into d buff) w
      else Some (Inr ret, w))"

definition doService :: "'w posix \<Rightarrow> string \<Rightarrow> int \<Rightarrow> 'w \<Rightarrow> ((stop + unit) \<times> 'w) option" where
  "doService P buff fd w =
     (let (ret, d, w) = p_read P fd BUF_SIZE w
      in case service_loop P fd ret (read_into d buff) w of
           None \<Rightarrow> None
         | Some (Inl e, w) \<Rightarrow> Some (Inl e, w)
         | Some (Inr ret, w) \<Rightarrow>
             let w = (if ret < 0 then p_perror P ''Error reading from socket'' w else w)
             in Some (Inr (), snd (p_write P 1
                  (''Server ['' @ show_int (p_getpid P w) @ ''] ends service'' @ newline) w)))"

text \<open>
  \<^verbatim>\<open>proc_exit\<close> is the handler of SIGCHLD; \<open>alive\<close> is \<^verbatim>\<open>forksAlive\<close>.  Its call of \<^verbatim>\<open>waitpid\<close> lacks the
  options; they are taken to be 0.  The flag of \<open>p_waitpid\<close> says that the call waits.
\<close>

definition proc_exit :: "'w posix \<Rightarrow> int \<Rightarrow> 'w \<Rightarrow> int \<times> 'w" where
  "proc_exit P alive w = (let (r, w) = p_waitpid P True w in (alive - 1, w))"

partial_function (option) fork_until :: "'w posix \<Rightarrow> int \<Rightarrow> 'w \<Rightarrow> (int \<times> 'w) option" where
  "fork_until P ret w = (if ret < 0 then let (ret, w) = p_fork P w in fork_until P ret w else Some (ret, w))"

definition doServiceFork :: "'w posix \<Rightarrow> string \<Rightarrow> int \<Rightarrow> int \<Rightarrow> 'w \<Rightarrow> ((stop + int) \<times> 'w) option" where
  "doServiceFork P buff fd alive w =
     (case fork_until P (-1) w of
        None \<Rightarrow> None
      | Some (ret, w) \<Rightarrow>
          let alive = alive + 1
          in if ret = 0 then
               (case doService P buff fd w of
                  None \<Rightarrow> None
                | Some (Inl e, w) \<Rightarrow> Some (Inl e, w)
                | Some (Inr _, w) \<Rightarrow> Some (Inl (Exit 0), w))
             else Some (Inr alive, w))"

text \<open>What every accept loop does with a failed accept.\<close>

definition accept_failed :: "'w posix \<Rightarrow> int \<Rightarrow> 'w \<Rightarrow> 'w" where
  "accept_failed P socketFD w = deleteSocket P socketFD (p_perror P (''Error establishing connection '' @ newline) w)"

partial_function (option) seq_server :: "'w posix \<Rightarrow> string \<Rightarrow> int \<Rightarrow> 'w \<Rightarrow> (stop \<times> 'w) option" where
  "seq_server P buff socketFD w =
     (let (connectionFD, w) = acceptNewConnections P socketFD w
      in if connectionFD < 0 then Some (Exit 1, accept_failed P socketFD w)
         else case doService P buff connectionFD w of
           None \<Rightarrow> None
         | Some (Inl e, w) \<Rightarrow> Some (e, w)
         | Some (Inr _, w) \<Rightarrow> seq_server P buff socketFD w)"

partial_function (option) con_server :: "'w posix \<Rightarrow> string \<Rightarrow> int \<Rightarrow> int \<Rightarrow> 'w \<Rightarrow> (stop \<times> 'w) option" where
  "con_server P buff socketFD alive w =
     (let (connectionFD, w) = acceptNewConnections P socketFD w
      in if connectionFD < 0 then Some (Exit 1, accept_failed P socketFD w)
         else case doServiceFork P buff connectionFD alive w of
           None \<Rightarrow> None
         | Some (Inl e, w) \<Rightarrow> Some (e, w)
         | Some (Inr alive, w) \<Rightarrow> con_server P buff socketFD alive w)"

text \<open>\<^verbatim>\<open>while (forksAlive >= maxChild);\<close> waits for the signal handler to lower the counter.\<close>

partial_function (option) await_child :: "'w posix \<Rightarrow> int \<Rightarrow> int \<Rightarrow> 'w \<Rightarrow> (int \<times> 'w) option" where
  "await_child P maxChild alive w =
     (if alive \<ge> maxChild then
        let (s, w) = p_sigchld P w;
            (alive, w) = (if s then proc_exit P alive w else (alive, w))
        in await_child P maxChild alive w
      else Some (alive, w))"

partial_function (option) bound_server ::
  "'w posix \<Rightarrow> string \<Rightarrow> int \<Rightarrow> int \<Rightarrow> int \<Rightarrow> 'w \<Rightarrow> (stop \<times> 'w) option" where
  "bound_server P buff socketFD maxChild alive w =
     (let (connectionFD, w) = acceptNewConnections P socketFD w
      in if connectionFD < 0 then Some (Exit 1, accept_failed P socketFD w)
         else case await_child P maxChild alive w of
           None \<Rightarrow> None
         | Some (alive, w) \<Rightarrow>
             (case doServiceFork P buff connectionFD alive w of
                None \<Rightarrow> None
              | Some (Inl e, w) \<Rightarrow> Some (e, w)
              | Some (Inr alive, w) \<Rightarrow> bound_server P buff socketFD maxChild alive w))"

text \<open>\<^verbatim>\<open>main\<close>; \<open>buff\<close> stands for what the stack of \<^verbatim>\<open>doService\<close> held before.\<close>

definition create_failed :: "'w posix \<Rightarrow> 'w \<Rightarrow> (stop \<times> 'w) option" where
  "create_failed P w = Some (Exit 1, p_perror P (''Error creating socket'' @ newline) w)"

definition server_main :: "'w posix \<Rightarrow> string \<Rightarrow> string list \<Rightarrow> 'w \<Rightarrow> (stop \<times> 'w) option" where
  "server_main P buff argv w =
     (if length argv < 3
      then Some (Exit 1, snd (p_write P 2 (''Usage: ServerSocket PortNumber ServerType (Bound)'' @ newline) w))
      else let serverType = atoi (argv ! 2) in
        if serverType = 0 then
          let (socketFD, w) = createServerSocket P (atoi (argv ! 1)) w
          in if socketFD < 0 then create_failed P w else seq_server P buff socketFD w
        else if serverType = 1 then
          let (socketFD, w) = createServerSocket P (atoi (argv ! 1)) w
          in if socketFD < 0 then create_failed P w else con_server P buff socketFD 0 w
        else if serverType = 2 then
          if length argv < 4
          then Some (Exit 1, snd (p_write P 2 (''Usage: ServerSocket PortNumber 2 Bound'' @ newline) w))
          else let port = atoi (argv ! 1);
                   maxChild = atoi (argv ! 3);
                   (socketFD, w) = createServerSocket P port w
               in if socketFD < 0 then create_failed P w else bound_server P buff socketFD maxChild 0 w
        else Some (Exit 0, p_perror P (''ServType should be between 0 and 3 '' @ newline) w))"

section \<open>serverSocketThreads.c\<close>

text \<open>Its \<^verbatim>\<open>doService\<close> is the one of serverSocket.c, with the descriptor passed as a pointer.\<close>

definition thread_service :: "'w posix \<Rightarrow> string \<Rightarrow> int \<Rightarrow> 'w \<Rightarrow> ((stop + unit) \<times> 'w) option" where
  "thread_service P buff fdp w = (let socket_fd = fdp in doService P buff socket_fd w)"

text \<open>
  \<^verbatim>\<open>pthread_create\<close> gives its result and the thread; the new thread runs \<^verbatim>\<open>doService\<close> on the
  descriptor in the thread's own time, which is the operating system's matter.
\<close>

partial_function (option) create_until :: "'w posix \<Rightarrow> int \<Rightarrow> 'w \<Rightarrow> (int \<times> 'w) option" where
  "create_until P fd w =
     (let (r, thread_id, w) = p_pthread_create P fd w
      in if r < 0 then create_until P fd w else Some (thread_id, w))"

definition doServiceThr :: "'w posix \<Rightarrow> int \<Rightarrow> 'w \<Rightarrow> 'w option" where
  "doServiceThr P fd w =
     (case create_until P fd w of
        None \<Rightarrow> None
      | Some (thread_id, w) \<Rightarrow> Some (p_pthread_detach P thread_id w))"

partial_function (option) threads_loop :: "'w posix \<Rightarrow> int \<Rightarrow> 'w \<Rightarrow> (stop \<times> 'w) option" where
  "threads_loop P socketFD w =
     (let (connectionFD, w) = acceptNewConnections P socketFD w
      in if connectionFD < 0 then Some (Exit 1, accept_failed P socketFD w)
         else case doServiceThr P connectionFD w of
           None \<Rightarrow> None
         | Some w \<Rightarrow> threads_loop P socketFD w)"

definition threads_main :: "'w posix \<Rightarrow> string list \<Rightarrow> 'w \<Rightarrow> (stop \<times> 'w) option" where
  "threads_main P argv w =
     (if length argv \<noteq> 2
      then Some (Exit 1, snd (p_write P 2 (''Usage: ServerSocket PortNumber'' @ newline) w))
      else let port = atoi (argv ! 1);
               (socketFD, w) = createServerSocket P port w
           in if socketFD < 0 then create_failed P w else threads_loop P socketFD w)"

section \<open>clientSocket.c\<close>

text \<open>\<^verbatim>\<open>timersub\<close> and the milliseconds; C's division rounds towards zero.\<close>

definition timersub :: "int \<times> int \<Rightarrow> int \<times> int \<Rightarrow> int \<times> int" where
  "timersub e i =
     (let sec = fst e - fst i; usec = snd e - snd i
      in if usec < 0 then (sec - 1, usec + 1000000) else (sec, usec))"

definition elapsed_msec :: "int \<times> int \<Rightarrow> int \<times> int \<Rightarrow> int" where
  "elapsed_msec e i = (let (sec, usec) = timersub e i in sec * 1000 + sgn usec * (\<bar>usec\<bar> div 1000))"

function client_loop :: "'w posix \<Rightarrow> int \<Rightarrow> int \<Rightarrow> int \<Rightarrow> string \<Rightarrow> 'w \<Rightarrow> (stop + unit) \<times> 'w" where
  "client_loop P fd i num_it buff w =
     (if i < num_it then
        let (ret, w) = p_write P fd ''hola '' w
        in if ret < 0 then (Inl (Exit 1), p_perror P (''Error writing to connection'' @ newline) w)
           else let (ret, d, w) = p_read P fd BUF_SIZE w
                in if ret < 0 then (Inl (Exit 1), p_perror P (''Error reading on connection'' @ newline) w)
                   else if nat ret \<ge> BUF_SIZE then (Inl Out_of_bounds, w)
                   else let buff = (read_into d buff)[nat ret := CHR 0x00];
                            line = ''Client ['' @ show_int (p_getpid P w) @ ''] received: '' @ c_string buff @ newline
                        in if length line \<ge> BUF_SIZE then (Inl Out_of_bounds, w)
                           else client_loop P fd (i + 1) num_it buff (snd (p_write P 1 line w))
      else (Inr (), w))"
  by pat_completeness auto
termination
  by (relation "measure (\<lambda>(P, fd, i, num_it, buff, w). nat (num_it - i))") auto

declare client_loop.simps [simp del]

definition client_main :: "'w posix \<Rightarrow> string \<Rightarrow> string list \<Rightarrow> 'w \<Rightarrow> stop \<times> 'w" where
  "client_main P buff argv w =
     (let (init_t, w) = p_gettimeofday P w
      in if length argv \<noteq> 4 then
           let line = ''Usage: '' @ argv ! 0 @ '' num_it hostname port'' @ newline
           in if length line \<ge> BUF_SIZE then (Out_of_bounds, w) else (Exit 1, snd (p_write P 2 line w))
         else let num_it = atoi (argv ! 1);
                  port = atoi (argv ! 3);
                  (connectionFD, w) = clientConnection P (argv ! 2) port w
              in if connectionFD < 0
                 then (Exit 1, p_perror P (''Error establishing connection'' @ newline) w)
                 else case client_loop P connectionFD 0 num_it buff w of
                   (Inl e, w) \<Rightarrow> (e, w)
                 | (Inr _, w) \<Rightarrow>
                     let (end_t, w) = p_gettimeofday P w;
                         w = snd (p_write P 1
                               (newline @ ''Client ['' @ show_int (p_getpid P w) @ ''] finishes'' @ newline) w);
                         w = snd (p_write P 2
                               (''Time '' @ show_int (elapsed_msec end_t init_t) @ '' msec'' @ newline) w)
                     in (Exit 0, deleteSocket P connectionFD w))"

section \<open>launchClient.c\<close>

text \<open>The handler takes every child that ended; \<open>current\<close> is \<^verbatim>\<open>current_concurrent\<close>.\<close>

partial_function (option) trat_sigchld :: "'w posix \<Rightarrow> int \<Rightarrow> 'w \<Rightarrow> (int \<times> 'w) option" where
  "trat_sigchld P current w =
     (let (r, w) = p_waitpid P False w
      in if r > 0 then trat_sigchld P (current - 1) w else Some (current, w))"

text \<open>The child: its own results file on descriptor 2, then the client program.\<close>

definition launch_child :: "'w posix \<Rightarrow> string list \<Rightarrow> int \<Rightarrow> 'w \<Rightarrow> stop \<times> 'w" where
  "launch_child P argv i w =
     (let (fd, w) = p_open P (''client_'' @ show_int i) w;
          w = (if fd < 0 then p_perror P ''Opening client results file'' w
               else p_close P fd (p_dup2 P fd 2 w));
          cmd = [''clientSocket'', argv ! 2, argv ! 3, argv ! 4];
          (ok, w) = p_exec P cmd w
      in if ok then (Exec cmd, w) else (Exit 1, p_perror P ''Error loading clientSocket'' w))"

text \<open>A signal may come in every round, after the fork.\<close>

partial_function (option) launch_loop ::
  "'w posix \<Rightarrow> string list \<Rightarrow> int \<Rightarrow> int \<Rightarrow> int \<Rightarrow> int \<Rightarrow> int \<Rightarrow> 'w \<Rightarrow> ((stop + int \<times> int) \<times> 'w) option" where
  "launch_loop P argv fd i nclients current mx w =
     (if i < nclients then
        let (pidh, w) = p_fork P w
        in if pidh = -1 then Some (Inl (Exit 1), p_perror P ''Error creating client process'' w)
           else if pidh = 0 then (let (e, w) = launch_child P argv i w in Some (Inl e, w))
           else let (s, w) = p_sigchld P w
                in case (if s then trat_sigchld P current w else Some (current, w)) of
                     None \<Rightarrow> None
                   | Some (current, w) \<Rightarrow>
                       let current = current + 1
                       in if current > mx
                          then launch_loop P argv fd (i + 1) nclients current current (snd (p_write P fd
                                 (''CURRENT MAX CONCURRENT CLIENTS: '' @ show_int current @ newline) w))
                          else launch_loop P argv fd (i + 1) nclients current mx w
      else Some (Inr (current, mx), w))"

partial_function (option) wait_all :: "'w posix \<Rightarrow> 'w \<Rightarrow> 'w option" where
  "wait_all P w = (let (r, w) = p_waitpid P True w in if r > 0 then wait_all P w else Some w)"

definition launch_main :: "'w posix \<Rightarrow> string list \<Rightarrow> 'w \<Rightarrow> (stop \<times> 'w) option" where
  "launch_main P argv w =
     (let (init_t, w) = p_gettimeofday P w
      in if length argv \<noteq> 5 then
           let line = ''usage: '' @ argv ! 0 @ '' num_clients num_it hostname port'' @ newline
           in if length line \<ge> BUF_SIZE then Some (Out_of_bounds, w) else Some (Exit 1, snd (p_write P 1 line w))
         else let nclients = atoi (argv ! 1);
                  (fd, w) = p_open P ''launch_info'' w
              in case launch_loop P argv fd 0 nclients 0 0 w of
                   None \<Rightarrow> None
                 | Some (Inl e, w) \<Rightarrow> Some (e, w)
                 | Some (Inr (current, mx), w) \<Rightarrow>
                     (case wait_all P w of
                        None \<Rightarrow> None
                      | Some w \<Rightarrow>
                          let w = snd (p_write P fd (''MAX CONCURRENT CLIENTS: '' @ show_int mx @ newline) w);
                              (end_t, w) = p_gettimeofday P w;
                              w = snd (p_write P fd
                                    (''Time '' @ show_int (elapsed_msec end_t init_t) @ '' msec'' @ newline) w)
                          in Some (Exit 0, p_close P fd w)))"

end
