(* ===== verification/SocketsSpec.thy ===== *)
theory SocketsSpec
  imports Sockets
begin

text \<open>
  The servers of SOCKETS: a service that ends when its client closes, the sizes at which the
  buffers overflow, and the limit on the children of the bounded server.
\<close>

section \<open>Texts\<close>

lemma digits_length: "n < 10 ^ k \<Longrightarrow> 0 < k \<Longrightarrow> length (digits n) \<le> k"
proof (induction k arbitrary: n)
  case (Suc k)
  show ?case
  proof (cases "n < 10")
    case True
    then show ?thesis
      by (simp add: digits.simps)
  next
    case False
    then have "n div 10 < 10 ^ k" "0 < k"
      using Suc.prems(1) by (auto simp: div_less_iff_less_mult mult.commute intro: gr0I)
    then show ?thesis
      using Suc.IH False by (subst digits.simps) simp
  qed
qed simp

lemma show_int_length: "0 \<le> n \<Longrightarrow> n < 10 ^ k \<Longrightarrow> 0 < k \<Longrightarrow> length (show_int n) \<le> k"
  using digits_length [of "nat n" k] by (simp add: show_int_def nat_less_iff)

lemma c_string_length: "length (c_string cs) \<le> length cs"
  by (simp add: c_string_def length_takeWhile_le)

lemma c_string_cut: "n < length cs \<Longrightarrow> length (c_string (cs[n := CHR 0x00])) \<le> n"
proof -
  assume n: "n < length cs"
  have "cs[n := CHR 0x00] = take n cs @ CHR 0x00 # drop (Suc n) cs"
    using n by (simp add: upd_conv_take_nth_drop)
  then have "c_string (cs[n := CHR 0x00]) = c_string (take n cs)"
    unfolding c_string_def by (simp add: takeWhile_tail)
  then show ?thesis
    using c_string_length [of "take n cs"] n by simp
qed

lemma c_string_read:
  assumes "CHR 0x00 \<notin> set c" and "length c < length buff"
  shows "c_string ((read_into c buff)[length c := CHR 0x00]) = c"
proof -
  have "(read_into c buff)[length c := CHR 0x00] = c @ CHR 0x00 # drop (Suc (length c)) buff"
    using assms(2) by (simp add: read_into_def list_update_append upd_conv_take_nth_drop)
  then show ?thesis
    using assms(1) by (auto simp: c_string_def takeWhile_append)
qed

lemma read_into_length: "length d \<le> length buff \<Longrightarrow> length (read_into d buff) = length buff"
  by (simp add: read_into_def)

section \<open>A whole conversation\<close>

text \<open>
  \<open>dialogue P fd w cs w'\<close>: the client on the other side of \<open>fd\<close> sends the messages \<open>cs\<close>, one per read,
  and closes; each is shown and answered.
\<close>

inductive dialogue :: "'w posix \<Rightarrow> int \<Rightarrow> 'w \<Rightarrow> string list \<Rightarrow> 'w \<Rightarrow> bool" for P fd where
  closes: "p_read P fd 80 w = (0, [], w') \<Longrightarrow> dialogue P fd w [] w'"
| says: "p_read P fd 80 w = (int (length c), c, w1) \<Longrightarrow> c \<noteq> [] \<Longrightarrow> CHR 0x00 \<notin> set c \<Longrightarrow>
    length (show_int (p_getpid P w1)) + length c \<le> 58 \<Longrightarrow>
    p_write P 1 (''Server ['' @ show_int (p_getpid P w1) @ ''] received: '' @ c @ newline) w1 = (n, w2) \<Longrightarrow>
    p_write P fd ''caracola'' w2 = (r, w3) \<Longrightarrow> 0 \<le> r \<Longrightarrow> dialogue P fd w3 cs w' \<Longrightarrow> dialogue P fd w (c # cs) w'"

lemma dialogue_loop:
  assumes "dialogue P fd w cs w'" and "length buff = 80"
  shows "\<exists>d w1 ret. p_read P fd 80 w = (ret, d, w1) \<and> service_loop P fd ret (read_into d buff) w1 = Some (Inr 0, w')"
  using assms
proof (induction arbitrary: buff rule: dialogue.induct)
  case (closes w w')
  then show ?case
    by (simp add: service_loop.simps)
next
  case (says w c w1 n w2 r w3 cs w')
  let ?buff = "(read_into c buff)[length c := CHR 0x00]"
  have len: "length c < 80" "length ?buff = 80"
    using says.hyps(4) says.prems by (simp_all add: read_into_length)
  obtain d w4 ret where ih: "p_read P fd 80 w3 = (ret, d, w4)" "service_loop P fd ret (read_into d ?buff) w4 = Some (Inr 0, w')"
    using says.IH [OF len(2)] by blast
  have line: "received_line P ?buff w1 = ''Server ['' @ show_int (p_getpid P w1) @ ''] received: '' @ c @ newline"
    using c_string_read [OF says.hyps(3), of buff] len(1) says.prems by (simp add: received_line_def)
  have "length (received_line P ?buff w1) < 80"
    using says.hyps(4) by (simp add: line)
  then have "service_loop P fd (int (length c)) (read_into c buff) w1 = Some (Inr 0, w')"
    using says.hyps(2,5-7) len(1) ih by (subst service_loop.simps) (simp add: line Let_def)
  with says.hyps(1) show ?case
    by simp
qed

text \<open>
  C39: a service ends.  When the client sends messages that fit and then closes, doService shows every
  message, answers each with "caracola", announces the end and returns, whatever else the
  operating system does.
\<close>

theorem service_ends:
  assumes "dialogue P fd w cs w'" and "length buff = 80"
  shows "doService P buff fd w = Some (Inr (), snd (p_write P 1
    (''Server ['' @ show_int (p_getpid P w') @ ''] ends service'' @ newline) w'))"
  using dialogue_loop [OF assms] by (auto simp: doService_def)

text \<open>A scripted client: what it still sends, and everything written so far, by descriptor.\<close>

type_synonym script = "string list \<times> (int \<times> string) list"

definition script_posix :: "script posix" where
  "script_posix = \<lparr>p_socket = Pair 3, p_bind = \<lambda>_ _. Pair 0, p_listen = \<lambda>_ _ w. w, p_accept = \<lambda>_. Pair 4,
     p_connect = \<lambda>_ _. Pair 0, p_gethostbyname = \<lambda>_. Pair None, p_open = \<lambda>_. Pair 5, p_close = \<lambda>_ w. w,
     p_dup2 = \<lambda>_ _ w. w,
     p_read = \<lambda>_ n (ins, out). (case ins of [] \<Rightarrow> (0, [], ([], out)) | c # cs \<Rightarrow>
        (int (length (take n c)), take n c, (cs, out))),
     p_write = \<lambda>fd s (ins, out). (int (length s), (ins, out @ [(fd, s)])), p_perror = \<lambda>_ w. w,
     p_getpid = \<lambda>_. 77, p_fork = Pair 78, p_exec = \<lambda>_. Pair True, p_waitpid = \<lambda>_. Pair (-1),
     p_sigchld = Pair True, p_pthread_create = \<lambda>_ w. (0, 1, w), p_pthread_detach = \<lambda>_ w. w,
     p_gettimeofday = Pair (0, 0)\<rparr>"

lemma script_simps:
  "p_read script_posix fd n ([], out) = (0, [], ([], out))"
  "p_read script_posix fd n (c # cs, out) = (int (length (take n c)), take n c, (cs, out))"
  "p_write script_posix fd s (ins, out) = (int (length s), (ins, out @ [(fd, s)]))"
  "p_getpid script_posix w = 77"
  by (simp_all add: script_posix_def)

theorem service_ends_witness:
  "doService script_posix (replicate 80 CHR ''x'') 4 ([''hola ''], []) =
     Some (Inr (), [], [(1, ''Server [77] received: hola '' @ newline), (4, ''caracola''), (1, ''Server [77] ends service'' @ newline)])"
proof -
  have pid: "show_int 77 = ''77''"
    by code_simp
  have "dialogue script_posix 4 ([''hola ''], []) [''hola '']
      ([], [(1, ''Server [77] received: hola '' @ newline), (4, ''caracola'')])"
    using says [of script_posix 4 "([''hola ''], [])" "''hola ''" "([], [])" _ "([], [(1, ''Server [77] received: hola '' @ newline)])"]
      closes [of script_posix 4 "([], out)" "([], out)" for out] by (simp add: script_simps pid)
  from service_ends [OF this, of "replicate 80 CHR ''x''"] show ?thesis
    by (simp add: script_simps pid)
qed

section \<open>The size of a message\<close>

text \<open>Reads give at most \<open>n\<close> characters, and process identifiers have at most seven digits.\<close>

definition small_reads :: "'w posix \<Rightarrow> nat \<Rightarrow> bool" where
  "small_reads P n \<longleftrightarrow> (\<forall>fd k w r d w'. p_read P fd k w = (r, d, w') \<longrightarrow> r \<le> int n \<and> length d \<le> n) \<and>
     (\<forall>w. 0 \<le> p_getpid P w \<and> p_getpid P w < 10 ^ 7)"

lemma small_readsD: "small_reads P n \<Longrightarrow> p_read P fd k w = (r, d, w') \<Longrightarrow> r \<le> int n \<and> length d \<le> n"
  unfolding small_reads_def by blast

lemma received_line_length:
  assumes "small_reads P n" and "length (c_string buff) \<le> 51"
  shows "length (received_line P buff w) < 80"
proof -
  have "length (show_int (p_getpid P w)) \<le> 7"
    using assms(1) by (intro show_int_length) (simp_all add: small_reads_def)
  then show ?thesis
    using assms(2) by (simp add: received_line_def)
qed

lemma service_loop_safe:
  assumes "service_loop P fd ret buff w = Some y"
  shows "small_reads P 51 \<longrightarrow> ret \<le> 51 \<longrightarrow> length buff = 80 \<longrightarrow> (\<forall>e. fst y = Inl e \<longrightarrow> e = Exit 1)"
proof -
  let ?Q = "\<lambda>((((P, fd), ret), buff), w) y. small_reads P 51 \<longrightarrow> ret \<le> 51 \<longrightarrow> length buff = 80 \<longrightarrow>
    (\<forall>e. fst y = Inl e \<longrightarrow> e = Exit 1)"
  have "?Q ((((P, fd), ret), buff), w) y"
  proof (rule service_loop.raw_induct [where ?Pa = ?Q, OF _ assms], unfold prod.case, intro impI)
    fix loop and P :: "'w posix" and fd ret buff w y
    assume IH: "\<And>P fd ret buff w y. loop P fd ret buff w = Some y \<Longrightarrow> small_reads P 51 \<longrightarrow> ret \<le> 51 \<longrightarrow>
        length buff = 80 \<longrightarrow> (\<forall>e. fst y = Inl e \<longrightarrow> e = Exit 1)"
      and body: "(if 0 < ret
        then if 80 \<le> nat ret then Some (Inl Out_of_bounds, w)
             else let buff = buff[nat ret := CHR 0x00]; line = received_line P buff w
                  in if 80 \<le> length line then Some (Inl Out_of_bounds, w)
                     else let w = snd (p_write P 1 line w); (ret, w) = p_write P fd (take 8 ''caracola '') w
                          in if ret < 0 then Some (Inl (Exit 1), p_perror P ''Error writing to socket'' w)
                             else let (ret, d, w) = p_read P fd 80 w in loop P fd ret (read_into d buff) w
        else Some (Inr ret, w)) = Some y"
      and small: "small_reads P 51" and ret: "ret \<le> 51" and len: "length buff = 80"
    show "\<forall>e. fst y = Inl e \<longrightarrow> e = Exit 1"
    proof (cases "ret > 0")
      case True
      let ?buff = "buff[nat ret := CHR 0x00]"
      have "length (c_string ?buff) \<le> nat ret" "nat ret \<le> 51"
        using c_string_cut [of "nat ret" buff] ret len by simp_all
      then have nr: "\<not> 80 \<le> nat ret"
        by linarith
      have fits: "\<not> 80 \<le> length (received_line P ?buff w)"
        using received_line_length [OF small, of ?buff w] \<open>length (c_string ?buff) \<le> nat ret\<close> \<open>nat ret \<le> 51\<close> by linarith
      obtain r w2 where w2: "p_write P fd (take 8 ''caracola '') (snd (p_write P 1 (received_line P ?buff w) w)) = (r, w2)"
        by (cases "p_write P fd (take 8 ''caracola '') (snd (p_write P 1 (received_line P ?buff w) w))")
      obtain r' d w3 where w3: "p_read P fd 80 w2 = (r', d, w3)"
        by (cases "p_read P fd 80 w2")
      have small': "r' \<le> 51" "length (read_into d ?buff) = 80"
        using small_readsD [OF small w3] len by (simp_all add: read_into_length)
      show ?thesis
      proof (cases "r < 0")
        case neg: True
        then show ?thesis
          using body True nr fits w2 by (auto simp: Let_def)
      next
        case False
        then have "loop P fd r' (read_into d ?buff) w3 = Some y"
          using body True nr fits w2 w3 by (simp add: Let_def)
        from IH [OF this] show ?thesis
          using small small' by blast
      qed
    qed (use body in auto)
  qed
  then show ?thesis
    by simp
qed

text \<open>
  C40: messages of at most 51 bytes are safe: then a service never writes outside its buffers and
  ends, if it does, by returning or with status 1 after a failed write.  A read that fills the
  80 characters makes it store the NUL behind the array.
\<close>

theorem service_buffer_bounds:
  assumes "length buff = 80"
  shows "(small_reads P 51 \<longrightarrow> doService P buff fd w = Some (Inl e, w') \<longrightarrow> e = Exit 1) \<and>
    (p_read P fd 80 w = (80, d, w1) \<longrightarrow> doService P buff fd w = Some (Inl Out_of_bounds, w1))"
proof (intro conjI impI)
  assume small: "small_reads P 51" and d: "doService P buff fd w = Some (Inl e, w')"
  obtain r d' w2 where r: "p_read P fd 80 w = (r, d', w2)"
    by (cases "p_read P fd 80 w")
  then have l: "r \<le> 51" "length (read_into d' buff) = 80"
    using small_readsD [OF small r] assms by (simp_all add: read_into_length)
  have "service_loop P fd r (read_into d' buff) w2 = Some (Inl e, w')"
    using d r by (auto simp: doService_def Let_def split: option.splits sum.splits)
  from service_loop_safe [OF this] show "e = Exit 1"
    using small l by simp
next
  assume "p_read P fd 80 w = (80, d, w1)"
  then show "doService P buff fd w = Some (Inl Out_of_bounds, w1)"
    by (simp add: doService_def service_loop.simps)
qed

theorem service_buffer_bounds_witness:
  "doService script_posix (replicate 80 CHR ''x'') 4 ([replicate 80 CHR ''y''], []) = Some (Inl Out_of_bounds, ([], []))"
  using service_buffer_bounds [of "replicate 80 CHR ''x''" script_posix 4 "([replicate 80 CHR ''y''], [])" _ _
      "replicate 80 CHR ''y''" "([], [])"] by (simp add: script_posix_def)

section \<open>The bounded server\<close>

lemma await_child_below:
  assumes "await_child P mx alive w = Some y"
  shows "fst y < mx \<and> fst y \<le> alive"
proof -
  let ?Q = "\<lambda>(((P, mx), alive), w) y. fst y < mx \<and> fst y \<le> alive"
  have "?Q (((P, mx), alive), w) y"
  proof (rule await_child.raw_induct [where ?Pa = ?Q, OF _ assms], unfold prod.case)
    fix loop and P :: "'w posix" and mx alive w y
    assume IH: "\<And>P mx alive w y. loop P mx alive w = Some y \<Longrightarrow> fst y < mx \<and> fst y \<le> alive"
      and body: "(if mx \<le> alive
        then let (s, w) = p_sigchld P w; (alive, w) = if s then proc_exit P alive w else (alive, w)
             in loop P mx alive w
        else Some (alive, w)) = Some y"
    obtain s w1 where s: "p_sigchld P w = (s, w1)"
      by (cases "p_sigchld P w")
    obtain a w2 where a: "(if s then proc_exit P alive w1 else (alive, w1)) = (a, w2)" "a \<le> alive"
      by (cases "if s then proc_exit P alive w1 else (alive, w1)") (auto simp: proc_exit_def case_prod_beta split: if_splits)
    show "fst y < mx \<and> fst y \<le> alive"
      using body IH [of P mx a w2 y] s a by (cases "mx \<le> alive") auto
  qed
  then show ?thesis
    by simp
qed

lemma doServiceFork_parent: "doServiceFork P buff fd alive w = Some (Inr a, w') \<Longrightarrow> a = alive + 1"
  by (auto simp: doServiceFork_def Let_def split: option.splits sum.splits if_splits)

text \<open>
  The bounded server respects its bound.  In a round that comes through, the wait only ever lowered
  the count of children, it ended below the bound, and the fork raised it by one, so the count
  never passes the bound.
\<close>

theorem bound_respected:
  assumes "await_child P maxChild alive w = Some (a, w1)" and "doServiceFork P buff fd a w1 = Some (Inr a', w2)"
  shows "a \<le> alive \<and> a < maxChild \<and> a' = a + 1 \<and> a' \<le> maxChild"
  using await_child_below [OF assms(1)] doServiceFork_parent [OF assms(2)] by simp

theorem bound_respected_witness:
  "\<exists>a'. doServiceFork script_posix [] 4 2 ([], []) = Some (Inr a', ([], [])) \<and> a' = 3"
proof -
  have p: "p_sigchld script_posix w = (True, w)" "p_waitpid script_posix b w = (-1, w)" "p_fork script_posix w = (78, w)" for w b
    by (simp_all add: script_posix_def)
  have "await_child script_posix 3 3 ([], []) = Some (2, ([], []))"
    using await_child.simps [of script_posix 3 3 "([], [])"] await_child.simps [of script_posix 3 2 "([], [])"]
    by (simp add: p proc_exit_def)
  moreover have "fork_until script_posix (-1) ([], []) = Some (78, ([], []))"
    using fork_until.simps [of script_posix "-1" "([], [])"] fork_until.simps [of script_posix 78 "([], [])"]
    by (simp add: p)
  then have "doServiceFork script_posix [] 4 2 ([], []) = Some (Inr 3, ([], []))"
    by (simp add: doServiceFork_def)
  ultimately show ?thesis
    using bound_respected [of script_posix 3 3 "([], [])" 2 "([], [])" "[]" 4 3 "([], [])"] by simp
qed

end
