(* ===== verification/LibC.thy ===== *)
theory LibC
  imports Prelude "HOL-Library.Monad_Syntax"
begin

text \<open>
  The user side: libc.c, the return path of the system call wrappers of user-utils.S, and
  the computing parts of user.c.  A \<^verbatim>\<open>char *\<close> that a routine fills is a function from
  offsets to bytes.
\<close>

type_synonym buf = "nat \<Rightarrow> byte"

section \<open>itoa and strlen\<close>

function itoa_digits :: "int \<Rightarrow> nat \<Rightarrow> buf \<Rightarrow> nat \<times> buf" where
  "itoa_digits a i b =
     (if a > 0 then itoa_digits (a div 10) (i + 1) (b(i := of_int (a mod 10) + 0x30)) else (i, b))"
  by pat_completeness auto
termination
  by (relation "measure (\<lambda>(a, i, b). nat a)") auto

declare itoa_digits.simps [simp del]

definition itoa_swap :: "nat \<Rightarrow> nat \<Rightarrow> buf \<Rightarrow> buf" where
  "itoa_swap i i1 b =
     (let c = b i1;
          b = b(i1 := b (i - i1 - 1))
      in b(i - i1 - 1 := c))"

definition itoa :: "cint \<Rightarrow> buf \<Rightarrow> buf" where
  "itoa a b =
     (if a = 0 then b(0 := 0x30, 1 := 0)
      else let (i, b) = itoa_digits (sint a) 0 b;
               b = fold (itoa_swap i) [0..<i div 2] b
           in b(i := 0))"

text \<open>The loop of \<^verbatim>\<open>strlen\<close> ends only at a NUL; \<open>None\<close> is not ending.\<close>

partial_function (option) strlen_from :: "buf \<Rightarrow> nat \<Rightarrow> nat option" where
  "strlen_from a i = (if a i \<noteq> 0 then strlen_from a (i + 1) else Some i)"

definition strlen :: "buf \<Rightarrow> nat option" where
  "strlen a = strlen_from a 0"

section \<open>The return path of the wrappers\<close>

text \<open>\<^verbatim>\<open>test %eax, %eax; js nok\<close>: a negative result sets \<^verbatim>\<open>errno\<close> and becomes -1.\<close>

definition syscall_return :: "cint \<Rightarrow> cint \<Rightarrow> cint \<times> cint" where
  "syscall_return errno eax = (if sint eax < 0 then (- eax, -1) else (errno, eax))"

text \<open>\<^verbatim>\<open>perror\<close> passes this to \<^verbatim>\<open>write(1, buffer, strlen(buffer))\<close>.\<close>

definition perror_text :: "cint \<Rightarrow> buf \<Rightarrow> (buf \<times> nat) option" where
  "perror_text errno buffer =
     (let buffer = itoa errno buffer in do { n \<leftarrow> strlen buffer; Some (buffer, n) })"

section \<open>user.c\<close>

text \<open>Signed arithmetic of C: \<open>None\<close> when the result is no \<^verbatim>\<open>int\<close>, which C leaves undefined.\<close>

definition int_result :: "int \<Rightarrow> cint option" where
  "int_result r = (if - (2 ^ 31) \<le> r \<and> r < 2 ^ 31 then Some (of_int r) else None)"

text \<open>
  Every call takes a frame of the user's stack, of which the first argument says how many are left;
  without one the program faults, which is \<open>None\<close> too.
\<close>

fun badfib :: "nat \<Rightarrow> cint \<Rightarrow> cint option" where
  "badfib 0 n = None"
| "badfib (Suc frames) n =
     (if n = 0 then Some 0
      else if n = 1 then Some 1
      else do {
        m \<leftarrow> int_result (sint n - 1);
        x \<leftarrow> badfib frames m;
        m \<leftarrow> int_result (sint n - 2);
        y \<leftarrow> badfib frames m;
        int_result (sint x + sint y) })"

text \<open>One field of the line: a separator over the NUL, then the number behind it.\<close>

definition put_field :: "cint \<Rightarrow> buf \<Rightarrow> (buf \<times> nat) option" where
  "put_field v buff = do {
     mx \<leftarrow> strlen buff;
     let buff = buff(mx := 0x20);
         field = itoa v (\<lambda>i. buff (mx + 1 + i))
     in Some (\<lambda>i. if i \<le> mx then buff i else field (i - (mx + 1)), mx) }"

text \<open>The text \<^verbatim>\<open>writeStats\<close> builds when \<^verbatim>\<open>get_stats\<close> succeeds, with the length it writes.\<close>

definition stats_line :: "cint \<Rightarrow> dword \<Rightarrow> dword \<Rightarrow> dword \<Rightarrow> dword \<Rightarrow> buf \<Rightarrow> (buf \<times> nat) option" where
  "stats_line wl user blkd ready system buff = do {
     let buff = itoa wl buff in do {
       (buff, _) \<leftarrow> put_field user buff;
       (buff, _) \<leftarrow> put_field blkd buff;
       (buff, _) \<leftarrow> put_field ready buff;
       (buff, _) \<leftarrow> put_field system buff;
       mx \<leftarrow> strlen buff;
       Some (buff(mx := 0x0A), mx + 1) } }"

section \<open>What the digits are\<close>

text \<open>Decimal notation, most significant digit first; zero is the one digit 0.\<close>

function decimal :: "nat \<Rightarrow> byte list" where
  "decimal n = (if n < 10 then [of_nat n + 0x30] else decimal (n div 10) @ [of_nat (n mod 10) + 0x30])"
  by pat_completeness auto
termination
  by (relation "measure id") auto

declare decimal.simps [simp del]

definition buf_list :: "buf \<Rightarrow> nat \<Rightarrow> byte list" where
  "buf_list b n = map b [0..<n]"

text \<open>What a program reads from a buffer: the bytes up to the NUL.\<close>

definition holds_string :: "buf \<Rightarrow> byte list \<Rightarrow> bool" where
  "holds_string b cs \<longleftrightarrow> 0 \<notin> set cs \<and> buf_list b (length cs) = cs \<and> b (length cs) = 0"

lemma decimal_nonempty: "decimal n \<noteq> []"
  by (subst decimal.simps) simp

lemma digit_nonzero: "d < 10 \<Longrightarrow> (of_nat d :: byte) + 0x30 \<noteq> 0"
proof
  assume d: "d < 10" and "(of_nat d :: byte) + 0x30 = 0"
  then have "unat ((of_nat d :: byte) + 0x30) = 0"
    by simp
  moreover have "unat ((of_nat d :: byte) + 0x30) = d + 48"
    using d by (simp add: unat_word_ariths unat_of_nat)
  ultimately show False by simp
qed

lemma decimal_nonzero: "0 \<notin> set (decimal n)"
proof (induction n rule: decimal.induct)
  case (1 n)
  have "(of_nat (n mod 10) :: byte) + 0x30 \<noteq> 0"
    by (rule digit_nonzero) simp
  moreover have "n < 10 \<Longrightarrow> (of_nat n :: byte) + 0x30 \<noteq> 0"
    by (rule digit_nonzero)
  ultimately show ?case
    using 1 by (subst decimal.simps) (auto dest: sym)
qed

lemma strlen_from_reaches:
  "(\<And>k. i \<le> k \<Longrightarrow> k < n \<Longrightarrow> b k \<noteq> 0) \<Longrightarrow> b n = 0 \<Longrightarrow> i \<le> n \<Longrightarrow> strlen_from b i = Some n"
proof (induction "n - i" arbitrary: i)
  case 0
  then show ?case by (simp add: strlen_from.simps)
next
  case (Suc d)
  then have "b i \<noteq> 0" and "d = n - (i + 1)" and "i + 1 \<le> n"
    by auto
  then have "strlen_from b (i + 1) = Some n"
    using Suc by simp
  with \<open>b i \<noteq> 0\<close> show ?case
    by (simp add: strlen_from.simps [of b i])
qed

lemma holds_string_nth:
  "holds_string b cs \<longleftrightarrow> (\<forall>k < length cs. b k = cs ! k \<and> cs ! k \<noteq> 0) \<and> b (length cs) = 0"
proof -
  have "map b [0..<length cs] = cs \<longleftrightarrow> (\<forall>k < length cs. b k = cs ! k)"
    unfolding list_eq_iff_nth_eq [of "map b [0..<length cs]"] by simp
  moreover have "0 \<notin> set cs \<longleftrightarrow> (\<forall>k < length cs. cs ! k \<noteq> 0)"
    by (metis in_set_conv_nth)
  ultimately show ?thesis
    by (auto simp: holds_string_def buf_list_def)
qed

lemma strlen_string: "holds_string b cs \<Longrightarrow> strlen b = Some (length cs)"
  unfolding strlen_def by (rule strlen_from_reaches) (auto simp: holds_string_nth)

section \<open>The loops of itoa\<close>

text \<open>The first loop writes the digits, least significant first.\<close>

lemma itoa_digits_zero [simp]: "itoa_digits 0 i b = (i, b)"
  by (simp add: itoa_digits.simps)

lemma itoa_digits_eq:
  "0 < n \<Longrightarrow>
   fst (itoa_digits (int n) i b) = i + length (decimal n) \<and>
   (\<forall>k < i. snd (itoa_digits (int n) i b) k = b k) \<and>
   (\<forall>k < length (decimal n). snd (itoa_digits (int n) i b) (i + k) = rev (decimal n) ! k)"
proof (induction n arbitrary: i b rule: less_induct)
  case (less n)
  let ?b = "b(i := of_nat (n mod 10) + 0x30)"
  have step: "itoa_digits (int n) i b = itoa_digits (int (n div 10)) (i + 1) ?b"
  proof -
    have "int n div 10 = int (n div 10)" and "int n mod 10 = int (n mod 10)"
      by (simp_all add: zdiv_int zmod_int)
    then show ?thesis
      using less.prems by (subst itoa_digits.simps) (simp only: of_int_of_nat_eq of_nat_0_less_iff if_True)
  qed
  show ?case
  proof (cases "n < 10")
    case True
    then have "n div 10 = 0" "decimal n = [of_nat n + 0x30]"
      by (simp_all add: decimal.simps)
    then show ?thesis
      using True by (simp add: step)
  next
    case False
    then have d: "decimal n = decimal (n div 10) @ [of_nat (n mod 10) + 0x30]"
      by (simp add: decimal.simps [of n])
    have p: "n div 10 < n" "0 < n div 10"
      using less.prems False by auto
    note ih = less.IH [OF p, of "i + 1" ?b]
    have IH: "fst (itoa_digits (int (n div 10)) (i + 1) ?b) = i + 1 + length (decimal (n div 10))"
      "\<And>k. k < i + 1 \<Longrightarrow> snd (itoa_digits (int (n div 10)) (i + 1) ?b) k = ?b k"
      "\<And>k. k < length (decimal (n div 10)) \<Longrightarrow>
         snd (itoa_digits (int (n div 10)) (i + 1) ?b) (i + 1 + k) = rev (decimal (n div 10)) ! k"
      using ih by blast+
    show ?thesis
      unfolding step d
    proof (intro conjI allI impI)
      fix k
      assume "k < length (decimal (n div 10) @ [of_nat (n mod 10) + 0x30])"
      then show "snd (itoa_digits (int (n div 10)) (i + 1) ?b) (i + k)
          = rev (decimal (n div 10) @ [of_nat (n mod 10) + 0x30]) ! k"
        using IH(2) [of i] IH(3) [of "k - 1"] by (cases k) auto
    next
      fix k
      assume "k < i"
      then show "snd (itoa_digits (int (n div 10)) (i + 1) ?b) k = b k"
        using IH(2) [of k] by simp
    qed (use IH(1) in simp)
  qed
qed

text \<open>The second loop reverses the first \<open>n\<close> bytes.\<close>

lemma itoa_swap_loop:
  assumes "j \<le> n div 2"
  shows "fold (itoa_swap n) [0..<j] b k =
    (if k < j \<or> n - j \<le> k \<and> k < n then b (n - 1 - k) else b k)"
  using assms
proof (induction j arbitrary: k)
  case (Suc j)
  let ?f = "fold (itoa_swap n) [0..<j] b"
  have IH: "?f k = (if k < j \<or> n - j \<le> k \<and> k < n then b (n - 1 - k) else b k)" for k
    using Suc by simp
  have "fold (itoa_swap n) [0..<Suc j] b k = itoa_swap n j ?f k"
    by simp
  also have "\<dots> = (if k = n - j - 1 then ?f j else if k = j then ?f (n - j - 1) else ?f k)"
    by (simp add: itoa_swap_def Let_def)
  also have "\<dots> = (if k < Suc j \<or> n - Suc j \<le> k \<and> k < n then b (n - 1 - k) else b k)"
  proof -
    have j: "j < n - j - 1 \<or> n = 0"
      using Suc.prems by linarith
    consider "k = n - j - 1" | "k = j" "k \<noteq> n - j - 1" | "k \<noteq> j" "k \<noteq> n - j - 1"
      by blast
    then show ?thesis
    proof cases
      case 3
      then have "k < Suc j \<or> n - Suc j \<le> k \<and> k < n \<longleftrightarrow> k < j \<or> n - j \<le> k \<and> k < n"
        using Suc.prems by linarith
      with 3 show ?thesis by (simp only: IH if_False)
    qed (use Suc.prems in \<open>auto simp: IH\<close>)
  qed
  finally show ?case .
qed auto

lemma itoa_reverse:
  "k < n \<Longrightarrow> fold (itoa_swap n) [0..<n div 2] b k = b (n - 1 - k)"
proof -
  assume k: "k < n"
  have "k < n div 2 \<or> n - n div 2 \<le> k \<and> k < n \<or> k = n - 1 - k"
    using k by linarith
  then show ?thesis
    using itoa_swap_loop [of "n div 2" n b k] k by auto
qed

section \<open>itoa writes decimal notation\<close>

lemma sint_nonneg_unat: "0 \<le> sint (a :: cint) \<Longrightarrow> sint a = int (unat a)"
proof -
  assume "0 \<le> sint a"
  moreover have "sint a < 2 ^ 31"
    using sint_less [of a] by simp
  ultimately have "uint a = sint a"
    by (simp add: uint_sint take_bit_int_eq_self)
  then show ?thesis by simp
qed

lemma itoa_string:
  assumes "0 \<le> sint a"
  shows "holds_string (itoa a b) (decimal (unat a))"
proof (cases "a = 0")
  case True
  then show ?thesis
    by (simp add: itoa_def holds_string_def buf_list_def decimal.simps)
next
  case False
  let ?n = "unat a"
  let ?D = "itoa_digits (sint a) 0 b"
  have n: "0 < ?n"
    using False by (simp add: unat_gt_0)
  have "sint a = int ?n"
    by (rule sint_nonneg_unat [OF assms])
  then have D: "fst ?D = length (decimal ?n)"
    and Dk: "\<And>k. k < length (decimal ?n) \<Longrightarrow> snd ?D k = rev (decimal ?n) ! k"
    using itoa_digits_eq [OF n, of 0 b] by simp_all
  have "itoa a b = (fold (itoa_swap (fst ?D)) [0..<fst ?D div 2] (snd ?D))(fst ?D := 0)"
    using False by (simp add: itoa_def Let_def case_prod_beta)
  then have eq: "itoa a b k = decimal ?n ! k" if "k < length (decimal ?n)" for k
    using that itoa_reverse [OF that, of "snd ?D"] Dk [of "length (decimal ?n) - 1 - k"]
    by (simp add: D rev_nth)
  have z: "itoa a b (length (decimal ?n)) = 0"
    using False by (simp add: itoa_def Let_def case_prod_beta D)
  show ?thesis
    unfolding holds_string_nth
    using eq z decimal_nonzero [of ?n] by (metis nth_mem)
qed

text \<open>On a negative number the first loop does not run: the result is the empty string.\<close>

lemma itoa_negative:
  assumes "sint a < 0"
  shows "holds_string (itoa a b) []"
proof -
  have "a \<noteq> 0"
    using assms by auto
  then show ?thesis
    using assms by (simp add: itoa_def itoa_digits.simps holds_string_def buf_list_def)
qed

text \<open>Reading the digits back gives the number.\<close>

definition decimal_value :: "byte list \<Rightarrow> nat" where
  "decimal_value cs = foldl (\<lambda>v c. v * 10 + (unat c - 0x30)) 0 cs"

lemma decimal_value_decimal: "decimal_value (decimal n) = n"
proof (induction n rule: decimal.induct)
  case (1 n)
  have digit: "unat ((of_nat d :: byte) + 0x30) - 0x30 = d" if "d < 10" for d
    using that by (simp add: unat_word_ariths unat_of_nat)
  show ?case
  proof (cases "n < 10")
    case True
    then show ?thesis
      by (subst decimal.simps) (simp add: decimal_value_def digit)
  next
    case False
    then have "decimal_value (decimal n) = decimal_value (decimal (n div 10)) * 10 + n mod 10"
      by (subst decimal.simps) (simp add: decimal_value_def digit)
    also have "\<dots> = n"
      using 1 False by simp
    finally show ?thesis .
  qed
qed

section \<open>The line of writeStats\<close>

lemma buf_list_append: "buf_list b (m + n) = buf_list b m @ buf_list (\<lambda>i. b (m + i)) n"
  by (induction n) (simp_all add: buf_list_def)

lemma holds_string_append:
  assumes "buf_list b (length cs) = cs" and "0 \<notin> set cs" and "holds_string (\<lambda>i. b (length cs + i)) ds"
  shows "holds_string b (cs @ ds)"
  using assms by (auto simp: holds_string_def buf_list_append)

text \<open>What \<^verbatim>\<open>itoa\<close> writes for any \<^verbatim>\<open>int\<close>: nothing for a negative one.\<close>

definition num_text :: "cint \<Rightarrow> byte list" where
  "num_text v = (if 0 \<le> sint v then decimal (unat v) else [])"

lemma itoa_text: "holds_string (itoa v b) (num_text v)"
  using itoa_string [of v b] itoa_negative [of v b] by (simp add: num_text_def)

lemma decimal_length: "n < 10 ^ k \<Longrightarrow> 0 < k \<Longrightarrow> length (decimal n) \<le> k"
proof (induction k arbitrary: n)
  case (Suc k)
  show ?case
  proof (cases "n < 10")
    case False
    then have "n div 10 < 10 ^ k" "0 < k"
      using Suc.prems(1) by (auto simp: div_less_iff_less_mult mult.commute intro: gr0I)
    then show ?thesis
      using Suc.IH False by (subst decimal.simps) simp
  qed (simp add: decimal.simps)
qed simp

lemma num_text_length: "length (num_text v) \<le> 10"
  using decimal_length [of "unat v" 10] unat_bound32 [of v] by (simp add: num_text_def)

lemma put_field_string:
  assumes "holds_string b cs"
  shows "\<exists>b'. put_field v b = Some (b', length cs) \<and> holds_string b' (cs @ 0x20 # num_text v)"
proof -
  let ?m = "length cs"
  let ?f = "itoa v (\<lambda>i. (b(?m := 0x20)) (?m + 1 + i))"
  let ?b = "\<lambda>i. if i \<le> ?m then (b(?m := 0x20)) i else ?f (i - (?m + 1))"
  have run: "put_field v b = Some (?b, ?m)"
    by (simp only: put_field_def strlen_string [OF assms] Let_def Option.bind.simps)
  have "buf_list ?b ?m = buf_list b ?m"
    unfolding buf_list_def by (rule map_cong) auto
  also have "\<dots> = cs"
    using assms by (simp add: holds_string_def)
  finally have "buf_list ?b (?m + 1) = cs @ [0x20]"
    unfolding buf_list_append by (simp add: buf_list_def)
  then have "buf_list ?b (length (cs @ [0x20])) = cs @ [0x20]"
    by simp
  moreover have "0 \<notin> set (cs @ [0x20])"
    using assms by (auto simp: holds_string_def)
  moreover have "(\<lambda>i. ?b (length (cs @ [0x20]) + i)) = ?f"
    by (auto simp: fun_eq_iff)
  ultimately have "holds_string ?b ((cs @ [0x20]) @ num_text v)"
    using itoa_text [of v] by (intro holds_string_append) simp_all
  with run show ?thesis by auto
qed

lemma put_field_string_cases:
  assumes "holds_string b cs"
  obtains b' where "put_field v b = Some (b', length cs)"
    and "holds_string b' (cs @ 0x20 # num_text v)"
  using put_field_string [OF assms] by blast

definition stats_text :: "cint \<Rightarrow> dword list \<Rightarrow> byte list" where
  "stats_text wl vs = num_text wl @ concat (map (\<lambda>v. 0x20 # num_text v) vs) @ [0x0A]"

lemma stats_line_text:
  "\<exists>b'. stats_line wl user blkd ready system b =
      Some (b', length (stats_text wl [user, blkd, ready, system])) \<and>
    buf_list b' (length (stats_text wl [user, blkd, ready, system])) =
      stats_text wl [user, blkd, ready, system]"
proof -
  have s0: "holds_string (itoa wl b) (num_text wl)"
    by (rule itoa_text)
  obtain b1 where r1: "put_field user (itoa wl b) = Some (b1, length (num_text wl))"
    and s1: "holds_string b1 (num_text wl @ 0x20 # num_text user)"
    by (rule put_field_string_cases [OF s0])
  obtain b2 n2 where r2: "put_field blkd b1 = Some (b2, n2)"
    and s2: "holds_string b2 ((num_text wl @ 0x20 # num_text user) @ 0x20 # num_text blkd)"
    by (rule put_field_string_cases [OF s1])
  obtain b3 n3 where r3: "put_field ready b2 = Some (b3, n3)"
    and s3: "holds_string b3 (((num_text wl @ 0x20 # num_text user) @ 0x20 # num_text blkd)
      @ 0x20 # num_text ready)"
    by (rule put_field_string_cases [OF s2])
  obtain b4 n4 where r4: "put_field system b3 = Some (b4, n4)"
    and s4: "holds_string b4 ((((num_text wl @ 0x20 # num_text user) @ 0x20 # num_text blkd)
      @ 0x20 # num_text ready) @ 0x20 # num_text system)"
    by (rule put_field_string_cases [OF s3])
  let ?cs = "(((num_text wl @ 0x20 # num_text user) @ 0x20 # num_text blkd)
      @ 0x20 # num_text ready) @ 0x20 # num_text system"
  have line: "stats_text wl [user, blkd, ready, system] = ?cs @ [0x0A]"
    by (simp add: stats_text_def)
  have run: "stats_line wl user blkd ready system b = Some (b4(length ?cs := 0x0A), length ?cs + 1)"
    using strlen_string [OF s4] by (simp add: stats_line_def Let_def r1 r2 r3 r4)
  have "buf_list (b4(length ?cs := 0x0A)) (length ?cs) = buf_list b4 (length ?cs)"
    unfolding buf_list_def by (rule map_cong) auto
  then have "buf_list (b4(length ?cs := 0x0A)) (length ?cs + 1) = ?cs @ [0x0A]"
    using s4 by (simp add: buf_list_append holds_string_def) (simp add: buf_list_def)
  with run show ?thesis
    unfolding line by simp
qed

lemma stats_text_length: "length (stats_text wl [user, blkd, ready, system]) \<le> 55"
  using num_text_length [of wl] num_text_length [of user] num_text_length [of blkd] num_text_length [of ready]
    num_text_length [of system] by (simp add: stats_text_def)

section \<open>badfib\<close>

fun fib :: "nat \<Rightarrow> nat" where
  "fib 0 = 0"
| "fib (Suc 0) = 1"
| "fib (Suc (Suc n)) = fib (Suc n) + fib n"

lemma fib_step: "2 \<le> n \<Longrightarrow> fib n = fib (n - 1) + fib (n - 2)"
  by (cases n rule: fib.cases) simp_all

lemma fib_mono: "m \<le> n \<Longrightarrow> fib m \<le> fib n"
proof (induction n arbitrary: m rule: fib.induct)
  case (3 n)
  then show ?case
    by (cases "m = Suc (Suc n)") (auto intro: trans_le_add1)
next
  case 2
  then show ?case
    by (cases m) auto
qed simp

fun fib_pair :: "nat \<Rightarrow> int \<times> int" where
  "fib_pair 0 = (0, 1)"
| "fib_pair (Suc n) = (let (a, b) = fib_pair n in (b, a + b))"

lemma fib_pair_eq: "fib_pair n = (int (fib n), int (fib (Suc n)))"
  by (induction n) simp_all

lemma fib_bounds: "fib 46 < 2 ^ 31" "2 ^ 31 \<le> fib 47"
proof -
  have "fib_pair 46 = (1836311903, 2971215073)"
    by code_simp
  then have "int (fib 46) = 1836311903" "int (fib (Suc 46)) = 2971215073"
    unfolding fib_pair_eq by blast+
  then show "fib 46 < 2 ^ 31" "2 ^ 31 \<le> fib 47"
    by (simp_all del: fib.simps)
qed

text \<open>
  The sums stay in an \<^verbatim>\<open>int\<close> up to 46; the deepest chain of calls from \<open>n\<close> down to 1 has \<open>n\<close> frames.
  A negative argument only goes down, to the end of the stack or of the \<^verbatim>\<open>int\<close>s.
\<close>

lemma int_result_small: "int_result r = Some m \<longleftrightarrow> - (2 ^ 31) \<le> r \<and> r < 2 ^ 31 \<and> m = of_int r \<and> sint m = r"
  by (auto simp: int_result_def signed_of_int signed_take_bit_int_eq_self)

lemma sint_of_nat_small: "n < 2 ^ 31 \<Longrightarrow> sint (of_nat n :: cint) = int n"
  using int_result_small [of "int n" "of_nat n"] by (simp add: int_result_def)

lemma badfib_value:
  assumes "0 \<le> sint n" and "sint n \<le> 46"
  shows "sint (of_nat (fib (nat (sint n))) :: cint) = int (fib (nat (sint n)))"
proof -
  have "fib (nat (sint n)) \<le> fib 46"
    using assms by (intro fib_mono) simp
  then show ?thesis
    using fib_bounds(1) by (simp add: sint_of_nat_small)
qed

lemma badfib_eq:
  "badfib frames n = (if 0 \<le> sint n \<and> sint n \<le> 46 \<and> max 1 (sint n) \<le> int frames
     then Some (of_nat (fib (nat (sint n)))) else None)"
proof (induction frames arbitrary: n)
  case (Suc frames)
  let ?n = "sint n"
  have range: "- (2 ^ 31) \<le> ?n" "?n < 2 ^ 31"
    using sint_greater_eq [of n] sint_less [of n] by simp_all
  consider "n = 0" | "n = 1" | "n \<noteq> 0" "n \<noteq> 1" "?n < 0" | "n \<noteq> 0" "n \<noteq> 1" "2 \<le> ?n"
  proof -
    have "?n \<noteq> 0" "?n \<noteq> 1" if "n \<noteq> 0" "n \<noteq> 1"
      using that signed_word_eqI [of n 0] signed_word_eqI [of n 1] by auto
    then show thesis
      using that by linarith
  qed
  then show ?case
  proof cases
    case 3
    have "badfib frames m = None" if "int_result (?n - 1) = Some m" for m
    proof -
      have "sint m < 0"
        using that 3(3) unfolding int_result_small by linarith
      then show ?thesis
        by (simp add: Suc.IH)
    qed
    then show ?thesis
      using 3 by (auto split: bind_splits)
  next
    case 4
    define m1 m2 :: cint where "m1 = of_int (?n - 1)" and "m2 = of_int (?n - 2)"
    have m: "int_result (?n - 1) = Some m1" "int_result (?n - 2) = Some m2" "sint m1 = ?n - 1" "sint m2 = ?n - 2"
      using 4(3) range int_result_small [of "?n - 1" m1] int_result_small [of "?n - 2" m2]
      by (simp_all add: m1_def m2_def int_result_def)
    have step: "badfib (Suc frames) n = do { x \<leftarrow> badfib frames m1; y \<leftarrow> badfib frames m2; int_result (sint x + sint y) }"
      using 4 m by simp
    have fib: "fib (nat ?n) = fib (nat (?n - 1)) + fib (nat (?n - 2))"
      using 4(3) fib_step [of "nat ?n"] by (simp add: nat_diff_distrib)
    show ?thesis
    proof (cases "?n - 1 \<le> 46 \<and> ?n - 1 \<le> int frames")
      case False
      then have "badfib frames m1 = None"
        using Suc.IH [of m1] m(3) by auto
      then have "badfib (Suc frames) n = None"
        by (simp only: step Option.bind.simps)
      then show ?thesis
        using False 4(3) by (auto simp del: badfib.simps)
    next
      case True
      then have x: "badfib frames m1 = Some (of_nat (fib (nat (?n - 1))))" "badfib frames m2 = Some (of_nat (fib (nat (?n - 2))))"
        using Suc.IH [of m1] Suc.IH [of m2] m(3,4) 4(3) by auto
      have "sint (of_nat (fib (nat (?n - 1))) :: cint) = int (fib (nat (?n - 1)))"
        "sint (of_nat (fib (nat (?n - 2))) :: cint) = int (fib (nat (?n - 2)))"
        using badfib_value [of m1] badfib_value [of m2] m(3,4) 4(3) True by simp_all
      then have r: "badfib (Suc frames) n = int_result (int (fib (nat ?n)))"
        by (simp add: step x fib del: badfib.simps)
      show ?thesis
      proof (cases "?n \<le> 46")
        case le: True
        then have "fib (nat ?n) \<le> fib 46"
          by (intro fib_mono) simp
        then show ?thesis
          using le True 4(3) fib_bounds(1) by (simp add: r int_result_def del: badfib.simps)
      next
        case False
        then have "?n = 47"
          using True by simp
        then show ?thesis
          using fib_bounds(2) by (simp add: r int_result_def del: badfib.simps)
      qed
    qed
  qed simp_all
qed simp

end
