(* ===== verification/Workloads.thy ===== *)
theory Workloads
  imports LibC Tasks
begin

text \<open>
  The program of user.c: the report of the statistics, the three workloads and \<^verbatim>\<open>main\<close> with its
  fork tree.  The system calls are a record of functions on a state of any type, so that what is
  shown holds whatever they do; a call that never comes back, because it blocks for ever or
  faults, is \<open>None\<close>, and so is then the program.  \<open>frames\<close> is how many calls deep the user's stack
  reaches below the loops of the workloads.

  The third argument of \<^verbatim>\<open>read\<close> is how many ticks it blocks (ScheduleAnalysis.txt); the program
  never looks at the buffer.
\<close>

record 'w usys =
  u_write :: "cint \<Rightarrow> byte list \<Rightarrow> 'w \<Rightarrow> (cint \<times> 'w) option"
  u_read :: "cint \<Rightarrow> cint \<Rightarrow> 'w \<Rightarrow> (cint \<times> 'w) option"
  u_getpid :: "'w \<Rightarrow> (cint \<times> 'w) option"
  u_fork :: "'w \<Rightarrow> (cint \<times> 'w) option"
  u_get_stats :: "cint \<Rightarrow> 'w \<Rightarrow> (cint \<times> stats \<times> 'w) option"
  u_set_sched_policy :: "cint \<Rightarrow> 'w \<Rightarrow> (cint \<times> 'w) option"
  u_exit :: "'w \<Rightarrow> 'w"
  u_errno :: "'w \<Rightarrow> cint"

abbreviation (input) WORKMODEL :: int where "WORKMODEL \<equiv> 4"
abbreviation (input) SCHED :: int where "SCHED \<equiv> 1"

section \<open>Reports\<close>

text \<open>\<open>junk\<close> is what the local buffer holds before; the results below do not depend on it.\<close>

definition perror :: "'w usys \<Rightarrow> buf \<Rightarrow> 'w \<Rightarrow> 'w option" where
  "perror U junk w = do {
     (buffer, n) \<leftarrow> perror_text (u_errno U w) junk;
     (_, w) \<leftarrow> u_write U 1 (buf_list buffer n) w;
     Some w }"

definition writeStats :: "'w usys \<Rightarrow> buf \<Rightarrow> cint \<Rightarrow> cint \<Rightarrow> 'w \<Rightarrow> 'w option" where
  "writeStats U junk pid wl w = do {
     (r, aux, w) \<leftarrow> u_get_stats U pid w;
     if r = -1 then perror U junk w
     else do {
       (buff, n) \<leftarrow> stats_line wl (user_ticks aux) (blocked_ticks aux) (ready_ticks aux) (system_ticks aux) junk;
       (_, w) \<leftarrow> u_write U 1 (buf_list buff n) w;
       Some w } }"

section \<open>Workloads\<close>

function io_loop :: "'w usys \<Rightarrow> nat \<Rightarrow> 'w \<Rightarrow> 'w option" where
  "io_loop U i w = (if i < 30 then do { (_, w) \<leftarrow> u_read U 0 (25 + of_nat i) w; io_loop U (i + 1) w } else Some w)"
  by pat_completeness auto
termination
  by (relation "measure (\<lambda>(U, i, w). 30 - i)") auto

function cpu_loop :: "nat \<Rightarrow> nat \<Rightarrow> unit option" where
  "cpu_loop frames i =
     (if i < 100 then do { _ \<leftarrow> badfib frames (of_nat (i mod 30)); cpu_loop frames (i + 1) } else Some ())"
  by pat_completeness auto
termination
  by (relation "measure (\<lambda>(frames, i). 100 - i)") auto

function mixed_loop :: "'w usys \<Rightarrow> nat \<Rightarrow> nat \<Rightarrow> 'w \<Rightarrow> 'w option" where
  "mixed_loop U frames i w =
     (if i < 50 then do {
        _ \<leftarrow> badfib frames (of_nat (i mod 30));
        if i mod 3 = 0 then do { (_, w) \<leftarrow> u_read U 0 (25 + of_nat i) w; mixed_loop U frames (i + 1) w }
        else mixed_loop U frames (i + 1) w }
      else Some w)"
  by pat_completeness auto
termination
  by (relation "measure (\<lambda>(U, frames, i, w). 50 - i)") auto

declare io_loop.simps [simp del] and cpu_loop.simps [simp del] and mixed_loop.simps [simp del]

definition heavyIO :: "'w usys \<Rightarrow> buf \<Rightarrow> 'w \<Rightarrow> 'w option" where
  "heavyIO U junk w = do {
     w \<leftarrow> io_loop U 0 w;
     (pid, w) \<leftarrow> u_getpid U w;
     writeStats U junk pid 1 w }"

definition heavyCPU :: "'w usys \<Rightarrow> nat \<Rightarrow> buf \<Rightarrow> 'w \<Rightarrow> 'w option" where
  "heavyCPU U frames junk w = do {
     _ \<leftarrow> cpu_loop frames 0;
     (pid, w) \<leftarrow> u_getpid U w;
     writeStats U junk pid 2 w }"

definition mixed :: "'w usys \<Rightarrow> nat \<Rightarrow> buf \<Rightarrow> 'w \<Rightarrow> 'w option" where
  "mixed U frames junk w = do {
     w \<leftarrow> mixed_loop U frames 0 w;
     (pid, w) \<leftarrow> u_getpid U w;
     writeStats U junk pid 3 w }"

section \<open>main\<close>

text \<open>The function pointers; for another number they are not set.\<close>

datatype workload = HeavyIO | HeavyCPU | Mixed

definition workloads :: "int \<Rightarrow> (workload \<times> workload \<times> workload) option" where
  "workloads model =
     (if model = 1 then Some (HeavyIO, HeavyIO, HeavyIO)
      else if model = 2 then Some (HeavyCPU, HeavyCPU, HeavyCPU)
      else if model = 3 then Some (Mixed, Mixed, Mixed)
      else if model = 4 then Some (HeavyCPU, HeavyIO, Mixed)
      else None)"

fun run_workload :: "workload \<Rightarrow> 'w usys \<Rightarrow> nat \<Rightarrow> buf \<Rightarrow> 'w \<Rightarrow> 'w option" where
  "run_workload HeavyIO U frames junk w = heavyIO U junk w"
| "run_workload HeavyCPU U frames junk w = heavyCPU U frames junk w"
| "run_workload Mixed U frames junk w = mixed U frames junk w"

text \<open>The result is the state after the call of \<^verbatim>\<open>exit\<close>, which does not come back.\<close>

definition user_main :: "'w usys \<Rightarrow> nat \<Rightarrow> buf \<Rightarrow> 'w \<Rightarrow> 'w option" where
  "user_main U frames junk w = do {
     (workload1, workload2, workload3) \<leftarrow> workloads WORKMODEL;
     w \<leftarrow> (if SCHED = 0 then do { (_, w) \<leftarrow> u_set_sched_policy U 0 w; Some w } else Some w);
     (_, w) \<leftarrow> u_write U 1 [0x0A] w;
     (x, w) \<leftarrow> u_fork U w;
     w \<leftarrow> (if x \<noteq> 0 then do {
              (x, w) \<leftarrow> u_fork U w;
              if x \<noteq> 0 then run_workload workload3 U frames junk w
              else do {
                w \<leftarrow> run_workload workload2 U frames junk w;
                writeStats U junk 0 0 w } }
            else run_workload workload1 U frames junk w);
     Some (u_exit U w) }"

end
