(* ===== verification/UserSpec.thy ===== *)
theory UserSpec
  imports Workloads
begin

text \<open>
  The user side: decimal output, the report line, Fibonacci numbers, the result convention of the
  wrappers, and that every workload ends.
\<close>

section \<open>Numbers\<close>

text \<open>
  C31: itoa writes a non-negative int in decimal: reading the string back gives the number, so
  different numbers print differently.  A negative one, such as a tick counter of 2 ^ 31 or more,
  prints as the empty string.
\<close>

theorem itoa_reads_back:
  "\<exists>cs. holds_string (itoa a b) cs \<and> strlen (itoa a b) = Some (length cs) \<and> length cs \<le> 10 \<and>
    (if sint a < 0 then cs = [] else cs \<noteq> [] \<and> decimal_value cs = unat a)"
  using itoa_text [of a b] strlen_string [OF itoa_text [of a b]] num_text_length [of a]
  by (intro exI [of _ "num_text a"]) (auto simp: num_text_def decimal_value_decimal decimal_nonempty)

section \<open>Reports\<close>

text \<open>What a report makes of a process, as calls: one line, or the number of the error.\<close>

definition report :: "'w usys \<Rightarrow> cint \<Rightarrow> cint \<Rightarrow> 'w \<Rightarrow> 'w option" where
  "report U pid wl w = do {
     (r, aux, w) \<leftarrow> u_get_stats U pid w;
     (_, w) \<leftarrow> u_write U 1 (if r = -1 then num_text (u_errno U w)
        else stats_text wl [user_ticks aux, blocked_ticks aux, ready_ticks aux, system_ticks aux]) w;
     Some w }"

lemma perror_eq: "perror U junk w = do { (_, w) \<leftarrow> u_write U 1 (num_text (u_errno U w)) w; Some w }"
  using strlen_string [OF itoa_text, of "u_errno U w" junk] itoa_text [of "u_errno U w" junk]
  by (simp add: perror_def perror_text_def Let_def holds_string_def)

text \<open>
  The report. Whatever the counters are, writeStats makes the two calls and no other, and writes at
  most 55 bytes of its buffer of 100: the workload, then the user, blocked, ready and system ticks,
  each after a space, and a newline.
\<close>

theorem report_line:
  "writeStats U junk pid wl w = report U pid wl w \<and>
   length (stats_text wl [user_ticks aux, blocked_ticks aux, ready_ticks aux, system_ticks aux]) \<le> 55"
proof
  have line: "do { (buff, n) \<leftarrow> stats_line wl u b r s junk; (_, w) \<leftarrow> u_write U 1 (buf_list buff n) w; Some w } =
      do { (_, w) \<leftarrow> u_write U 1 (stats_text wl [u, b, r, s]) w; Some w }" for u b r s w
    using stats_line_text [of wl u b r s junk] by auto
  show "writeStats U junk pid wl w = report U pid wl w"
    unfolding writeStats_def report_def by (auto simp: line perror_eq intro!: Option.bind_cong split: prod.split)
qed (rule stats_text_length)

lemma writeStats_eq: "writeStats U junk pid wl w = report U pid wl w"
  by (rule conjunct1 [OF report_line])

section \<open>Workloads\<close>

text \<open>
  C32: badfib computes Fibonacci numbers where it can.  With a stack of so many frames it returns
  exactly on the arguments from 0 to 46 that are no deeper than the stack, with the Fibonacci number,
  which is an int; on a negative or a larger argument it overflows the stack or the int.
\<close>

theorem badfib_is_fib:
  "(if 0 \<le> sint n \<and> sint n \<le> 46 \<and> max 1 (sint n) \<le> int frames
    then \<exists>v. badfib frames n = Some v \<and> sint v = int (fib (nat (sint n)))
    else badfib frames n = None)"
  using badfib_eq [of frames n] badfib_value [of n] by auto

lemma badfib_returns: "29 \<le> frames \<Longrightarrow> \<exists>v. badfib frames (of_nat (i mod 30)) = Some v"
proof -
  assume f: "29 \<le> frames"
  have "i mod 30 \<le> 29"
    using mod_less_divisor [of 30 i] by simp
  then have "sint (of_nat (i mod 30) :: cint) = int (i mod 30)" "int (i mod 30) \<le> 29"
    using sint_of_nat_small [of "i mod 30"] by simp_all
  then show ?thesis
    using f by (simp add: badfib_eq del: of_nat_mod)
qed

lemma cpu_loop_returns: "29 \<le> frames \<Longrightarrow> cpu_loop frames i = Some ()"
proof (induction frames i rule: cpu_loop.induct)
  case (1 frames i)
  then show ?case
    using badfib_returns [of frames i] by (subst cpu_loop.simps) auto
qed

text \<open>The reads of a workload, one for each number of ticks.\<close>

fun reads :: "'w usys \<Rightarrow> nat list \<Rightarrow> 'w \<Rightarrow> 'w option" where
  "reads U [] w = Some w"
| "reads U (n # ns) w = do { (_, w) \<leftarrow> u_read U 0 (of_nat n) w; reads U ns w }"

lemma io_loop_reads: "i \<le> 30 \<Longrightarrow> io_loop U i w = reads U (map ((+) 25) [i..<30]) w"
proof (induction "30 - i" arbitrary: i w)
  case (Suc d)
  then have "[i..<30] = i # [i + 1..<30]"
    by (simp add: upt_conv_Cons)
  then show ?case
    using Suc by (subst io_loop.simps) (auto intro!: Option.bind_cong)
qed (simp add: io_loop.simps)

lemma mixed_loop_reads:
  "29 \<le> frames \<Longrightarrow> i \<le> 50 \<Longrightarrow> mixed_loop U frames i w = reads U (map ((+) 25) (filter (\<lambda>i. i mod 3 = 0) [i..<50])) w"
proof (induction "50 - i" arbitrary: i w)
  case (Suc d)
  then have "[i..<50] = i # [i + 1..<50]"
    by (simp add: upt_conv_Cons)
  moreover obtain v where "badfib frames (of_nat (i mod 30)) = Some v"
    using badfib_returns Suc.prems(1) by blast
  ultimately show ?case
    using Suc by (subst mixed_loop.simps) (auto intro!: Option.bind_cong)
qed (simp add: mixed_loop.simps)

text \<open>\<open>calls_return U\<close>: no call blocks for ever.\<close>

definition calls_return :: "'w usys \<Rightarrow> bool" where
  "calls_return U \<longleftrightarrow> (\<forall>fd bs n pid w. u_write U fd bs w \<noteq> None \<and> u_read U fd n w \<noteq> None \<and> u_getpid U w \<noteq> None \<and>
     u_fork U w \<noteq> None \<and> u_get_stats U pid w \<noteq> None)"

text \<open>What the processes of the program do, as calls.\<close>

definition own_report :: "'w usys \<Rightarrow> cint \<Rightarrow> 'w \<Rightarrow> 'w option" where
  "own_report U wl w = do { (pid, w) \<leftarrow> u_getpid U w; report U pid wl w }"

definition program :: "'w usys \<Rightarrow> 'w \<Rightarrow> 'w option" where
  "program U w = do {
     (_, w) \<leftarrow> u_write U 1 [0x0A] w;
     (x, w) \<leftarrow> u_fork U w;
     w \<leftarrow> (if x = 0 then own_report U 2 w
       else do {
         (y, w) \<leftarrow> u_fork U w;
         if y = 0 then do { w \<leftarrow> reads U [25..<55] w; w \<leftarrow> own_report U 1 w; report U 0 0 w }
         else do { w \<leftarrow> reads U (map (\<lambda>i. 25 + 3 * i) [0..<17]) w; own_report U 3 w } });
     Some (u_exit U w) }"

lemma calls_returnD:
  assumes "calls_return U"
  shows "\<exists>r w'. u_write U fd bs w = Some (r, w')" and "\<exists>r w'. u_read U fd n w = Some (r, w')"
    and "\<exists>r w'. u_getpid U w = Some (r, w')" and "\<exists>r w'. u_fork U w = Some (r, w')"
    and "\<exists>r aux w'. u_get_stats U pid w = Some (r, aux, w')"
  using assms unfolding calls_return_def not_None_eq split_paired_Ex by blast+

lemma reads_return: "calls_return U \<Longrightarrow> \<exists>w'. reads U ns w = Some w'"
proof (induction ns arbitrary: w)
  case (Cons n ns)
  then show ?case
    using calls_returnD(2) [OF Cons.prems, of 0 "of_nat n" w] by auto
qed simp

lemma report_returns:
  assumes "calls_return U"
  shows "\<exists>w'. report U pid wl w = Some w'" and "\<exists>w'. own_report U wl w = Some w'"
proof -
  show r: "\<exists>w'. report U pid wl w = Some w'" for pid wl w
  proof -
    obtain r aux w1 where g: "u_get_stats U pid w = Some (r, aux, w1)"
      using calls_returnD(5) [OF assms] by blast
    obtain v w2 where "u_write U 1 (if r = -1 then num_text (u_errno U w1)
        else stats_text wl [user_ticks aux, blocked_ticks aux, ready_ticks aux, system_ticks aux]) w1 = Some (v, w2)"
      using calls_returnD(1) [OF assms] by blast
    with g show ?thesis
      by (simp add: report_def)
  qed
  show "\<exists>w'. own_report U wl w = Some w'"
    using calls_returnD(3) [OF assms, of w] r by (auto simp: own_report_def)
qed

lemma program_returns:
  assumes "calls_return U"
  shows "\<exists>w'. program U w = Some (u_exit U w')"
proof -
  note ret = calls_returnD [OF assms] reads_return [OF assms] report_returns [OF assms]
  obtain r w1 x w2 where a: "u_write U 1 [0x0A] w = Some (r, w1)" "u_fork U w1 = Some (x, w2)"
    using ret(1,4) by blast
  obtain y w3 where y: "u_fork U w2 = Some (y, w3)"
    using ret(4) by blast
  obtain c p q where c: "own_report U 2 w2 = Some c" "reads U (map (\<lambda>i. 25 + 3 * i) [0..<17]) w3 = Some p"
      "reads U [25..<55] w3 = Some q"
    using ret(6,8) by blast
  obtain p1 q1 where d: "own_report U 3 p = Some p1" "own_report U 1 q = Some q1"
    using ret(8) by blast
  obtain q2 where "report U 0 0 q1 = Some q2"
    using ret(7) by blast
  then show ?thesis
    by (cases "x = 0"; cases "y = 0") (auto simp: program_def a y c d simp del: upt_rec_numeral)
qed

text \<open>
  C33: the processes of the program.  With 29 frames of stack for badfib, main makes these calls and
  no other: it writes a newline and forks; the first child computes and reports as workload 2; the
  parent forks again, and the second child reads for 25 to 54 ticks, reports as workload 1 and reports
  process 0, while the parent reads for 25, 28 to 73 ticks and reports as workload 3; then each
  exits.  It ends unless a call blocks for ever.
\<close>

theorem user_program_ends:
  assumes "29 \<le> frames"
  shows "user_main U frames junk w = program U w \<and> (calls_return U \<longrightarrow> (\<exists>w'. user_main U frames junk w = Some (u_exit U w')))"
proof -
  have upt: "map ((+) 25) [0..<30] = [25..<55]" "map ((+) 25) (filter (\<lambda>i. i mod 3 = 0) [0..<50]) = map (\<lambda>i. 25 + 3 * i) [0..<17]"
    by code_simp+
  have eq: "user_main U frames junk w = program U w"
    unfolding user_main_def program_def workloads_def
    by (auto simp: heavyIO_def heavyCPU_def mixed_def io_loop_reads mixed_loop_reads cpu_loop_returns assms writeStats_eq
        own_report_def upt intro!: Option.bind_cong simp del: upt_rec_numeral)
  show ?thesis
    using eq program_returns by auto
qed

text \<open>A system with fixed answers, whose state is what was written.\<close>

definition ex_stats :: stats where
  "ex_stats = \<lparr>user_ticks = 12, system_ticks = 3, blocked_ticks = 0, ready_ticks = 45,
     elapsed_total_ticks = 60, total_trans = 2, remaining_ticks = 5\<rparr>"

definition fixed_usys :: "cint \<Rightarrow> byte list usys" where
  "fixed_usys x = \<lparr>u_write = \<lambda>_ bs w. Some (of_nat (length bs), w @ bs), u_read = \<lambda>_ _ w. Some (0, w),
     u_getpid = \<lambda>w. Some (7, w), u_fork = \<lambda>w. Some (x, w), u_get_stats = \<lambda>_ w. Some (0, ex_stats, w),
     u_set_sched_policy = \<lambda>_ w. Some (0, w), u_exit = \<lambda>w. w @ [0], u_errno = \<lambda>_. 0\<rparr>"

theorem user_program_ends_witness:
  "user_main (fixed_usys 0) 29 (\<lambda>_. 0) [] =
     Some [0x0A, 0x32, 0x20, 0x31, 0x32, 0x20, 0x30, 0x20, 0x34, 0x35, 0x20, 0x33, 0x0A, 0]"
proof -
  have t: "stats_text 2 [12, 0, 45, 3] = [0x32, 0x20, 0x31, 0x32, 0x20, 0x30, 0x20, 0x34, 0x35, 0x20, 0x33, 0x0A]"
    by (simp add: stats_text_def num_text_def decimal.simps)
  show ?thesis
    using user_program_ends [of 29 "fixed_usys 0" "\<lambda>_. 0" "[]"]
    by (simp add: program_def own_report_def report_def fixed_usys_def ex_stats_def t)
qed

end
