(* ===== verification/Spec2Isabelle.thy ===== *)
theory Spec2Isabelle
  imports ComponentSpec TimeSpec Errno TrapEvents UserCallSpec BootChain SocketsSpec UserSpec
begin

text \<open>
  ZeOS: a small 32 bit x86 kernel written in C and assembly, its user library and program, the
  host program that builds its disk image, and a set of socket exercises.  This development
  models all of its C code and all of its assembly, and shows what makes each part, and the
  kernel as a whole, correct.

  \<^bold>\<open>The program.\<close>  The boot loader (bootsect.S) loads an image made by build.c and jumps to
  \<^verbatim>\<open>main\<close> of system.c, which sets up descriptor tables, paging, the task structures and the
  scheduler, copies the user program to its pages and enters user mode.  From then on the kernel
  runs only in traps (entry.S): the clock interrupt drives the round robin scheduler of sched.c,
  the keyboard interrupt prints a key, and \<^verbatim>\<open>sysenter\<close> dispatches through sys\_call\_table.S to
  the calls of sys.c.  Those use the copy routines and checks of utils.c, the frame allocator
  and page tables of mm.c, the queues of list.c and the console of io.c.  A task is switched by
  the stack manipulation of kernel-utils.S.

  \<^bold>\<open>The model.\<close>  Code is translated function by function, under its own names, with explicit
  state passing; a \<^verbatim>\<open>'for'\<close> loop is a fold or a recursion, and machine integers are words, so
  that arithmetic wraps as the code's does.  Kernel memory is split by type: list nodes, task
  structures, the dwords of the kernel stacks, page table entries, and bytes behind the
  translation of the current page tables.  A fault of the processor or a call that does not
  return is a value (\<^verbatim>\<open>None\<close>, \<^verbatim>\<open>Inl\<close>).

  \<^item> Prelude: words, rule collections, generic lemmas.
  \<^item> ListHeap: list.c and list.h; the heap of list nodes.
  \<^item> HwTypes: include/types.h; descriptors, gates, TSS, page table entries.
  \<^item> Utils: utils.c; copies, \<^verbatim>\<open>access_ok\<close>, division and tick counter.
  \<^item> Console: io.c, devices.c.
  \<^item> Tasks: include/sched.h, include/stats.h and the address computations on tasks.
  \<^item> MM: frames, page tables and the page walk of mm.c; Segments: its descriptor tables, with
    interrupt.c's gates and hardware.c's register loads.
  \<^item> Sched: sched.c, p\_stats.c and the switch; the record \<open>kernel\<close> is the whole kernel state.
  \<^item> Syscalls: sys.c; Traps: entry.S, sys\_call\_table.S, interrupt.c; Boot: system.c; Errno:
    include/errno.h.
  \<^item> LibC and Workloads: libc.c, user.c; UserEntry: the wrappers of user-utils.S, instruction by
    instruction on the user's stack, with the kernel's handler between \<^verbatim>\<open>sysenter\<close> and \<^verbatim>\<open>sysexit\<close>.
  \<^item> Loader: bootsect.S in real mode, from the move to 0x90000 to the jump to the kernel.
  \<^item> Builder: build.c; Sockets: the five files of SOCKETS.

  \<^bold>\<open>Interfaces.\<close>  The locales are what one part relies on of another, each interpreted on the code's
  definitions: \<open>kqueue\<close> and its extension \<open>kdeque\<close> (ListHeap) are the contract of a family of
  disjoint queues, \<open>frame_allocator\<close> (MM) the contract of allocating and freeing frames,
  \<open>page_store\<close> (AddrSpace) the algebra of page table updates, and \<open>policy_contract\<close> (Scheduling)
  what \<^verbatim>\<open>schedule\<close> needs of the policy behind its function pointers to be an abstract scheduler.

  \<^bold>\<open>What is shown.\<close>
  \<^item> AddrSpace, Rows, ForkMem, Space: the page walk in an address space of the kernel's shape, the
    distinctness of the tables, the memory part of fork, and the shape of a process's space.
  \<^item> Switch, Scheduling, SchedInit, SchedSpec: a switched task comes back with its registers;
    \<^verbatim>\<open>schedule\<close> is one tick of an abstract round robin scheduler, which is fair.
  \<^item> Fork, ForkSpec, Exit: what \<^verbatim>\<open>fork\<close> and \<^verbatim>\<open>exit\<close> do to tasks, queues, frames and memory,
    and that a failing fork gives everything back.
  \<^item> BootSpec, Booted, BootMain: the state after boot, and \<^verbatim>\<open>main\<close> as far as user mode.
  \<^item> Procs, Reach, SystemSpec: the system invariant \<open>kinv\<close>, which relates the kernel to an
    abstract machine of processes (the one that runs, the ready and the free ones, and the data
    frames of each).  \<open>kstep\<close> is one event: a tick, a system call, or the running program and the
    trap code in between; every event keeps the invariant and is a step of the abstract machine.
    Isolation of processes, the accounting of frames, the uniqueness of PIDs and that fork
    cannot run out of frames follow for every reachable state.
  \<^item> WriteSpec, CallSpec, StatsSpec: the calls that read and write the caller's memory, with what
    the pointer check accepts.
  \<^item> TrapSpec, TimeSpec: interrupts give all registers back, and calls, whoever serves them, all but
    the result and the registers of \<^verbatim>\<open>sysexit\<close>; no time is lost.
  \<^item> TrapEvents: a whole trap, from the first push of its handler to the last pop or to the switch, is
    a run of the events of the system, so it keeps \<open>kinv\<close>; the clock interrupt, as long as no read is
    pending in the library.
  \<^item> Errno: the error numbers by name; a call of this kernel that fails returns one of them.
  \<^item> UserEntrySpec, UserCallSpec: the data pages of the running process as an array of dwords that
    program and kernel reach, the round trip of a wrapper over it, and from it what a program
    sees of getpid, gettime and write, results and errno included.
  \<^item> LoaderLoop, LoaderSpec: the reading loop, as an invariant on the position in memory and on the
    disk that does not depend on the BIOS, so that it gives the loaded system for a BIOS that
    reads and the unnoticed failure for one that does not; the wait for address line 20, which ends
    exactly if the line opens; the descriptor table.
  \<^item> BootChain: image builder, loader and \<^verbatim>\<open>main\<close> composed, from the files to the user program.
  \<^item> ComponentSpec: lists as sequences, copies as byte loops, the descriptor tables, the protection
    of the kernel's pages at boot and its loss in a fork.
  \<^item> UserSpec, BuilderSpec, SocketsSpec: the host and user programs.
  \<^item> Example: a concrete machine, linked and booted, on which every property is instantiated.

  \<^bold>\<open>Bounds.\<close>  There are ten task structures and 1024 frames, of which the allocator hands out the
  even ones from 256 on; addresses the linker chooses are the record \<open>layout\<close> under the
  conditions \<open>layout_ok\<close>.  The only fuel is that of the two list loops; the length of the list
  is enough, as kernel\_lists\_are\_queues shows.  Recursions over sizes have measures; loops that
  need not end (\<^verbatim>\<open>strlen\<close>, the socket servers, \<^verbatim>\<open>a20_wait\<close>, \<^verbatim>\<open>cpu_idle\<close>) are partial functions, the read
  loop of the boot loader is \<^verbatim>\<open>while_option\<close>, and that they return is a theorem wherever it holds.
  \<^verbatim>\<open>badfib\<close> recurses on a stack of so many frames; 29 are enough for the program, and badfib\_is\_fib
  says which arguments any number is enough for.  In Workloads a system call that never comes back
  is \<^verbatim>\<open>None\<close>.

  \<^bold>\<open>Parameters.\<close>  The binary libraries libzeos.a, libauxjp.a and libschedperf.a are the record
  \<open>externals\<close>: \<^verbatim>\<open>sys_read\<close>, \<^verbatim>\<open>set_sched_policy\<close>, the exception gates, the clock display, the
  console initialisation and the choice of the policy.  Statements hold for all of them, or
  under named hypotheses: that those called at boot leave the kernel's own
  queues, memory and tasks alone (\<open>quiet_boot\<close>), that those called by the clock interrupt leave the
  processor and the tasks alone while the queue of reads the library keeps is empty
  (\<open>clock_library\<close>: with a read in it, it counts the ticks of the read and unblocks the process), and
  that those behind the table of calls return as C functions do (\<open>library_returns\<close>).  The events of the system leave out \<^verbatim>\<open>sys_read\<close> and
  \<^verbatim>\<open>set_sched_policy\<close>, and programs that write outside their data pages (a forked one could,
  as fork\_opens\_kernel\_pages shows); \<open>trap_ok\<close> is room on the kernel stack.
  \<^verbatim>\<open>rdtsc\<close> is a stream of values, the operating system behind the host programs a record of
  functions.  The disk calls of the BIOS are a function of the
  registers and of memory, with the carry flag, the status in ah and memory as the answer; \<open>floppy\<close>
  says that it reads sectors of one track.  Whether address line 20 is open is a stream, one value
  for each test of the wait, and \<open>a20_opens\<close> that it is open at some test to come.  \<open>user_labels\<close> are
  the addresses in the user program that the linker chooses.

  \<^bold>\<open>Not modelled.\<close>  Of bootsect.S the stack, the registers saved around a read, and the three words of
  its own sector that count sectors, heads and tracks as bytes of memory (they are fields).  The bodies of the binary
  libraries.  \<^verbatim>\<open>delay\<close>, a jump to the next instruction that nothing calls, and \<^verbatim>\<open>inb\<close>, whose byte is
  an argument of \<open>keyboard_routine\<close>.  The frames gcc lays out for C functions are followed only
  where the code depends on them (fork, task switch); interrupts are off in the kernel, so no
  routine is interrupted.  The translation cache is not modelled: the code reloads cr3 where it
  relies on a flush.  The prototypes of the headers have no content of their own.
\<close>

end
